(* ===== verification/Prelude.thy ===== *)
theory Prelude
  imports Main "HOL-Library.Word"
begin

text \<open>
  What every component of the development shares: the machine integers of the
  code, the outcome of a C++ call (it returns, throws, terminates the process, is
  undefined behaviour, or blocks), the contract of a copyable and movable C++ type
  as a locale, and the generic lemmas on lists and words the components use.
\<close>

section \<open>Machine integers\<close>

type_synonym size_t = "64 word"
type_synonym uint64_t = "64 word"
type_synonym int32_t = "32 word"

named_theorems outcome_simps "equations of the outcome combinators"

section \<open>Outcomes of a call\<close>

text \<open>
  \<open>Throws e\<close> is an exception that leaves the call, \<open>Terminates m\<close> is
  \<open>std::terminate\<close> or a failed \<open>assert\<close> (with its message), \<open>Undefined\<close> is
  undefined behaviour (a null or mistyped pointer is dereferenced), \<open>Blocks\<close> is a
  call that waits for another thread and does not return in this state.
\<close>

datatype ('x, 'a) outcome =
    Ret 'a
  | Throws 'x
  | Terminates string
  | Undefined
  | Blocks

fun obind :: "('x, 'a) outcome \<Rightarrow> ('a \<Rightarrow> ('x, 'b) outcome) \<Rightarrow> ('x, 'b) outcome" where
  "obind (Ret a) f = f a"
| "obind (Throws e) f = Throws e"
| "obind (Terminates m) f = Terminates m"
| "obind Undefined f = Undefined"
| "obind Blocks f = Blocks"

text \<open>An exception that reaches the boundary of a \<open>noexcept\<close> function terminates.\<close>

fun noexcept :: "('x, 'a) outcome \<Rightarrow> ('x, 'a) outcome" where
  "noexcept (Throws e) = Terminates ''exception leaves a noexcept function''"
| "noexcept (Ret a) = Ret a"
| "noexcept (Terminates m) = Terminates m"
| "noexcept Undefined = Undefined"
| "noexcept Blocks = Blocks"

definition returns :: "('x, 'a) outcome \<Rightarrow> bool" where
  "returns r \<longleftrightarrow> (\<exists>a. r = Ret a)"

definition throws :: "('x, 'a) outcome \<Rightarrow> bool" where
  "throws r \<longleftrightarrow> (\<exists>e. r = Throws e)"

lemma returns_Ret [simp]: "returns (Ret a)"
  by (simp add: returns_def)

lemma not_returns [simp]:
  "\<not> returns (Throws e)" "\<not> returns (Terminates m)" "\<not> returns Undefined" "\<not> returns Blocks"
  by (simp_all add: returns_def)

lemma throws_simps [simp]:
  "throws (Throws e)" "\<not> throws (Ret a)" "\<not> throws (Terminates m)"
  "\<not> throws Undefined" "\<not> throws Blocks"
  by (simp_all add: throws_def)

lemma obind_Ret_right [simp]: "obind m Ret = m"
  by (cases m) simp_all

lemma obind_assoc: "obind (obind m f) g = obind m (\<lambda>a. obind (f a) g)"
  by (cases m) simp_all

lemma obind_eq_Ret: "obind m f = Ret b \<longleftrightarrow> (\<exists>a. m = Ret a \<and> f a = Ret b)"
  by (cases m) simp_all

lemma noexcept_eq_Ret [simp]: "noexcept m = Ret a \<longleftrightarrow> m = Ret a"
  by (cases m) simp_all

lemma noexcept_not_throws [simp]: "\<not> throws (noexcept m)"
  by (cases m) simp_all

lemma noexcept_neq_Throws [simp]: "noexcept m \<noteq> Throws e"
  by (cases m) simp_all

lemmas outcome_rules = obind_eq_Ret obind_assoc noexcept_eq_Ret

section \<open>Copying and moving C++ objects\<close>

text \<open>
  The operations of the element types a container is instantiated with. They are the
  user's code, so they are a parameter. \<open>type_of\<close> is the dynamic type of an object,
  \<open>copy_ctor\<close> and \<open>copy_asgn old source\<close> give the new value of the target,
  \<open>move_ctor\<close> and \<open>move_asgn old source\<close> give the new value of the target and
  what is left in the source, \<open>conv_ctor T source\<close> constructs a \<open>T\<close> from an
  object of another type. Each may throw.
\<close>

record ('x, 't, 'v) elem_ops =
  type_of :: "'v \<Rightarrow> 't"
  copy_ctor :: "'v \<Rightarrow> ('x, 'v) outcome"
  move_ctor :: "'v \<Rightarrow> ('x, 'v \<times> 'v) outcome"
  copy_asgn :: "'v \<Rightarrow> 'v \<Rightarrow> ('x, 'v) outcome"
  move_asgn :: "'v \<Rightarrow> 'v \<Rightarrow> ('x, 'v \<times> 'v) outcome"
  conv_ctor :: "'t \<Rightarrow> 'v \<Rightarrow> ('x, 'v) outcome"

datatype value_category = LValue | RValue

text \<open>\<open>T(std::forward<A>(a))\<close>: copy, move or convert, by type and value category.\<close>

definition construct_from ::
  "('x, 't, 'v) elem_ops \<Rightarrow> value_category \<Rightarrow> 't \<Rightarrow> 'v \<Rightarrow> ('x, 'v \<times> 'v) outcome" where
  "construct_from ops cat T a =
     (if type_of ops a = T
      then (case cat of
              LValue \<Rightarrow> obind (copy_ctor ops a) (\<lambda>n. Ret (n, a))
            | RValue \<Rightarrow> move_ctor ops a)
      else obind (conv_ctor ops T a) (\<lambda>n. Ret (n, a)))"

text \<open>
  The contract the containers rely on: a copy equals its source, a move hands the
  value over and leaves an object of the same type (\<open>moved_out v\<close>), conversion
  yields an object of the target type; none of them throws.
\<close>

locale regular_elems =
  fixes ops :: "('x, 't, 'v) elem_ops"
    and moved_out :: "'v \<Rightarrow> 'v"
  assumes copy_ctor_law [simp]: "copy_ctor ops v = Ret v"
    and move_ctor_law [simp]: "move_ctor ops v = Ret (v, moved_out v)"
    and copy_asgn_law [simp]: "copy_asgn ops d v = Ret v"
    and move_asgn_law [simp]: "move_asgn ops d v = Ret (v, moved_out v)"
    and moved_out_type [simp]: "type_of ops (moved_out v) = type_of ops v"
begin

lemma construct_same:
  "type_of ops a = T \<Longrightarrow>
   construct_from ops cat T a = Ret (a, if cat = RValue then moved_out a else a)"
  by (cases cat) (simp_all add: construct_from_def)

end

section \<open>Lists and words\<close>

text \<open>The position of the first element equal to \<open>x\<close> (the length when there is none).\<close>

definition first_index :: "'a \<Rightarrow> 'a list \<Rightarrow> nat" where
  "first_index x xs = length (takeWhile (\<lambda>y. y \<noteq> x) xs)"

lemma first_index_Nil [simp]: "first_index x [] = 0"
  by (simp add: first_index_def)

lemma first_index_Cons [simp]:
  "first_index x (y # ys) = (if y = x then 0 else Suc (first_index x ys))"
  by (simp add: first_index_def)

lemma first_index_less: "x \<in> set xs \<Longrightarrow> first_index x xs < length xs"
  by (induction xs) auto

lemma nth_first_index: "x \<in> set xs \<Longrightarrow> xs ! first_index x xs = x"
  by (induction xs) auto

lemma first_index_least: "i < first_index x xs \<Longrightarrow> xs ! i \<noteq> x"
  by (induction xs arbitrary: i) (auto simp: nth_Cons split: if_splits nat.splits)

lemma first_index_distinct:
  "distinct xs \<Longrightarrow> i < length xs \<Longrightarrow> first_index (xs ! i) xs = i"
  by (induction xs arbitrary: i) (auto simp: nth_Cons in_set_conv_nth split: nat.splits)

lemma unat_of_nat_size_t: "n < 2 ^ 64 \<Longrightarrow> unat (of_nat n :: size_t) = n"
  by (simp add: unat_of_nat)

lemma of_nat_size_t_eq:
  "m < 2 ^ 64 \<Longrightarrow> n < 2 ^ 64 \<Longrightarrow> (of_nat m :: size_t) = of_nat n \<longleftrightarrow> m = n"
  by (metis unat_of_nat_size_t)

lemma of_nat_size_t_neq_max: "n < 2 ^ 64 - 1 \<Longrightarrow> (of_nat n :: size_t) \<noteq> - 1"
proof
  assume n: "n < 2 ^ 64 - 1" and eq: "(of_nat n :: size_t) = - 1"
  have "unat (of_nat n :: size_t) = n"
    by (rule unat_of_nat_size_t) (use n in simp)
  moreover have "unat (- 1 :: size_t) = 2 ^ 64 - 1"
    by transfer (simp add: take_bit_minus_one_eq_mask mask_eq_exp_minus_1)
  ultimately show False using eq n by simp
qed

end
