(* ===== verification/Utility.thy ===== *)
theory Utility
  imports Prelude
begin

text \<open>
  \<open>ara/core/utility.h\<close>: the \<open>Byte\<close> class, the non-member access functions \<open>data\<close>,
  \<open>size\<close> and \<open>empty\<close> on containers, arrays and initializer lists, and the
  \<open>conjunction\<close> and \<open>disjunction\<close> templates.
\<close>

section \<open>Byte\<close>

record Byte =
  mValue :: "8 word"

definition Byte_ctor :: "8 word \<Rightarrow> Byte" where
  "Byte_ctor value = \<lparr>mValue = value\<rparr>"

definition Byte_to_uchar :: "Byte \<Rightarrow> 8 word" where
  "Byte_to_uchar b = mValue b"

definition Byte_eq :: "Byte \<Rightarrow> Byte \<Rightarrow> bool" where
  "Byte_eq b1 b2 = (Byte_to_uchar b1 = Byte_to_uchar b2)"

definition Byte_neq :: "Byte \<Rightarrow> Byte \<Rightarrow> bool" where
  "Byte_neq b1 b2 = (Byte_to_uchar b1 \<noteq> Byte_to_uchar b2)"

lemma Byte_roundtrip: "Byte_to_uchar (Byte_ctor u) = u" "Byte_ctor (Byte_to_uchar b) = b"
  by (simp_all add: Byte_to_uchar_def Byte_ctor_def)

lemma Byte_eq_iff: "Byte_eq b1 b2 \<longleftrightarrow> b1 = b2" "Byte_neq b1 b2 \<longleftrightarrow> \<not> Byte_eq b1 b2"
  by (auto simp: Byte_eq_def Byte_neq_def Byte_to_uchar_def)

section \<open>Non-member container access\<close>

text \<open>
  A container is known by its element block (\<open>c.data()\<close>) and its number of elements;
  a raw array \<open>T(&)[N]\<close> is the list of its \<open>N > 0\<close> elements; a pointer to the first
  element is the block it points into (\<open>None\<close> is the null pointer).
\<close>

record 'a container =
  c_data :: "'a list option"
  c_size :: size_t
  c_empty :: bool

definition data_container :: "'a container \<Rightarrow> 'a list option" where
  "data_container c = c_data c"

definition data_const_container :: "'a container \<Rightarrow> 'a list option" where
  "data_const_container c = c_data c"

definition data_array :: "'a list \<Rightarrow> 'a list option" where
  "data_array arr = Some arr"

definition data_init_list :: "'a list \<Rightarrow> 'a list option" where
  "data_init_list il = (if il = [] then None else Some il)"

definition size_container :: "'a container \<Rightarrow> size_t" where
  "size_container c = c_size c"

definition size_array :: "'a list \<Rightarrow> size_t" where
  "size_array arr = of_nat (length arr)"

definition empty_container :: "'a container \<Rightarrow> bool" where
  "empty_container c = c_empty c"

definition empty_array :: "'a list \<Rightarrow> bool" where
  "empty_array arr = False"

definition empty_init_list :: "'a list \<Rightarrow> bool" where
  "empty_init_list il = ((of_nat (length il) :: size_t) = 0)"

text \<open>For a raw array (never of length 0) \<open>empty\<close> and \<open>size\<close> agree.\<close>

lemma empty_array_size:
  assumes "arr \<noteq> []" and "length arr < 2 ^ 64"
  shows "empty_array arr \<longleftrightarrow> size_array arr = 0"
  using of_nat_size_t_eq [of "length arr" 0] assms by (simp add: empty_array_def size_array_def)

lemma empty_init_list_iff:
  assumes "length il < 2 ^ 64"
  shows "empty_init_list il \<longleftrightarrow> il = []"
  using of_nat_size_t_eq [of "length il" 0] assms by (simp add: empty_init_list_def)

section \<open>conjunction and disjunction\<close>

text \<open>
  The templates do not compute a truth value but select a base class among their
  arguments: the first one that decides the result, or the last one. A trait is a type
  with a \<open>::value\<close>; \<open>std::true_type\<close> and \<open>std::false_type\<close> are the empty cases.
\<close>

datatype 'b trait_base = true_type | false_type | Base 'b

fun conjunction :: "('b \<Rightarrow> bool) \<Rightarrow> 'b list \<Rightarrow> 'b trait_base" where
  "conjunction val [] = true_type"
| "conjunction val [B1] = Base B1"
| "conjunction val (B1 # Bs) = (if val B1 then conjunction val Bs else Base B1)"

fun disjunction :: "('b \<Rightarrow> bool) \<Rightarrow> 'b list \<Rightarrow> 'b trait_base" where
  "disjunction val [] = false_type"
| "disjunction val [B1] = Base B1"
| "disjunction val (B1 # Bs) = (if val B1 then Base B1 else disjunction val Bs)"

fun trait_value :: "('b \<Rightarrow> bool) \<Rightarrow> 'b trait_base \<Rightarrow> bool" where
  "trait_value val true_type = True"
| "trait_value val false_type = False"
| "trait_value val (Base B) = val B"

lemma conjunction_value: "trait_value val (conjunction val Bs) \<longleftrightarrow> (\<forall>B \<in> set Bs. val B)"
  by (induction val Bs rule: conjunction.induct) auto

lemma disjunction_value: "trait_value val (disjunction val Bs) \<longleftrightarrow> (\<exists>B \<in> set Bs. val B)"
  by (induction val Bs rule: disjunction.induct) auto

text \<open>The selected base is the first deciding trait, so the traits after it are not instantiated.\<close>

lemma conjunction_short_circuit:
  "\<lbrakk>\<forall>B \<in> set Bs. val B; \<not> val B1\<rbrakk> \<Longrightarrow> conjunction val (Bs @ B1 # Cs) = Base B1"
proof (induction Bs)
  case Nil
  then show ?case by (cases Cs) simp_all
next
  case (Cons B Bs)
  then show ?case by (cases "Bs @ B1 # Cs") simp_all
qed

lemma disjunction_short_circuit:
  "\<lbrakk>\<forall>B \<in> set Bs. \<not> val B; val B1\<rbrakk> \<Longrightarrow> disjunction val (Bs @ B1 # Cs) = Base B1"
proof (induction Bs)
  case Nil
  then show ?case by (cases Cs) simp_all
next
  case (Cons B Bs)
  then show ?case by (cases "Bs @ B1 # Cs") simp_all
qed

lemma traits_decide:
  "conjunction val Bs =
     (if Bs = [] then true_type
      else if list_all val Bs then Base (last Bs) else Base (hd (dropWhile val Bs)))"
  "disjunction val Bs =
     (if Bs = [] then false_type
      else if list_ex val Bs then Base (hd (filter val Bs)) else Base (last Bs))"
proof -
  show "conjunction val Bs =
     (if Bs = [] then true_type
      else if list_all val Bs then Base (last Bs) else Base (hd (dropWhile val Bs)))"
    by (induction val Bs rule: conjunction.induct) auto
  show "disjunction val Bs =
     (if Bs = [] then false_type
      else if list_ex val Bs then Base (hd (filter val Bs)) else Base (last Bs))"
    by (induction val Bs rule: disjunction.induct) auto
qed

text \<open>
  \<open>Byte\<close> is a faithful wrapper of an \<open>unsigned char\<close>, with equality of the wrapped values. The
  non-member functions agree with each other: on an array or an initializer list of a size
  the address space allows, \<open>empty\<close> holds exactly when the size is 0 and then \<open>data\<close> of a list is
  null, and on a container they are its members. \<open>conjunction\<close> and \<open>disjunction\<close> have the value of
  the logical connectives, on no trait too, and derive from the first trait that decides,
  whatever traits follow it; negated, each is the other.
\<close>

theorem utilities_correct:
  assumes "arr \<noteq> []" "length arr < 2 ^ 64" "length il < 2 ^ 64"
  shows "Byte_to_uchar (Byte_ctor u) = u \<and> Byte_ctor (Byte_to_uchar b1) = b1
     \<and> (Byte_eq b1 b2 \<longleftrightarrow> b1 = b2) \<and> Byte_neq b1 b2 = (\<not> Byte_eq b1 b2)
     \<and> empty_array arr = (size_array arr = 0) \<and> unat (size_array arr) = length arr
     \<and> data_array arr = Some arr
     \<and> empty_init_list il = (data_init_list il = None)
     \<and> data_container c = data_const_container c
     \<and> size_container c = c_size c \<and> empty_container c = c_empty c
     \<and> trait_value val (conjunction val Bs) = list_all val Bs
     \<and> trait_value val (disjunction val Bs) = list_ex val Bs
     \<and> trait_value val (conjunction val Bs) = (\<not> trait_value (Not \<circ> val) (disjunction (Not \<circ> val) Bs))
     \<and> conjunction val Bs =
         (if Bs = [] then true_type
          else if list_all val Bs then Base (last Bs) else Base (hd (dropWhile val Bs)))
     \<and> disjunction val Bs =
         (if Bs = [] then false_type
          else if list_ex val Bs then Base (hd (filter val Bs)) else Base (last Bs))"
proof -
  have vals: "trait_value val (conjunction val Bs) = list_all val Bs"
      "trait_value val (disjunction val Bs) = list_ex val Bs"
      "trait_value val (conjunction val Bs) = (\<not> trait_value (Not \<circ> val) (disjunction (Not \<circ> val) Bs))"
    by (auto simp: conjunction_value disjunction_value list_all_iff list_ex_iff)
  show ?thesis
    using empty_array_size [OF assms(1,2)] empty_init_list_iff [OF assms(3)] assms(2)
    by (intro conjI vals traits_decide)
      (simp_all add: Byte_roundtrip Byte_eq_iff size_array_def data_array_def data_init_list_def
        data_container_def data_const_container_def size_container_def empty_container_def
        unsigned_of_nat take_bit_nat_eq_self)
qed

theorem utilities_correct_witness:
  "unat (size_array [True, False]) = 2 \<and> \<not> empty_init_list ''x''"
  using utilities_correct [where arr = "[True, False]" and il = "''x''" and u = 0
      and ?b1.0 = "Byte_ctor 0" and ?b2.0 = "Byte_ctor 0"
      and c = "\<lparr>c_data = Some ''x'', c_size = 1, c_empty = False\<rparr>" and val = "\<lambda>b. b" and Bs = "[True]"]
  by (simp add: data_init_list_def)

end
