(* ===== verification/Type_Index.thy ===== *)
theory Type_Index
  imports Utility
begin

text \<open>
  The template metafunctions of \<open>ara/core/variant.h\<close> (namespace \<open>internal\<close>), as functions
  on the list of alternative types \<open>Types...\<close>. Indices are \<open>size_t\<close>, so the code's
  \<open>index_type(-1)\<close> and the wrap-around of \<open>T_final - 1\<close> are those of a 64-bit word.
  A template that does not instantiate (no matching specialisation) is \<open>None\<close>.
\<close>

section \<open>Definitions\<close>

definition invalid_index :: size_t where
  "invalid_index = - 1"

fun does_contain_type :: "'t \<Rightarrow> 't list \<Rightarrow> bool" where
  "does_contain_type C [] = False"
| "does_contain_type C [T] = (C = T)"
| "does_contain_type C (T # Ts) = (C = T \<or> does_contain_type C Ts)"

fun get_index_of_type :: "size_t \<Rightarrow> 't \<Rightarrow> 't list \<Rightarrow> size_t option" where
  "get_index_of_type N C [] = None"
| "get_index_of_type N C (T # Ts) =
     (if C = T then Some N else get_index_of_type (N + 1) C Ts)"

fun get_type_at_index :: "size_t \<Rightarrow> size_t \<Rightarrow> 't list \<Rightarrow> 't option" where
  "get_type_at_index N Index [] = None"
| "get_type_at_index N Index (T # Ts) =
     (if N = Index then Some T else get_type_at_index (N + 1) Index Ts)"

fun are_move_constructible :: "('t \<Rightarrow> bool) \<Rightarrow> 't list \<Rightarrow> bool" where
  "are_move_constructible is_mc [] = True"
| "are_move_constructible is_mc [C] = is_mc C"
| "are_move_constructible is_mc (C # Ts) = (is_mc C \<and> are_move_constructible is_mc Ts)"

text \<open>The direct and the convertible index count from the end: \<open>sizeof...\<close> of the rest.\<close>

fun get_direct_type_index :: "'t \<Rightarrow> 't list \<Rightarrow> size_t" where
  "get_direct_type_index T [] = invalid_index"
| "get_direct_type_index T (N # Types) =
     (if T = N then of_nat (length Types) else get_direct_type_index T Types)"

fun get_convertible_type_index :: "('t \<Rightarrow> 't \<Rightarrow> bool) \<Rightarrow> 't \<Rightarrow> 't list \<Rightarrow> size_t" where
  "get_convertible_type_index conv T [] = invalid_index"
| "get_convertible_type_index conv T (N # Types) =
     (if conv T N
      then (if trait_value (conv T) (disjunction (conv T) Types)
            then invalid_index else of_nat (length Types))
      else get_convertible_type_index conv T Types)"

text \<open>\<open>T_val\<close>: the argument type without its reference and its top-level \<open>const\<close>.\<close>

datatype 't qual = Unqual 't | ConstOf "'t qual" | RefTo "'t qual"

fun remove_reference :: "'t qual \<Rightarrow> 't qual" where
  "remove_reference (RefTo q) = q"
| "remove_reference q = q"

fun remove_const :: "'t qual \<Rightarrow> 't qual" where
  "remove_const (ConstOf q) = q"
| "remove_const q = q"

definition T_val :: "'t qual \<Rightarrow> 't qual" where
  "T_val T = remove_const (remove_reference T)"

definition T_direct :: "'t \<Rightarrow> 't list \<Rightarrow> size_t" where
  "T_direct Tv Types = get_direct_type_index Tv Types"

definition T_present :: "'t \<Rightarrow> 't list \<Rightarrow> bool" where
  "T_present Tv Types = (T_direct Tv Types \<noteq> invalid_index)"

definition T_index :: "('t \<Rightarrow> 't \<Rightarrow> bool) \<Rightarrow> 't \<Rightarrow> 't list \<Rightarrow> size_t" where
  "T_index conv Tv Types =
     (if T_present Tv Types then T_direct Tv Types
      else get_convertible_type_index conv Tv Types)"

definition T_valid :: "('t \<Rightarrow> 't \<Rightarrow> bool) \<Rightarrow> 't \<Rightarrow> 't list \<Rightarrow> bool" where
  "T_valid conv Tv Types = (T_index conv Tv Types \<noteq> invalid_index)"

definition T_final :: "('t \<Rightarrow> 't \<Rightarrow> bool) \<Rightarrow> 't \<Rightarrow> 't list \<Rightarrow> size_t" where
  "T_final conv Tv Types =
     (if T_valid conv Tv Types then of_nat (length Types) - T_index conv Tv Types else 0)"

definition T_varIndex :: "('t \<Rightarrow> 't \<Rightarrow> bool) \<Rightarrow> 't \<Rightarrow> 't list \<Rightarrow> size_t" where
  "T_varIndex conv Tv Types = T_final conv Tv Types - 1"

text \<open>\<open>tuple_element<T_final, tuple<void, Types...>>\<close>; \<open>None\<close> is \<open>void\<close>.\<close>

definition T_varType :: "('t \<Rightarrow> 't \<Rightarrow> bool) \<Rightarrow> 't \<Rightarrow> 't list \<Rightarrow> 't option" where
  "T_varType conv Tv Types = (None # map Some Types) ! unat (T_final conv Tv Types)"

text \<open>\<open>internal::max\<close> and the size of the storage, the largest \<open>sizeof\<close>.\<close>

definition max1 :: "size_t \<Rightarrow> size_t" where
  "max1 a = a"

definition max2 :: "size_t \<Rightarrow> size_t \<Rightarrow> size_t" where
  "max2 a b = (if b < a then a else b)"

fun max_args :: "size_t list \<Rightarrow> size_t option" where
  "max_args [] = None"
| "max_args [a] = Some (max1 a)"
| "max_args [a, b] = Some (max2 a b)"
| "max_args (a # b # args) = max_args (max2 a b # args)"

definition TYPE_SIZE :: "('t \<Rightarrow> size_t) \<Rightarrow> 't list \<Rightarrow> size_t option" where
  "TYPE_SIZE sizeof_type Types = max_args (map sizeof_type Types)"

section \<open>Lookup by type and by index\<close>

lemma does_contain_type_iff [simp]: "does_contain_type C Ts \<longleftrightarrow> C \<in> set Ts"
  by (induction C Ts rule: does_contain_type.induct) auto

lemma get_index_of_type_in:
  "C \<in> set Ts \<Longrightarrow> get_index_of_type N C Ts = Some (N + of_nat (first_index C Ts))"
  by (induction N C Ts rule: get_index_of_type.induct) (auto simp: algebra_simps)

lemma get_index_of_type_notin: "C \<notin> set Ts \<Longrightarrow> get_index_of_type N C Ts = None"
  by (induction N C Ts rule: get_index_of_type.induct) auto

lemma get_type_at_index_eq:
  "get_type_at_index N k Ts =
     (if unat (k - N) < length Ts then Some (Ts ! unat (k - N)) else None)"
proof (induction N k Ts rule: get_type_at_index.induct)
  case (1 N k)
  then show ?case by simp
next
  case (2 N k T Ts)
  show ?case
  proof (cases "N = k")
    case True
    then show ?thesis by simp
  next
    case False
    then have "k - N \<noteq> 0" by simp
    then have "unat (k - (N + 1)) = unat (k - N) - 1" and "0 < unat (k - N)"
      using unat_minus_one [of "k - N"] by (simp_all add: diff_diff_eq unat_gt_0)
    with False 2 show ?thesis by (auto simp: nth_Cons split: nat.splits)
  qed
qed

lemma get_type_at_index_nth:
  "i < length Ts \<Longrightarrow> length Ts < 2 ^ 64 \<Longrightarrow> get_type_at_index 0 (of_nat i) Ts = Some (Ts ! i)"
  by (simp add: get_type_at_index_eq unat_of_nat_size_t)

text \<open>Looking a type up and reading the type at that index is the identity.\<close>

lemma type_index_roundtrip:
  assumes "length Ts < 2 ^ 64" and "get_index_of_type 0 C Ts = Some I"
  shows "get_type_at_index 0 I Ts = Some C"
proof -
  from assms(2) have C: "C \<in> set Ts"
    by (cases "C \<in> set Ts") (simp_all add: get_index_of_type_notin)
  with assms(2) have I: "I = of_nat (first_index C Ts)"
    by (simp add: get_index_of_type_in)
  have "first_index C Ts < length Ts" using C by (rule first_index_less)
  with assms(1) show ?thesis
    by (simp add: I get_type_at_index_nth nth_first_index [OF C])
qed

lemma are_move_constructible_iff: "are_move_constructible mc Ts \<longleftrightarrow> (\<forall>C \<in> set Ts. mc C)"
  by (induction mc Ts rule: are_move_constructible.induct) auto

section \<open>Overload selection of the converting constructor\<close>

lemma get_direct_type_index_in:
  "T \<in> set Ts \<Longrightarrow> get_direct_type_index T Ts = of_nat (length Ts - 1 - first_index T Ts)"
  by (induction T Ts rule: get_direct_type_index.induct) auto

lemma get_direct_type_index_notin: "T \<notin> set Ts \<Longrightarrow> get_direct_type_index T Ts = invalid_index"
  by (induction T Ts rule: get_direct_type_index.induct) auto

lemma of_nat_neq_invalid: "n < 2 ^ 64 - 1 \<Longrightarrow> of_nat n \<noteq> invalid_index"
  by (simp add: invalid_index_def of_nat_size_t_neq_max)

lemma T_present_iff:
  assumes "length Ts < 2 ^ 64"
  shows "T_present T Ts \<longleftrightarrow> T \<in> set Ts"
proof (cases "T \<in> set Ts")
  case True
  then have "length Ts - 1 - first_index T Ts < 2 ^ 64 - 1"
    using assms by (cases Ts) auto
  then have "get_direct_type_index T Ts \<noteq> invalid_index"
    by (simp only: get_direct_type_index_in [OF True] of_nat_neq_invalid not_False_eq_True)
  with True show ?thesis by (simp add: T_present_def T_direct_def)
qed (simp add: T_present_def T_direct_def get_direct_type_index_notin)

text \<open>The reversed index \<open>n - 1 - i\<close> is turned back into \<open>i\<close>.\<close>

lemma reversed_index:
  assumes "i < length Ts"
  shows "(of_nat (length Ts) - of_nat (length Ts - 1 - i) - 1 :: size_t) = of_nat i"
    and "(of_nat (length Ts) - of_nat (length Ts - 1 - i) :: size_t) = of_nat (Suc i)"
proof -
  have "(of_nat (length Ts - 1 - i) :: size_t) = of_nat (length Ts) - of_nat (Suc i)"
    using assms by (simp add: of_nat_diff flip: of_nat_Suc)
  then show "(of_nat (length Ts) - of_nat (length Ts - 1 - i) - 1 :: size_t) = of_nat i"
    and "(of_nat (length Ts) - of_nat (length Ts - 1 - i) :: size_t) = of_nat (Suc i)"
    by (simp_all add: algebra_simps)
qed

lemma selected_alternative:
  assumes len: "length Ts < 2 ^ 64" and i: "i < length Ts"
    and idx: "T_index conv T Ts = of_nat (length Ts - 1 - i)"
  shows "T_valid conv T Ts" "T_varIndex conv T Ts = of_nat i"
    "T_varType conv T Ts = Some (Ts ! i)"
proof -
  have "length Ts - 1 - i < 2 ^ 64 - 1" using len i by linarith
  then have "T_index conv T Ts \<noteq> invalid_index"
    unfolding idx by (rule of_nat_neq_invalid)
  then show valid: "T_valid conv T Ts" by (simp add: T_valid_def)
  have final: "T_final conv T Ts = of_nat (Suc i)"
    using valid reversed_index(2) [OF i] by (simp add: T_final_def idx)
  then show "T_varIndex conv T Ts = of_nat i" by (simp add: T_varIndex_def)
  have "unat (of_nat (Suc i) :: size_t) = Suc i"
    by (rule unat_of_nat_size_t) (use len i in linarith)
  with final i show "T_varType conv T Ts = Some (Ts ! i)"
    by (simp only: T_varType_def nth_Cons_Suc nth_map)
qed

lemma direct_selection:
  assumes len: "length Ts < 2 ^ 64" and T: "T \<in> set Ts"
  shows "T_valid conv T Ts" "T_varIndex conv T Ts = of_nat (first_index T Ts)"
    "T_varType conv T Ts = Some T"
proof -
  have i: "first_index T Ts < length Ts" using T by (rule first_index_less)
  have idx: "T_index conv T Ts = of_nat (length Ts - 1 - first_index T Ts)"
    using T by (simp add: T_index_def T_present_iff [OF len] T_direct_def get_direct_type_index_in)
  note sel = selected_alternative [OF len i idx]
  show "T_valid conv T Ts" by (rule sel(1))
  show "T_varIndex conv T Ts = of_nat (first_index T Ts)" by (rule sel(2))
  show "T_varType conv T Ts = Some T" using sel(3) by (simp only: nth_first_index [OF T])
qed

lemma no_selection:
  assumes "\<not> T_valid conv T Ts"
  shows "T_varIndex conv T Ts = invalid_index" "T_varType conv T Ts = None"
  using assms by (simp_all add: T_varIndex_def T_final_def T_varType_def invalid_index_def)

section \<open>Unique convertibility\<close>

text \<open>The convertible alternative is selected when there is exactly one.\<close>

definition unique_conv :: "('t \<Rightarrow> 't \<Rightarrow> bool) \<Rightarrow> 't \<Rightarrow> 't list \<Rightarrow> nat \<Rightarrow> bool" where
  "unique_conv conv T Ts i \<longleftrightarrow>
     i < length Ts \<and> (\<forall>j < length Ts. conv T (Ts ! j) \<longleftrightarrow> j = i)"

lemma unique_conv_Nil [simp]: "\<not> unique_conv conv T [] i"
  by (simp add: unique_conv_def)

lemma unique_conv_Cons:
  "unique_conv conv T (N # Ts) i \<longleftrightarrow>
     (if conv T N then i = 0 \<and> (\<forall>U \<in> set Ts. \<not> conv T U)
      else (\<exists>k. i = Suc k \<and> unique_conv conv T Ts k))"
  by (cases i) (auto simp: unique_conv_def all_set_conv_all_nth nth_Cons less_Suc_eq_0_disj
      split: nat.splits)

lemma convertible_index_unique:
  "unique_conv conv T Ts i \<Longrightarrow> get_convertible_type_index conv T Ts = of_nat (length Ts - 1 - i)"
  by (induction conv T Ts arbitrary: i rule: get_convertible_type_index.induct)
     (auto simp: unique_conv_Cons disjunction_value split: if_splits)

lemma convertible_index_none:
  "\<nexists>i. unique_conv conv T Ts i \<Longrightarrow> get_convertible_type_index conv T Ts = invalid_index"
proof (induction conv T Ts rule: get_convertible_type_index.induct)
  case (2 conv T N Types)
  show ?case
  proof (cases "conv T N")
    case True
    with "2.prems" show ?thesis by (auto simp: unique_conv_Cons disjunction_value)
  next
    case False
    with "2.prems" have "\<nexists>i. unique_conv conv T Types i" by (auto simp: unique_conv_Cons)
    with False "2.IH" show ?thesis by simp
  qed
qed simp

section \<open>The storage size\<close>

lemma max2_ge1: "a \<le> max2 a b"
  by (auto simp: max2_def)

lemma max2_ge2: "b \<le> max2 a b"
  by (auto simp: max2_def)

lemma max_args_ge: "max_args xs = Some m \<Longrightarrow> x \<in> set xs \<Longrightarrow> x \<le> m"
proof (induction xs arbitrary: x rule: max_args.induct)
  case (4 a b c args)
  then have rec: "max_args (max2 a b # c # args) = Some m" by simp
  from "4.prems"(2) consider "x = a" | "x = b" | "x \<in> set (c # args)" by auto
  then show ?case
    using "4.IH" [OF rec, of x] "4.IH" [OF rec, of "max2 a b"] max2_ge1 [of a b] max2_ge2 [of b a]
    by cases (auto intro: order_trans)
qed (auto simp: max1_def max2_def)

lemma max_args_in: "max_args xs = Some m \<Longrightarrow> m \<in> set xs"
proof (induction xs rule: max_args.induct)
  case (4 a b c args)
  then show ?case by (auto simp: max2_def split: if_splits)
qed (auto simp: max1_def max2_def)

lemma max_args_None [simp]: "max_args xs = None \<longleftrightarrow> xs = []"
  by (induction xs rule: max_args.induct) auto

end
