(* ===== verification/Variant_Storage.thy ===== *)
theory Variant_Storage
  imports Type_Index
begin

text \<open>
  The storage of a \<open>Variant\<close> and the dispatch \<open>internal::call_at_index\<close> of
  \<open>ara/core/variant.h\<close>: the element operation of the alternative whose index equals
  the run-time index, found by recursion over the type list.
\<close>

section \<open>Raw storage\<close>

text \<open>
  The bytes hold no object or one live object. \<open>undestroyed\<close> is a ghost field: the
  objects whose bytes were reused by a placement \<open>new\<close> although their destructor had
  not run. Using the bytes as a type other than the object's own is undefined.
\<close>

datatype 'v bytes = Raw | Live 'v

record 'v storage =
  bytes :: "'v bytes"
  undestroyed :: "'v list"

fun live_objects :: "'v bytes \<Rightarrow> 'v list" where
  "live_objects Raw = []"
| "live_objects (Live v) = [v]"

definition place_new :: "'v \<Rightarrow> 'v storage \<Rightarrow> 'v storage" where
  "place_new v s = \<lparr>bytes = Live v, undestroyed = live_objects (bytes s) @ undestroyed s\<rparr>"

definition deref :: "('x, 't, 'v) elem_ops \<Rightarrow> 't \<Rightarrow> 'v storage \<Rightarrow> ('x, 'v) outcome" where
  "deref ops T s =
     (case bytes s of
        Raw \<Rightarrow> Undefined
      | Live v \<Rightarrow> if type_of ops v = T then Ret v else Undefined)"

definition run_destructor :: "('x, 't, 'v) elem_ops \<Rightarrow> 't \<Rightarrow> 'v storage \<Rightarrow> ('x, 'v storage) outcome" where
  "run_destructor ops T s = obind (deref ops T s) (\<lambda>_. Ret (s\<lparr>bytes := Raw\<rparr>))"

text \<open>The element operations on storage, as the pointer casts of the code perform them.\<close>

definition elem_move ::
  "('x, 't, 'v) elem_ops \<Rightarrow> 't \<Rightarrow> 'v storage \<Rightarrow> 'v storage \<Rightarrow> ('x, 'v storage \<times> 'v storage) outcome" where
  "elem_move ops T source destination =
     obind (deref ops T source) (\<lambda>v. obind (deref ops T destination) (\<lambda>d.
       obind (move_asgn ops d v) (\<lambda>(n, v').
         Ret (source\<lparr>bytes := Live v'\<rparr>, destination\<lparr>bytes := Live n\<rparr>))))"

definition elem_moveConstructor ::
  "('x, 't, 'v) elem_ops \<Rightarrow> 't \<Rightarrow> 'v storage \<Rightarrow> 'v storage \<Rightarrow> ('x, 'v storage \<times> 'v storage) outcome" where
  "elem_moveConstructor ops T source destination =
     obind (deref ops T source) (\<lambda>v. obind (move_ctor ops v) (\<lambda>(n, v').
       Ret (source\<lparr>bytes := Live v'\<rparr>, place_new n destination)))"

definition elem_copy ::
  "('x, 't, 'v) elem_ops \<Rightarrow> 't \<Rightarrow> 'v storage \<Rightarrow> 'v storage \<Rightarrow> ('x, 'v storage) outcome" where
  "elem_copy ops T source destination =
     obind (deref ops T source) (\<lambda>v. obind (deref ops T destination) (\<lambda>d.
       obind (copy_asgn ops d v) (\<lambda>n. Ret (destination\<lparr>bytes := Live n\<rparr>))))"

definition elem_copyConstructor ::
  "('x, 't, 'v) elem_ops \<Rightarrow> 't \<Rightarrow> 'v storage \<Rightarrow> 'v storage \<Rightarrow> ('x, 'v storage) outcome" where
  "elem_copyConstructor ops T source destination =
     obind (deref ops T source) (\<lambda>v. obind (copy_ctor ops v) (\<lambda>n. Ret (place_new n destination)))"

section \<open>call_at_index\<close>

text \<open>
  The \<open>_base\<close> definitions are the specialisation for one type, whose \<open>else\<close> branch is
  the failed \<open>assert\<close>. The template has no instance for an empty type list.
\<close>

definition destructor_base where
  "destructor_base ops N T index ptr =
     (if N = index then run_destructor ops T ptr
      else Terminates ''Could not call destructor for variant element'')"

fun call_destructor ::
  "('x, 't, 'v) elem_ops \<Rightarrow> size_t \<Rightarrow> 't list \<Rightarrow> size_t \<Rightarrow> 'v storage \<Rightarrow> ('x, 'v storage) outcome" where
  "call_destructor ops N [] index ptr = Undefined"
| "call_destructor ops N [T] index ptr = destructor_base ops N T index ptr"
| "call_destructor ops N (T # Targs) index ptr =
     (if N = index then run_destructor ops T ptr
      else call_destructor ops (N + 1) Targs index ptr)"

definition move_base where
  "move_base ops N T index source destination =
     (if N = index then elem_move ops T source destination
      else Terminates ''Could not call move assignment for variant element'')"

fun call_move ::
  "('x, 't, 'v) elem_ops \<Rightarrow> size_t \<Rightarrow> 't list \<Rightarrow> size_t \<Rightarrow> 'v storage \<Rightarrow> 'v storage \<Rightarrow>
   ('x, 'v storage \<times> 'v storage) outcome" where
  "call_move ops N [] index source destination = Undefined"
| "call_move ops N [T] index source destination = move_base ops N T index source destination"
| "call_move ops N (T # Targs) index source destination =
     (if N = index then elem_move ops T source destination
      else call_move ops (N + 1) Targs index source destination)"

definition moveConstructor_base where
  "moveConstructor_base ops N T index source destination =
     (if N = index then elem_moveConstructor ops T source destination
      else Terminates ''Could not call move constructor for variant element'')"

fun call_moveConstructor ::
  "('x, 't, 'v) elem_ops \<Rightarrow> size_t \<Rightarrow> 't list \<Rightarrow> size_t \<Rightarrow> 'v storage \<Rightarrow> 'v storage \<Rightarrow>
   ('x, 'v storage \<times> 'v storage) outcome" where
  "call_moveConstructor ops N [] index source destination = Undefined"
| "call_moveConstructor ops N [T] index source destination =
     moveConstructor_base ops N T index source destination"
| "call_moveConstructor ops N (T # Targs) index source destination =
     (if N = index then elem_moveConstructor ops T source destination
      else call_moveConstructor ops (N + 1) Targs index source destination)"

definition copy_base where
  "copy_base ops N T index source destination =
     (if N = index then elem_copy ops T source destination
      else Terminates ''Could not call copy assignment for variant element'')"

fun call_copy ::
  "('x, 't, 'v) elem_ops \<Rightarrow> size_t \<Rightarrow> 't list \<Rightarrow> size_t \<Rightarrow> 'v storage \<Rightarrow> 'v storage \<Rightarrow>
   ('x, 'v storage) outcome" where
  "call_copy ops N [] index source destination = Undefined"
| "call_copy ops N [T] index source destination = copy_base ops N T index source destination"
| "call_copy ops N (T # Targs) index source destination =
     (if N = index then elem_copy ops T source destination
      else call_copy ops (N + 1) Targs index source destination)"

definition copyConstructor_base where
  "copyConstructor_base ops N T index source destination =
     (if N = index then elem_copyConstructor ops T source destination
      else Terminates ''Could not call copy constructor for variant element'')"

fun call_copyConstructor ::
  "('x, 't, 'v) elem_ops \<Rightarrow> size_t \<Rightarrow> 't list \<Rightarrow> size_t \<Rightarrow> 'v storage \<Rightarrow> 'v storage \<Rightarrow>
   ('x, 'v storage) outcome" where
  "call_copyConstructor ops N [] index source destination = Undefined"
| "call_copyConstructor ops N [T] index source destination =
     copyConstructor_base ops N T index source destination"
| "call_copyConstructor ops N (T # Targs) index source destination =
     (if N = index then elem_copyConstructor ops T source destination
      else call_copyConstructor ops (N + 1) Targs index source destination)"

section \<open>The dispatch finds the alternative at the index\<close>

text \<open>
  All five functions are the same recursion. \<open>dispatch\<close> states what it computes: the
  action on the type at the index, the failed assertion beyond the last one.
\<close>

definition dispatch ::
  "string \<Rightarrow> ('t \<Rightarrow> ('x, 'a) outcome) \<Rightarrow> size_t \<Rightarrow> 't list \<Rightarrow> size_t \<Rightarrow> ('x, 'a) outcome" where
  "dispatch msg act N Ts index =
     (case get_type_at_index N index Ts of Some T \<Rightarrow> act T | None \<Rightarrow> Terminates msg)"

lemma call_destructor_dispatch:
  "Ts \<noteq> [] \<Longrightarrow> call_destructor ops N Ts index ptr =
     dispatch ''Could not call destructor for variant element''
       (\<lambda>T. run_destructor ops T ptr) N Ts index"
  by (induction ops N Ts index ptr rule: call_destructor.induct)
     (auto simp: dispatch_def destructor_base_def)

lemma call_move_dispatch:
  "Ts \<noteq> [] \<Longrightarrow> call_move ops N Ts index source destination =
     dispatch ''Could not call move assignment for variant element''
       (\<lambda>T. elem_move ops T source destination) N Ts index"
  by (induction ops N Ts index source destination rule: call_move.induct)
     (auto simp: dispatch_def move_base_def)

lemma call_moveConstructor_dispatch:
  "Ts \<noteq> [] \<Longrightarrow> call_moveConstructor ops N Ts index source destination =
     dispatch ''Could not call move constructor for variant element''
       (\<lambda>T. elem_moveConstructor ops T source destination) N Ts index"
  by (induction ops N Ts index source destination rule: call_moveConstructor.induct)
     (auto simp: dispatch_def moveConstructor_base_def)

lemma call_copy_dispatch:
  "Ts \<noteq> [] \<Longrightarrow> call_copy ops N Ts index source destination =
     dispatch ''Could not call copy assignment for variant element''
       (\<lambda>T. elem_copy ops T source destination) N Ts index"
  by (induction ops N Ts index source destination rule: call_copy.induct)
     (auto simp: dispatch_def copy_base_def)

lemma call_copyConstructor_dispatch:
  "Ts \<noteq> [] \<Longrightarrow> call_copyConstructor ops N Ts index source destination =
     dispatch ''Could not call copy constructor for variant element''
       (\<lambda>T. elem_copyConstructor ops T source destination) N Ts index"
  by (induction ops N Ts index source destination rule: call_copyConstructor.induct)
     (auto simp: dispatch_def copyConstructor_base_def)

lemmas call_dispatch =
  call_destructor_dispatch call_move_dispatch call_moveConstructor_dispatch
  call_copy_dispatch call_copyConstructor_dispatch

lemma dispatch_in:
  "i < length Ts \<Longrightarrow> length Ts < 2 ^ 64 \<Longrightarrow> dispatch msg act 0 Ts (of_nat i) = act (Ts ! i)"
  by (simp add: dispatch_def get_type_at_index_nth)

lemma dispatch_out:
  "length Ts \<le> unat index \<Longrightarrow> dispatch msg act 0 Ts index = Terminates msg"
  by (simp add: dispatch_def get_type_at_index_eq)

end
