(* ===== verification/Variant.thy ===== *)
theory Variant
  imports Variant_Storage
begin

text \<open>
  The class \<open>Variant<Types...>\<close> of \<open>ara/core/variant.h\<close>: storage and run-time index, one
  definition per constructor, assignment, \<open>emplace\<close>, accessor and \<open>swap\<close>. The type
  list \<open>Ts\<close> and the element operations are arguments. An object passed by
  reference that the code changes is returned next to the result. An operation
  that does not compile for the given types and index is \<open>None\<close>.
\<close>

section \<open>State\<close>

record 'v variant =
  m_storage :: "'v storage"
  m_type_index :: size_t

definition INVALID_VARIANT_INDEX :: size_t where
  "INVALID_VARIANT_INDEX = - 1"

definition Variant_default :: "'v variant" where
  "Variant_default =
     \<lparr>m_storage = \<lparr>bytes = Raw, undestroyed = []\<rparr>, m_type_index = INVALID_VARIANT_INDEX\<rparr>"

text \<open>The objects that are still alive when the storage itself goes away.\<close>

definition leftover :: "'v variant \<Rightarrow> 'v list" where
  "leftover v = live_objects (bytes (m_storage v)) @ undestroyed (m_storage v)"

section \<open>Destruction, copy and move\<close>

definition call_element_destructor ::
  "('x, 't, 'v) elem_ops \<Rightarrow> 't list \<Rightarrow> 'v variant \<Rightarrow> ('x, 'v variant) outcome" where
  "call_element_destructor ops Ts v =
     noexcept
       (if m_type_index v \<noteq> INVALID_VARIANT_INDEX
        then obind (call_destructor ops 0 Ts (m_type_index v) (m_storage v))
               (\<lambda>s. Ret (v\<lparr>m_storage := s\<rparr>))
        else Ret v)"

definition Variant_dtor ::
  "('x, 't, 'v) elem_ops \<Rightarrow> 't list \<Rightarrow> 'v variant \<Rightarrow> ('x, 'v variant) outcome" where
  "Variant_dtor ops Ts v = noexcept (call_element_destructor ops Ts v)"

definition Variant_copy_ctor ::
  "('x, 't, 'v) elem_ops \<Rightarrow> 't list \<Rightarrow> 'v variant \<Rightarrow> ('x, 'v variant) outcome" where
  "Variant_copy_ctor ops Ts rhs =
     noexcept
       (let this = Variant_default\<lparr>m_type_index := m_type_index rhs\<rparr>
        in if m_type_index this \<noteq> INVALID_VARIANT_INDEX
           then obind (call_copyConstructor ops 0 Ts (m_type_index this)
                         (m_storage rhs) (m_storage this))
                  (\<lambda>s. Ret (this\<lparr>m_storage := s\<rparr>))
           else Ret this)"

text \<open>\<open>self\<close> is \<open>this == &f_rhs\<close>; then both arguments are the same object.\<close>

definition Variant_copy_assign ::
  "('x, 't, 'v) elem_ops \<Rightarrow> 't list \<Rightarrow> bool \<Rightarrow> 'v variant \<Rightarrow> 'v variant \<Rightarrow> ('x, 'v variant) outcome" where
  "Variant_copy_assign ops Ts self this rhs =
     noexcept
       (if \<not> self
        then if m_type_index this \<noteq> m_type_index rhs
          then obind (call_element_destructor ops Ts this) (\<lambda>this1.
            let this2 = this1\<lparr>m_type_index := m_type_index rhs\<rparr>
            in if m_type_index this2 \<noteq> INVALID_VARIANT_INDEX
               then obind (call_copyConstructor ops 0 Ts (m_type_index this2)
                             (m_storage rhs) (m_storage this2))
                      (\<lambda>s. Ret (this2\<lparr>m_storage := s\<rparr>))
               else Ret this2)
          else if m_type_index this \<noteq> INVALID_VARIANT_INDEX
            then obind (call_copy ops 0 Ts (m_type_index this) (m_storage rhs) (m_storage this))
                   (\<lambda>s. Ret (this\<lparr>m_storage := s\<rparr>))
            else Ret this
        else Ret this)"

definition Variant_move_ctor ::
  "('x, 't, 'v) elem_ops \<Rightarrow> 't list \<Rightarrow> 'v variant \<Rightarrow> ('x, 'v variant \<times> 'v variant) outcome" where
  "Variant_move_ctor ops Ts rhs =
     noexcept
       (let this = Variant_default\<lparr>m_type_index := m_type_index rhs\<rparr>
        in obind
             (if m_type_index this \<noteq> INVALID_VARIANT_INDEX
              then obind (call_moveConstructor ops 0 Ts (m_type_index this)
                            (m_storage rhs) (m_storage this))
                     (\<lambda>(src, dst). Ret (this\<lparr>m_storage := dst\<rparr>, rhs\<lparr>m_storage := src\<rparr>))
              else Ret (this, rhs))
             (\<lambda>(this1, rhs1). Ret (this1, rhs1\<lparr>m_type_index := INVALID_VARIANT_INDEX\<rparr>)))"

definition Variant_move_assign ::
  "('x, 't, 'v) elem_ops \<Rightarrow> 't list \<Rightarrow> bool \<Rightarrow> 'v variant \<Rightarrow> 'v variant \<Rightarrow>
   ('x, 'v variant \<times> 'v variant) outcome" where
  "Variant_move_assign ops Ts self this rhs =
     noexcept
       (if \<not> self
        then obind
          (if m_type_index this \<noteq> m_type_index rhs
           then obind (call_element_destructor ops Ts this) (\<lambda>this1.
             let this2 = this1\<lparr>m_type_index := m_type_index rhs\<rparr>
             in obind
                  (if m_type_index this2 \<noteq> INVALID_VARIANT_INDEX
                   then obind (call_moveConstructor ops 0 Ts (m_type_index this2)
                                 (m_storage rhs) (m_storage this2))
                          (\<lambda>(src, dst). Ret (this2\<lparr>m_storage := dst\<rparr>, rhs\<lparr>m_storage := src\<rparr>))
                   else Ret (this2, rhs))
                  (\<lambda>(this3, rhs1). Ret (this3, rhs1\<lparr>m_type_index := INVALID_VARIANT_INDEX\<rparr>)))
           else if m_type_index this \<noteq> INVALID_VARIANT_INDEX
             then obind (call_move ops 0 Ts (m_type_index this) (m_storage rhs) (m_storage this))
                    (\<lambda>(src, dst). Ret (this\<lparr>m_storage := dst\<rparr>, rhs\<lparr>m_storage := src\<rparr>))
             else Ret (this, rhs))
          (\<lambda>(this', rhs'). Ret (this', rhs'\<lparr>m_type_index := INVALID_VARIANT_INDEX\<rparr>))
        else Ret (this, rhs))"

section \<open>Construction from a value\<close>

text \<open>
  \<open>conv\<close> is \<open>std::is_convertible\<close> on the types; \<open>None\<close> when the constructor does not
  take part in overload resolution (\<open>T_valid\<close> fails). The second component of the
  result is what the argument object holds afterwards.
\<close>

definition Variant_converting_ctor ::
  "('x, 't, 'v) elem_ops \<Rightarrow> ('t \<Rightarrow> 't \<Rightarrow> bool) \<Rightarrow> 't list \<Rightarrow> value_category \<Rightarrow> 'v \<Rightarrow>
   ('x, 'v variant \<times> 'v) outcome option" where
  "Variant_converting_ctor ops conv Ts cat rhs =
     (let Tv = type_of ops rhs
      in case T_varType conv Tv Ts of
           None \<Rightarrow> None
         | Some T \<Rightarrow> Some
             (let this = Variant_default\<lparr>m_type_index := T_varIndex conv Tv Ts\<rparr>
              in obind (construct_from ops cat T rhs)
                   (\<lambda>(n, rhs'). Ret (this\<lparr>m_storage := place_new n (m_storage this)\<rparr>, rhs'))))"

definition Variant_converting_assign ::
  "('x, 't, 'v) elem_ops \<Rightarrow> ('t \<Rightarrow> 't \<Rightarrow> bool) \<Rightarrow> 't list \<Rightarrow> value_category \<Rightarrow> 'v variant \<Rightarrow> 'v \<Rightarrow>
   ('x, 'v variant \<times> 'v) outcome option" where
  "Variant_converting_assign ops conv Ts cat this rhs =
     map_option
       (\<lambda>ctor. noexcept
         (obind ctor (\<lambda>(temp, rhs').
           obind (if m_type_index this \<noteq> INVALID_VARIANT_INDEX
                  then call_element_destructor ops Ts this else Ret this) (\<lambda>this1.
           obind (call_moveConstructor ops 0 Ts (m_type_index temp) (m_storage temp) (m_storage this1))
             (\<lambda>(src, dst).
               let temp1 = temp\<lparr>m_storage := src\<rparr>;
                   this2 = this1\<lparr>m_storage := dst, m_type_index := m_type_index temp1\<rparr>
               in obind (Variant_dtor ops Ts temp1) (\<lambda>temp2.
                    Ret (this2\<lparr>m_storage := (m_storage this2)
                           \<lparr>undestroyed := leftover temp2 @ undestroyed (m_storage this2)\<rparr>\<rparr>,
                         rhs')))))))
       (Variant_converting_ctor ops conv Ts cat rhs)"

section \<open>emplace and in-place construction\<close>

text \<open>\<open>mk T\<close> is the constructor of \<open>T\<close> applied to the forwarded arguments.\<close>

definition Variant_emplace_at_index ::
  "('x, 't, 'v) elem_ops \<Rightarrow> 't list \<Rightarrow> size_t \<Rightarrow> ('t \<Rightarrow> ('x, 'v) outcome) \<Rightarrow> 'v variant \<Rightarrow>
   ('x, 'v variant) outcome option" where
  "Variant_emplace_at_index ops Ts TypeIndex mk this =
     (if TypeIndex \<le> of_nat (length Ts)
      then map_option (\<lambda>T. noexcept
             (obind (call_element_destructor ops Ts this) (\<lambda>this1.
              obind (mk T) (\<lambda>n.
                Ret (this1\<lparr>m_storage := place_new n (m_storage this1), m_type_index := TypeIndex\<rparr>)))))
             (get_type_at_index 0 TypeIndex Ts)
      else None)"

definition Variant_emplace_index ::
  "('x, 't, 'v) elem_ops \<Rightarrow> 't list \<Rightarrow> size_t \<Rightarrow> ('t \<Rightarrow> ('x, 'v) outcome) \<Rightarrow> 'v variant \<Rightarrow>
   ('x, 'v variant) outcome option" where
  "Variant_emplace_index ops Ts TypeIndex mk this =
     map_option noexcept (Variant_emplace_at_index ops Ts TypeIndex mk this)"

definition Variant_emplace_type ::
  "('x, 't, 'v) elem_ops \<Rightarrow> 't list \<Rightarrow> 't \<Rightarrow> ('t \<Rightarrow> ('x, 'v) outcome) \<Rightarrow> 'v variant \<Rightarrow>
   ('x, 'v variant) outcome option" where
  "Variant_emplace_type ops Ts T mk this =
     (if does_contain_type T Ts
      then map_option (\<lambda>idx. noexcept
             (obind (if m_type_index this \<noteq> INVALID_VARIANT_INDEX
                     then call_element_destructor ops Ts this else Ret this) (\<lambda>this1.
              obind (mk T) (\<lambda>n.
                Ret (this1\<lparr>m_storage := place_new n (m_storage this1), m_type_index := idx\<rparr>)))))
             (get_index_of_type 0 T Ts)
      else None)"

text \<open>
  The overloads with an \<open>initializer_list\<close> are not \<open>noexcept\<close>: an exception of the
  constructor leaves the call, so the state of the variant is returned with it.
\<close>

definition destroy_then_construct ::
  "('x, 't, 'v) elem_ops \<Rightarrow> 't list \<Rightarrow> size_t \<Rightarrow> ('x, 'v) outcome \<Rightarrow> 'v variant \<Rightarrow>
   ('x, unit) outcome \<times> 'v variant" where
  "destroy_then_construct ops Ts idx ctor this =
     (case call_element_destructor ops Ts this of
        Ret this1 \<Rightarrow>
          (case ctor of
             Ret n \<Rightarrow> (Ret (),
               this1\<lparr>m_storage := place_new n (m_storage this1), m_type_index := idx\<rparr>)
           | other \<Rightarrow> (obind other (\<lambda>_. Ret ()), this1))
      | other \<Rightarrow> (obind other (\<lambda>_. Ret ()), this))"

definition Variant_emplace_index_il ::
  "('x, 't, 'v) elem_ops \<Rightarrow> 't list \<Rightarrow> size_t \<Rightarrow> ('t \<Rightarrow> ('x, 'v) outcome) \<Rightarrow> 'v variant \<Rightarrow>
   (('x, unit) outcome \<times> 'v variant) option" where
  "Variant_emplace_index_il ops Ts ClassIndex mk this =
     (if ClassIndex \<le> of_nat (length Ts)
      then map_option (\<lambda>T. destroy_then_construct ops Ts ClassIndex (mk T) this)
             (get_type_at_index 0 ClassIndex Ts)
      else None)"

definition Variant_emplace_type_il ::
  "('x, 't, 'v) elem_ops \<Rightarrow> 't list \<Rightarrow> 't \<Rightarrow> ('t \<Rightarrow> ('x, 'v) outcome) \<Rightarrow> 'v variant \<Rightarrow>
   (('x, unit) outcome \<times> 'v variant) option" where
  "Variant_emplace_type_il ops Ts T mk this =
     (if does_contain_type T Ts
      then map_option (\<lambda>idx. destroy_then_construct ops Ts idx (mk T) this)
             (get_index_of_type 0 T Ts)
      else None)"

definition Variant_in_place_index ::
  "('x, 't, 'v) elem_ops \<Rightarrow> 't list \<Rightarrow> size_t \<Rightarrow> ('t \<Rightarrow> ('x, 'v) outcome) \<Rightarrow>
   ('x, 'v variant) outcome option" where
  "Variant_in_place_index ops Ts N mk =
     map_option noexcept (Variant_emplace_at_index ops Ts N mk Variant_default)"

definition Variant_in_place_index_il ::
  "('x, 't, 'v) elem_ops \<Rightarrow> 't list \<Rightarrow> size_t \<Rightarrow> ('t \<Rightarrow> ('x, 'v) outcome) \<Rightarrow>
   (('x, unit) outcome \<times> 'v variant) option" where
  "Variant_in_place_index_il ops Ts ClassIndex mk =
     Variant_emplace_index_il ops Ts ClassIndex mk Variant_default"

definition Variant_in_place_type ::
  "('x, 't, 'v) elem_ops \<Rightarrow> 't list \<Rightarrow> 't \<Rightarrow> ('t \<Rightarrow> ('x, 'v) outcome) \<Rightarrow>
   ('x, 'v variant) outcome option" where
  "Variant_in_place_type ops Ts T mk =
     map_option noexcept (Variant_emplace_type ops Ts T mk Variant_default)"

definition Variant_in_place_type_il ::
  "('x, 't, 'v) elem_ops \<Rightarrow> 't list \<Rightarrow> 't \<Rightarrow> ('t \<Rightarrow> ('x, 'v) outcome) \<Rightarrow>
   (('x, unit) outcome \<times> 'v variant) option" where
  "Variant_in_place_type_il ops Ts T mk = Variant_emplace_type_il ops Ts T mk Variant_default"

section \<open>Access\<close>

text \<open>
  A pointer into a variant is the storage it points to, \<open>None\<close> the null pointer.
  \<open>has_bad_variant_element_access\<close> fails to compile for a type outside the list.
\<close>

definition has_bad_variant_element_access :: "'t list \<Rightarrow> 't \<Rightarrow> 'v variant \<Rightarrow> bool option" where
  "has_bad_variant_element_access Ts T v =
     (if does_contain_type T Ts
      then map_option (\<lambda>idx. m_type_index v \<noteq> idx) (get_index_of_type 0 T Ts)
      else None)"

definition Variant_get_at_index ::
  "'t list \<Rightarrow> size_t \<Rightarrow> 'v variant \<Rightarrow> 'v storage option option" where
  "Variant_get_at_index Ts TypeIndex v =
     map_option (\<lambda>T. if TypeIndex \<noteq> m_type_index v then None else Some (m_storage v))
       (get_type_at_index 0 TypeIndex Ts)"

definition Variant_get_at_index_const ::
  "'t list \<Rightarrow> size_t \<Rightarrow> 'v variant \<Rightarrow> 'v storage option option" where
  "Variant_get_at_index_const Ts TypeIndex v = Variant_get_at_index Ts TypeIndex v"

definition Variant_get_const :: "'t list \<Rightarrow> 't \<Rightarrow> 'v variant \<Rightarrow> 'v storage option option" where
  "Variant_get_const Ts T v =
     map_option (\<lambda>bad. if bad then None else Some (m_storage v))
       (has_bad_variant_element_access Ts T v)"

definition Variant_get :: "'t list \<Rightarrow> 't \<Rightarrow> 'v variant \<Rightarrow> 'v storage option option" where
  "Variant_get Ts T v = Variant_get_const Ts T v"

definition Variant_get_if_const ::
  "'t list \<Rightarrow> 't \<Rightarrow> 'v storage option \<Rightarrow> 'v variant \<Rightarrow> 'v storage option option" where
  "Variant_get_if_const Ts T default_value v =
     Option.bind (has_bad_variant_element_access Ts T v)
       (\<lambda>bad. if bad then Some default_value else Variant_get_const Ts T v)"

definition Variant_get_if ::
  "'t list \<Rightarrow> 't \<Rightarrow> 'v storage option \<Rightarrow> 'v variant \<Rightarrow> 'v storage option option" where
  "Variant_get_if Ts T default_value v = Variant_get_if_const Ts T default_value v"

definition Variant_valueless_by_exception :: "'v variant \<Rightarrow> bool" where
  "Variant_valueless_by_exception v = (m_type_index v = INVALID_VARIANT_INDEX)"

definition Variant_index :: "'v variant \<Rightarrow> size_t" where
  "Variant_index v = m_type_index v"

definition holds_alternative :: "'t list \<Rightarrow> 't \<Rightarrow> 'v variant \<Rightarrow> bool option" where
  "holds_alternative Ts T v = map_option (\<lambda>ptr. ptr \<noteq> None) (Variant_get Ts T v)"

definition get_if :: "'t list \<Rightarrow> 't \<Rightarrow> 'v variant \<Rightarrow> 'v storage option option" where
  "get_if Ts T v = Variant_get Ts T v"

definition get_if_const :: "'t list \<Rightarrow> 't \<Rightarrow> 'v variant \<Rightarrow> 'v storage option option" where
  "get_if_const Ts T v = Variant_get_const Ts T v"

section \<open>swap\<close>

text \<open>
  \<open>std::swap\<close> moves through a temporary. What the temporary leaves undestroyed is
  recorded with the object it was moved into.
\<close>

definition std_swap_variant ::
  "('x, 't, 'v) elem_ops \<Rightarrow> 't list \<Rightarrow> bool \<Rightarrow> 'v variant \<Rightarrow> 'v variant \<Rightarrow>
   ('x, 'v variant \<times> 'v variant) outcome" where
  "std_swap_variant ops Ts self a b =
     obind (Variant_move_ctor ops Ts a) (\<lambda>(tmp, a1).
     obind (Variant_move_assign ops Ts self a1 (if self then a1 else b)) (\<lambda>(a2, b2).
     obind (Variant_move_assign ops Ts False (if self then a2 else b2) tmp) (\<lambda>(b3, tmp1).
     obind (Variant_dtor ops Ts tmp1) (\<lambda>tmp2.
       let b4 = b3\<lparr>m_storage := (m_storage b3)
                  \<lparr>undestroyed := leftover tmp2 @ undestroyed (m_storage b3)\<rparr>\<rparr>
       in Ret (if self then b4 else a2, b4)))))"

definition Variant_swap ::
  "('x, 't, 'v) elem_ops \<Rightarrow> ('t \<Rightarrow> bool) \<Rightarrow> 't list \<Rightarrow> bool \<Rightarrow> 'v variant \<Rightarrow> 'v variant \<Rightarrow>
   ('x, 'v variant \<times> 'v variant) outcome option" where
  "Variant_swap ops is_mc Ts self this rhs =
     (if are_move_constructible is_mc Ts
      then Some (noexcept
        (if Variant_valueless_by_exception this \<and> Variant_valueless_by_exception rhs
         then Ret (this, rhs)
         else std_swap_variant ops Ts self this rhs))
      else None)"

end
