(* ===== verification/Variant_Correct.thy ===== *)
theory Variant_Correct
  imports Variant
begin

text \<open>
  Correctness of \<open>Variant\<close>. The invariant \<open>Variant_wf\<close> ties the run-time index to the
  type of the object in the storage; \<open>Variant_alt\<close> abstracts a variant to the
  alternative it holds. Inside the locale of lawful element types every operation is
  shown to return, to keep the invariant and to implement the abstract operation.
\<close>

section \<open>Invariant and abstraction\<close>

definition holds :: "('x, 't, 'v) elem_ops \<Rightarrow> 't list \<Rightarrow> 'v variant \<Rightarrow> nat \<Rightarrow> 'v \<Rightarrow> bool" where
  "holds ops Ts v i x \<longleftrightarrow>
     i < length Ts \<and> m_type_index v = of_nat i \<and> bytes (m_storage v) = Live x \<and>
     type_of ops x = Ts ! i"

definition valueless :: "'v variant \<Rightarrow> bool" where
  "valueless v \<longleftrightarrow> m_type_index v = INVALID_VARIANT_INDEX"

definition Variant_wf :: "('x, 't, 'v) elem_ops \<Rightarrow> 't list \<Rightarrow> 'v variant \<Rightarrow> bool" where
  "Variant_wf ops Ts v \<longleftrightarrow> valueless v \<or> (\<exists>i x. holds ops Ts v i x)"

definition Variant_alt :: "'v variant \<Rightarrow> (nat \<times> 'v) option" where
  "Variant_alt v =
     (if m_type_index v = INVALID_VARIANT_INDEX then None
      else case bytes (m_storage v) of
             Raw \<Rightarrow> None
           | Live x \<Rightarrow> Some (unat (m_type_index v), x))"

text \<open>No object is leaked in the storage: a clean variant.\<close>

definition Variant_clean :: "'v variant \<Rightarrow> bool" where
  "Variant_clean v \<longleftrightarrow>
     undestroyed (m_storage v) = [] \<and> (valueless v \<longrightarrow> bytes (m_storage v) = Raw)"

text \<open>\<open>destroyed v\<close>: the variant after \<open>call_element_destructor\<close>.\<close>

definition destroyed :: "'v variant \<Rightarrow> 'v variant" where
  "destroyed v = (if valueless v then v else v\<lparr>m_storage := (m_storage v)\<lparr>bytes := Raw\<rparr>\<rparr>)"

text \<open>
  \<open>set_alt v a\<close>: the variant \<open>v\<close> after it was given the alternative \<open>a\<close>. When \<open>v\<close> is
  valueless but its bytes still hold an object, that object is lost.
\<close>

definition set_alt :: "'v variant \<Rightarrow> (nat \<times> 'v) option \<Rightarrow> 'v variant" where
  "set_alt v a =
     (case a of
        None \<Rightarrow> (destroyed v)\<lparr>m_type_index := INVALID_VARIANT_INDEX\<rparr>
      | Some (i, x) \<Rightarrow>
          \<lparr>m_storage = place_new x (m_storage (destroyed v)), m_type_index = of_nat i\<rparr>)"

lemma set_alt_Some:
  "set_alt v (Some (i, x)) =
     (destroyed v)\<lparr>m_storage := place_new x (m_storage (destroyed v)), m_type_index := of_nat i\<rparr>"
  by (cases "destroyed v") (simp add: set_alt_def)

text \<open>\<open>moved_from f v\<close>: the source of a move, its object still in the bytes.\<close>

definition moved_from :: "('v \<Rightarrow> 'v) \<Rightarrow> 'v variant \<Rightarrow> 'v variant" where
  "moved_from f v =
     (case Variant_alt v of
        None \<Rightarrow> v\<lparr>m_type_index := INVALID_VARIANT_INDEX\<rparr>
      | Some (i, x) \<Rightarrow> \<lparr>m_storage = (m_storage v)\<lparr>bytes := Live (f x)\<rparr>,
                        m_type_index = INVALID_VARIANT_INDEX\<rparr>)"

definition typed_alt :: "('x, 't, 'v) elem_ops \<Rightarrow> 't list \<Rightarrow> (nat \<times> 'v) option \<Rightarrow> bool" where
  "typed_alt ops Ts a =
     (case a of None \<Rightarrow> True | Some (i, x) \<Rightarrow> i < length Ts \<and> type_of ops x = Ts ! i)"

lemma valueless_default [simp]: "valueless Variant_default"
  by (simp add: valueless_def Variant_default_def)

lemma Variant_clean_default [simp]: "Variant_clean Variant_default"
  by (simp add: Variant_clean_def Variant_default_def)

lemma place_new_simps [simp]:
  "bytes (place_new n s) = Live n"
  "undestroyed (place_new n s) = live_objects (bytes s) @ undestroyed s"
  by (simp_all add: place_new_def)

lemma valueless_update [simp]: "valueless (v\<lparr>m_storage := s\<rparr>) = valueless v"
  by (simp add: valueless_def)

lemma Variant_wf_cases [consumes 1, case_names valueless holds]:
  assumes "Variant_wf ops Ts v"
    and "valueless v \<Longrightarrow> P"
    and "\<And>i x. holds ops Ts v i x \<Longrightarrow> P"
  shows P
  using assms by (auto simp: Variant_wf_def)

section \<open>Lawful alternatives\<close>

locale variant_elems = regular_elems ops moved_out
  for ops :: "('x, 't, 'v) elem_ops" and moved_out :: "'v \<Rightarrow> 'v" +
  fixes Ts :: "'t list"
  assumes types_nonempty: "Ts \<noteq> []"
    and types_bound: "length Ts < 2 ^ 64 - 1"
begin

lemma types_bound': "length Ts < 2 ^ 64"
  using types_bound by simp

lemma of_nat_index_valid:
  "i < length Ts \<Longrightarrow> (of_nat i :: size_t) \<noteq> INVALID_VARIANT_INDEX"
  using types_bound of_nat_size_t_neq_max [of i]
  by (simp add: INVALID_VARIANT_INDEX_def)

lemma of_nat_index_eq:
  "i < length Ts \<Longrightarrow> j < length Ts \<Longrightarrow> (of_nat i :: size_t) = of_nat j \<longleftrightarrow> i = j"
  using of_nat_size_t_eq types_bound' by (meson less_trans)

lemma holds_not_valueless: "holds ops Ts v i x \<Longrightarrow> \<not> valueless v"
  by (auto simp: holds_def valueless_def of_nat_index_valid)

lemma holds_alt: "holds ops Ts v i x \<Longrightarrow> Variant_alt v = Some (i, x)"
  using types_bound'
  by (simp add: holds_def Variant_alt_def of_nat_index_valid unat_of_nat_size_t)

lemma valueless_alt [simp]: "valueless v \<Longrightarrow> Variant_alt v = None"
  by (simp add: valueless_def Variant_alt_def)

lemma holds_wf [intro]: "holds ops Ts v i x \<Longrightarrow> Variant_wf ops Ts v"
  by (auto simp: Variant_wf_def)

lemma valueless_wf [intro]: "valueless v \<Longrightarrow> Variant_wf ops Ts v"
  by (simp add: Variant_wf_def)

lemma dispatch_holds:
  "holds ops Ts v i x \<Longrightarrow> dispatch msg act 0 Ts (m_type_index v) = act (Ts ! i)"
  using types_bound' by (simp add: holds_def dispatch_in)

lemma deref_holds: "holds ops Ts v i x \<Longrightarrow> deref ops (Ts ! i) (m_storage v) = Ret x"
  by (simp add: holds_def deref_def)

lemmas call_simps = call_dispatch [OF types_nonempty]

lemma destroy_valueless: "valueless v \<Longrightarrow> call_element_destructor ops Ts v = Ret v"
  by (simp add: call_element_destructor_def valueless_def)

lemma destroy_holds:
  "holds ops Ts v i x \<Longrightarrow>
   call_element_destructor ops Ts v = Ret (v\<lparr>m_storage := (m_storage v)\<lparr>bytes := Raw\<rparr>\<rparr>)"
  using holds_not_valueless [of v i x]
  by (simp add: call_element_destructor_def call_simps dispatch_holds run_destructor_def
      deref_holds valueless_def)

lemma destroy_wf: "Variant_wf ops Ts v \<Longrightarrow> call_element_destructor ops Ts v = Ret (destroyed v)"
  by (cases rule: Variant_wf_cases)
     (auto simp: destroyed_def destroy_valueless destroy_holds holds_not_valueless)

lemma destroyed_undestroyed [simp]:
  "undestroyed (m_storage (destroyed v)) = undestroyed (m_storage v)"
  by (simp add: destroyed_def)

lemma dtor_wf: "Variant_wf ops Ts v \<Longrightarrow> Variant_dtor ops Ts v = Ret (destroyed v)"
  by (simp add: Variant_dtor_def destroy_wf)

lemma clean_dtor_leftover:
  "Variant_wf ops Ts v \<Longrightarrow> Variant_clean v \<Longrightarrow> leftover (destroyed v) = []"
  by (auto simp: leftover_def destroyed_def Variant_clean_def)

text \<open>Each operation on well-formed variants, as an equation over the abstraction.\<close>

lemma wf_typed_alt: "Variant_wf ops Ts v \<Longrightarrow> typed_alt ops Ts (Variant_alt v)"
  by (cases rule: Variant_wf_cases) (auto simp: typed_alt_def holds_alt holds_def)

lemma set_alt_holds:
  "i < length Ts \<Longrightarrow> type_of ops x = Ts ! i \<Longrightarrow> holds ops Ts (set_alt v (Some (i, x))) i x"
  by (simp add: set_alt_def holds_def)

lemma set_alt_None: "valueless (set_alt v None)"
  by (simp add: set_alt_def valueless_def)

lemma set_alt_wf: "typed_alt ops Ts a \<Longrightarrow> Variant_wf ops Ts (set_alt v a)"
  using set_alt_holds set_alt_None by (fastforce simp: typed_alt_def split: option.splits)

lemma set_alt_alt: "typed_alt ops Ts a \<Longrightarrow> Variant_alt (set_alt v a) = a"
  using holds_alt [OF set_alt_holds] set_alt_None [of v]
  by (auto simp: typed_alt_def split: option.splits)

lemma set_alt_clean:
  "typed_alt ops Ts a \<Longrightarrow> Variant_clean v \<Longrightarrow> Variant_clean (set_alt v a)"
  using holds_not_valueless [OF set_alt_holds, of _ _ v]
  by (cases "valueless v")
     (auto simp: Variant_clean_def set_alt_def destroyed_def typed_alt_def split: option.splits)

lemma moved_from_valueless: "valueless (moved_from f v)"
  by (auto simp: moved_from_def valueless_def split: option.splits)

lemma moved_from_leftover:
  "holds ops Ts v i x \<Longrightarrow> leftover (moved_from f v) = f x # undestroyed (m_storage v)"
  by (simp add: moved_from_def holds_alt leftover_def)

lemma holds_index_valid: "holds ops Ts v i x \<Longrightarrow> m_type_index v \<noteq> INVALID_VARIANT_INDEX"
  using holds_not_valueless by (auto simp: valueless_def)

lemma holds_index: "holds ops Ts v i x \<Longrightarrow> m_type_index v = of_nat i"
  by (simp add: holds_def)

lemma holds_bytes: "holds ops Ts v i x \<Longrightarrow> bytes (m_storage v) = Live x"
  by (simp add: holds_def)

lemmas holds_simps =
  dispatch_holds deref_holds holds_index_valid holds_not_valueless holds_alt destroy_holds

lemma valuelessD: "valueless v \<Longrightarrow> m_type_index v = INVALID_VARIANT_INDEX"
  by (simp add: valueless_def)

lemma copy_ctor_eq:
  assumes "Variant_wf ops Ts rhs"
  shows "Variant_copy_ctor ops Ts rhs = Ret (set_alt Variant_default (Variant_alt rhs))"
  using assms
proof (cases rule: Variant_wf_cases)
  case valueless
  then show ?thesis
    by (simp add: Variant_copy_ctor_def set_alt_def destroyed_def valueless_def Variant_default_def)
next
  case (holds i x)
  then show ?thesis
    by (simp add: Variant_copy_ctor_def set_alt_def destroyed_def call_simps holds_simps
        elem_copyConstructor_def Let_def)
       (simp add: Variant_default_def holds_index)
qed

lemma move_ctor_eq:
  assumes "Variant_wf ops Ts rhs"
  shows "Variant_move_ctor ops Ts rhs =
    Ret (set_alt Variant_default (Variant_alt rhs), moved_from moved_out rhs)"
  using assms
proof (cases rule: Variant_wf_cases)
  case valueless
  then show ?thesis
    by (simp add: Variant_move_ctor_def set_alt_def destroyed_def moved_from_def
        valueless_def Variant_default_def)
next
  case (holds i x)
  then show ?thesis
    by (simp add: Variant_move_ctor_def set_alt_def destroyed_def moved_from_def call_simps
        holds_simps elem_moveConstructor_def Let_def)
       (simp add: Variant_default_def holds_index)
qed

lemma copy_assign_self: "Variant_copy_assign ops Ts True this this = Ret this"
  by (simp add: Variant_copy_assign_def)

lemma move_assign_self: "Variant_move_assign ops Ts True this this = Ret (this, this)"
  by (simp add: Variant_move_assign_def)

text \<open>Equal indices mean both are valueless or both hold the same alternative.\<close>

lemma same_index:
  assumes "Variant_wf ops Ts v" "holds ops Ts w i x" "m_type_index v = m_type_index w"
  obtains y where "holds ops Ts v i y"
  using assms(1)
proof (cases rule: Variant_wf_cases)
  case valueless
  with assms(2,3) show thesis using holds_index_valid valuelessD by metis
next
  case (holds j y)
  with assms(2,3) have "j = i"
    using of_nat_index_eq by (metis holds_def)
  with holds that show thesis by simp
qed

lemma copy_assign_eq:
  assumes tw: "Variant_wf ops Ts this" and rhs: "Variant_wf ops Ts rhs"
  shows "Variant_copy_assign ops Ts False this rhs = Ret (set_alt this (Variant_alt rhs))"
  using rhs
proof (cases rule: Variant_wf_cases)
  case valueless
  then show ?thesis using destroy_wf [OF tw]
    by (auto simp: Variant_copy_assign_def set_alt_def destroyed_def valueless_def)
next
  case (holds i x)
  show ?thesis
  proof (cases "m_type_index this = m_type_index rhs")
    case True
    with tw holds obtain y where "holds ops Ts this i y" by (rule same_index)
    with holds True show ?thesis
      by (simp add: Variant_copy_assign_def set_alt_def call_simps holds_simps elem_copy_def
          destroyed_def)
         (simp add: place_new_def holds_index)
  next
    case False
    with holds show ?thesis
      by (simp add: Variant_copy_assign_def set_alt_def call_simps holds_simps destroy_wf [OF tw]
          elem_copyConstructor_def Let_def)
         (simp add: holds_index)
  qed
qed

lemma move_assign_eq:
  assumes tw: "Variant_wf ops Ts this" and rhs: "Variant_wf ops Ts rhs"
  shows "Variant_move_assign ops Ts False this rhs =
    Ret (set_alt this (Variant_alt rhs), moved_from moved_out rhs)"
  using rhs
proof (cases rule: Variant_wf_cases)
  case valueless
  then show ?thesis using destroy_wf [OF tw]
    by (auto simp: Variant_move_assign_def set_alt_def destroyed_def moved_from_def valueless_def)
next
  case (holds i x)
  show ?thesis
  proof (cases "m_type_index this = m_type_index rhs")
    case True
    with tw holds obtain y where "holds ops Ts this i y" by (rule same_index)
    with holds True show ?thesis
      by (simp add: Variant_move_assign_def set_alt_def call_simps holds_simps elem_move_def
          destroyed_def moved_from_def)
         (simp add: place_new_def holds_index)
  next
    case False
    with holds show ?thesis
      by (simp add: Variant_move_assign_def set_alt_def call_simps holds_simps destroy_wf [OF tw]
          elem_moveConstructor_def moved_from_def Let_def)
         (simp add: holds_index)
  qed
qed

section \<open>emplace and construction from a value\<close>

lemma emplace_at_index_eq:
  assumes wf: "Variant_wf ops Ts this" and i: "i < length Ts"
  shows "Variant_emplace_at_index ops Ts (of_nat i) mk this =
    Some (noexcept (obind (mk (Ts ! i)) (\<lambda>n. Ret (set_alt this (Some (i, n))))))"
proof -
  have "(of_nat i :: size_t) \<le> of_nat (length Ts)"
    using i types_bound' by (simp add: word_le_nat_alt unat_of_nat_size_t)
  then show ?thesis
    using i types_bound'
    by (simp add: Variant_emplace_at_index_def get_type_at_index_nth destroy_wf [OF wf]
        set_alt_Some)
qed

lemma emplace_at_index_out_of_range:
  assumes "length Ts \<le> unat I"
  shows "Variant_emplace_at_index ops Ts I mk this = None"
  using assms by (simp add: Variant_emplace_at_index_def get_type_at_index_eq)

lemma emplace_type_eq:
  assumes wf: "Variant_wf ops Ts this" and T: "T \<in> set Ts"
  shows "Variant_emplace_type ops Ts T mk this =
    Some (noexcept (obind (mk T) (\<lambda>n. Ret (set_alt this (Some (first_index T Ts, n))))))"
proof -
  have "(if m_type_index this \<noteq> INVALID_VARIANT_INDEX
         then call_element_destructor ops Ts this else Ret this) = Ret (destroyed this)"
    using destroy_wf [OF wf] by (simp add: destroyed_def valueless_def)
  then show ?thesis
    using T by (simp add: Variant_emplace_type_def get_index_of_type_in set_alt_Some)
qed

lemma destroy_then_construct_eq:
  assumes wf: "Variant_wf ops Ts this"
  shows "destroy_then_construct ops Ts (of_nat i) (Ret n) this =
      (Ret (), set_alt this (Some (i, n)))"
    and "destroy_then_construct ops Ts (of_nat i) (Throws e) this = (Throws e, destroyed this)"
  by (simp_all add: destroy_then_construct_def destroy_wf [OF wf] set_alt_Some)

lemma destroyed_not_wf:
  assumes "holds ops Ts v i x"
  shows "\<not> Variant_wf ops Ts (destroyed v)" and "Variant_dtor ops Ts (destroyed v) = Undefined"
proof -
  have bytes: "bytes (m_storage (destroyed v)) = Raw"
    and idx: "m_type_index (destroyed v) = m_type_index v"
    using holds_not_valueless [OF assms] by (simp_all add: destroyed_def)
  show "\<not> Variant_wf ops Ts (destroyed v)"
    using bytes holds_index_valid [OF assms]
    by (auto simp: Variant_wf_def valueless_def idx holds_def)
  show "Variant_dtor ops Ts (destroyed v) = Undefined"
    using bytes
    by (simp add: Variant_dtor_def call_element_destructor_def idx holds_index_valid [OF assms]
        call_simps dispatch_holds [OF assms] run_destructor_def deref_def)
qed

text \<open>\<open>selects conv T i\<close>: overload resolution picks the alternative \<open>i\<close> for an argument type.\<close>

lemma converting_ctor_eq:
  assumes sel: "T_varType conv (type_of ops a) Ts = Some (Ts ! i)"
      "T_varIndex conv (type_of ops a) Ts = of_nat i"
    and con: "construct_from ops cat (Ts ! i) a = Ret (n, a')"
  shows "Variant_converting_ctor ops conv Ts cat a =
    Some (Ret (set_alt Variant_default (Some (i, n)), a'))"
  using assms
  by (simp add: Variant_converting_ctor_def set_alt_Some destroyed_def)

lemma converting_assign_eq:
  assumes wf: "Variant_wf ops Ts this"
    and sel: "T_varType conv (type_of ops a) Ts = Some (Ts ! i)"
      "T_varIndex conv (type_of ops a) Ts = of_nat i" "i < length Ts"
    and con: "construct_from ops cat (Ts ! i) a = Ret (n, a')" "type_of ops n = Ts ! i"
  shows "Variant_converting_assign ops conv Ts cat this a =
    Some (Ret (set_alt this (Some (i, n)), a'))"
proof -
  define temp where "temp = set_alt Variant_default (Some (i, n))"
  have ctor: "Variant_converting_ctor ops conv Ts cat a = Some (Ret (temp, a'))"
    unfolding temp_def by (rule converting_ctor_eq [OF sel(1,2) con(1)])
  have temp: "holds ops Ts temp i n"
    unfolding temp_def by (rule set_alt_holds [OF sel(3) con(2)])
  define temp1 where
    "temp1 = temp\<lparr>m_storage := (m_storage temp)\<lparr>bytes := Live (moved_out n)\<rparr>\<rparr>"
  have temp1: "holds ops Ts temp1 i (moved_out n)"
    using temp by (simp add: temp1_def holds_def)
  have u: "undestroyed (m_storage temp1) = []"
    by (simp add: temp1_def temp_def set_alt_def destroyed_def) (simp add: Variant_default_def)
  have dtor: "Variant_dtor ops Ts temp1 = Ret (destroyed temp1)"
    using temp1 by (intro dtor_wf holds_wf)
  have left: "leftover (destroyed temp1) = []"
    using u holds_not_valueless [OF temp1] by (simp add: leftover_def destroyed_def)
  have des: "(if m_type_index this \<noteq> INVALID_VARIANT_INDEX
         then call_element_destructor ops Ts this else Ret this) = Ret (destroyed this)"
    using destroy_wf [OF wf] by (simp add: destroyed_def valueless_def)
  have mv: "call_moveConstructor ops 0 Ts (m_type_index temp) (m_storage temp)
      (m_storage (destroyed this)) =
      Ret ((m_storage temp)\<lparr>bytes := Live (moved_out n)\<rparr>, place_new n (m_storage (destroyed this)))"
    using temp by (simp add: call_simps holds_simps elem_moveConstructor_def)
  show ?thesis
    using dtor left
    by (simp add: Variant_converting_assign_def ctor des mv temp1_def [symmetric] Let_def)
       (simp add: set_alt_def destroyed_def temp1_def holds_index [OF temp])
qed

section \<open>swap\<close>

lemma alt_ghost [simp]:
  "Variant_alt (v\<lparr>m_storage := (m_storage v)\<lparr>undestroyed := u\<rparr>\<rparr>) = Variant_alt v"
  by (simp add: Variant_alt_def split: bytes.split)

lemma wf_ghost [simp]:
  "Variant_wf ops Ts (v\<lparr>m_storage := (m_storage v)\<lparr>undestroyed := u\<rparr>\<rparr>) = Variant_wf ops Ts v"
  by (simp add: Variant_wf_def valueless_def holds_def)

lemma moved_from_wf [simp]: "Variant_wf ops Ts (moved_from f v)"
  by (rule valueless_wf) (rule moved_from_valueless)

lemma swap_eq:
  assumes a: "Variant_wf ops Ts a" and b: "Variant_wf ops Ts b"
  obtains a' b' where "std_swap_variant ops Ts False a b = Ret (a', b')"
    "Variant_wf ops Ts a'" "Variant_wf ops Ts b'"
    "Variant_alt a' = Variant_alt b" "Variant_alt b' = Variant_alt a"
proof -
  define tmp where "tmp = set_alt Variant_default (Variant_alt a)"
  note ta = wf_typed_alt [OF a] and tb = wf_typed_alt [OF b]
  have tmp: "Variant_wf ops Ts tmp" "Variant_alt tmp = Variant_alt a"
    unfolding tmp_def using ta by (rule set_alt_wf, rule set_alt_alt)
  define u where "u = leftover (destroyed (moved_from moved_out tmp))"
  define b3 where "b3 = set_alt (moved_from moved_out b) (Variant_alt a)"
  let ?b' = "b3\<lparr>m_storage := (m_storage b3)\<lparr>undestroyed := u @ undestroyed (m_storage b3)\<rparr>\<rparr>"
  let ?a' = "set_alt (moved_from moved_out a) (Variant_alt b)"
  have "std_swap_variant ops Ts False a b = Ret (?a', ?b')"
    by (simp add: std_swap_variant_def move_ctor_eq [OF a] tmp_def [symmetric]
        move_assign_eq [OF moved_from_wf b] move_assign_eq [OF moved_from_wf tmp(1)] tmp(2)
        dtor_wf u_def b3_def Let_def)
  moreover have "Variant_wf ops Ts ?a'" "Variant_wf ops Ts ?b'"
    using ta tb by (simp_all add: b3_def set_alt_wf)
  moreover have "Variant_alt ?a' = Variant_alt b" "Variant_alt ?b' = Variant_alt a"
    using ta tb by (simp_all add: b3_def set_alt_alt)
  ultimately show thesis by (rule that)
qed

lemma swap_self_eq:
  assumes a: "Variant_wf ops Ts a"
  obtains a' where "std_swap_variant ops Ts True a a = Ret (a', a')"
    "Variant_wf ops Ts a'" "Variant_alt a' = Variant_alt a"
proof -
  define tmp where "tmp = set_alt Variant_default (Variant_alt a)"
  note ta = wf_typed_alt [OF a]
  have tmp: "Variant_wf ops Ts tmp" "Variant_alt tmp = Variant_alt a"
    unfolding tmp_def using ta by (rule set_alt_wf, rule set_alt_alt)
  define u where "u = leftover (destroyed (moved_from moved_out tmp))"
  define b3 where "b3 = set_alt (moved_from moved_out a) (Variant_alt a)"
  let ?b' = "b3\<lparr>m_storage := (m_storage b3)\<lparr>undestroyed := u @ undestroyed (m_storage b3)\<rparr>\<rparr>"
  have "std_swap_variant ops Ts True a a = Ret (?b', ?b')"
    by (simp add: std_swap_variant_def move_ctor_eq [OF a] tmp_def [symmetric] move_assign_self
        move_assign_eq [OF moved_from_wf tmp(1)] tmp(2) dtor_wf u_def b3_def Let_def)
  moreover have "Variant_wf ops Ts ?b'" using ta by (simp add: b3_def set_alt_wf)
  moreover have "Variant_alt ?b' = Variant_alt a" using ta by (simp add: b3_def set_alt_alt)
  ultimately show thesis by (rule that)
qed

section \<open>Access\<close>

lemma bad_access_eq:
  assumes wf: "Variant_wf ops Ts v" and T: "T \<in> set Ts"
  shows "has_bad_variant_element_access Ts T v =
    Some (\<forall>x. Variant_alt v \<noteq> Some (first_index T Ts, x))"
proof -
  have i: "first_index T Ts < length Ts" using T by (rule first_index_less)
  have "m_type_index v = of_nat (first_index T Ts) \<longleftrightarrow>
      (\<exists>x. Variant_alt v = Some (first_index T Ts, x))"
    using wf
  proof (cases rule: Variant_wf_cases)
    case valueless
    then show ?thesis using of_nat_index_valid [OF i] by (simp add: valuelessD)
  next
    case (holds j x)
    then have "j < length Ts" by (simp add: holds_def)
    with holds i show ?thesis by (auto simp: holds_alt holds_index of_nat_index_eq)
  qed
  with T show ?thesis by (simp add: has_bad_variant_element_access_def get_index_of_type_in)
qed

lemma get_eq:
  assumes "Variant_wf ops Ts v" and "T \<in> set Ts"
  shows "Variant_get_const Ts T v =
    Some (if \<exists>x. Variant_alt v = Some (first_index T Ts, x) then Some (m_storage v) else None)"
  using assms by (simp add: Variant_get_const_def bad_access_eq)

lemma get_Some_deref:
  assumes "Variant_wf ops Ts v" and "T \<in> set Ts"
    and "Variant_alt v = Some (first_index T Ts, x)"
  shows "deref ops T (m_storage v) = Ret x"
  using assms(1)
proof (cases rule: Variant_wf_cases)
  case valueless
  with assms(3) show ?thesis by simp
next
  case (holds j y)
  with assms(3) have "j = first_index T Ts" "y = x" by (simp_all add: holds_alt)
  with deref_holds [OF holds] nth_first_index [OF assms(2)] show ?thesis by simp
qed

lemma get_at_index_eq:
  assumes "Variant_wf ops Ts v" and i: "i < length Ts"
  shows "Variant_get_at_index Ts (of_nat i) v =
    Some (if \<exists>x. Variant_alt v = Some (i, x) then Some (m_storage v) else None)"
  using assms(1)
proof (cases rule: Variant_wf_cases)
  case valueless
  then show ?thesis using of_nat_index_valid [OF i] types_bound' i
    by (simp add: Variant_get_at_index_def get_type_at_index_nth valuelessD)
next
  case (holds j x)
  then have "j < length Ts" by (simp add: holds_def)
  with holds i types_bound' show ?thesis
    by (auto simp: Variant_get_at_index_def get_type_at_index_nth holds_alt holds_index
        of_nat_index_eq)
qed

end

end
