(* ===== verification/Element_Types.thy ===== *)
theory Element_Types
  imports Prelude
begin

text \<open>
  The element types of the standard library and the language the containers of
  \<open>ara::core\<close> hold: the built-in types and the enumerations (copying and moving both
  copy the bits), and \<open>String\<close> = \<open>std::string\<close> (\<open>ara/core/string.h\<close>), whose move leaves
  the source empty. Both keep the contract \<open>regular_elems\<close>.
\<close>

definition scalar_ops :: "('x, unit, 'v) elem_ops" where
  "scalar_ops =
     \<lparr>type_of = (\<lambda>_. ()), copy_ctor = Ret, move_ctor = (\<lambda>v. Ret (v, v)),
      copy_asgn = (\<lambda>_ v. Ret v), move_asgn = (\<lambda>_ v. Ret (v, v)), conv_ctor = (\<lambda>_. Ret)\<rparr>"

definition String_ops :: "('x, unit, string) elem_ops" where
  "String_ops =
     \<lparr>type_of = (\<lambda>_. ()), copy_ctor = Ret, move_ctor = (\<lambda>v. Ret (v, '''')),
      copy_asgn = (\<lambda>_ v. Ret v), move_asgn = (\<lambda>_ v. Ret (v, '''')), conv_ctor = (\<lambda>_. Ret)\<rparr>"

text \<open>An element type whose copies and moves throw \<open>e\<close> (\<open>std::bad_alloc\<close>, for one).\<close>

definition throwing_ops :: "'x \<Rightarrow> ('x, unit, 'v) elem_ops" where
  "throwing_ops e =
     \<lparr>type_of = (\<lambda>_. ()), copy_ctor = (\<lambda>_. Throws e), move_ctor = (\<lambda>_. Throws e),
      copy_asgn = (\<lambda>_ _. Throws e), move_asgn = (\<lambda>_ _. Throws e), conv_ctor = (\<lambda>_ _. Throws e)\<rparr>"

interpretation scalar: regular_elems scalar_ops "\<lambda>v. v"
  by unfold_locales (simp_all add: scalar_ops_def)

interpretation String: regular_elems String_ops "\<lambda>_. ''''"
  by unfold_locales (simp_all add: String_ops_def)

end
