(* ===== verification/String_View.thy ===== *)
theory String_View
  imports Prelude
begin

text \<open>
  \<open>ara/core/string_view.h\<close>: the class \<open>StringView\<close>. A \<open>char const*\<close> is \<open>None\<close> for the
  null pointer, otherwise the characters from the address it points to up to the end of
  their array object, so reading before or beyond them is undefined. \<open>size_type\<close> is the
  signed \<open>int\<close>, read with \<open>sint\<close>.
\<close>

section \<open>Memory\<close>

type_synonym char_ptr = "char list option"

definition read_mem :: "char_ptr \<Rightarrow> int \<Rightarrow> ('x, char) outcome" where
  "read_mem p i =
     (case p of
        None \<Rightarrow> Undefined
      | Some cs \<Rightarrow> if 0 \<le> i \<and> i < int (length cs) then Ret (cs ! nat i) else Undefined)"

text \<open>\<open>std::char_traits<char>::length\<close>: the distance to the terminating NUL.\<close>

definition char_traits_length :: "char list \<Rightarrow> ('x, nat) outcome" where
  "char_traits_length cs =
     (if CHR 0x00 \<in> set cs then Ret (first_index (CHR 0x00) cs) else Undefined)"

text \<open>The array behind a string literal.\<close>

definition c_str :: "string \<Rightarrow> char_ptr" where
  "c_str s = Some (s @ [CHR 0x00])"

section \<open>The class\<close>

record StringView =
  sv_value :: char_ptr
  sv_size :: int32_t

definition StringView_default :: StringView where
  "StringView_default = \<lparr>sv_value = None, sv_size = 0\<rparr>"

definition StringView_ctor :: "char_ptr \<Rightarrow> int32_t \<Rightarrow> StringView" where
  "StringView_ctor val sz = \<lparr>sv_value = val, sv_size = sz\<rparr>"

definition StringView_from_ptr :: "char_ptr \<Rightarrow> ('x, StringView) outcome" where
  "StringView_from_ptr p =
     (case p of
        None \<Rightarrow> Ret (StringView_ctor p 0)
      | Some cs \<Rightarrow> obind (char_traits_length cs) (\<lambda>n. Ret (StringView_ctor p (of_nat n))))"

text \<open>Iterators are offsets from \<open>value_\<close>; a reverse iterator reads one before its base.\<close>

definition StringView_begin :: "StringView \<Rightarrow> int" where
  "StringView_begin sv = 0"

definition StringView_end :: "StringView \<Rightarrow> int" where
  "StringView_end sv = sint (sv_size sv)"

definition StringView_rbegin :: "StringView \<Rightarrow> int" where
  "StringView_rbegin sv = StringView_end sv"

definition StringView_rend :: "StringView \<Rightarrow> int" where
  "StringView_rend sv = StringView_begin sv"

definition StringView_size :: "StringView \<Rightarrow> int" where
  "StringView_size sv = sint (sv_size sv)"

definition StringView_length :: "StringView \<Rightarrow> int" where
  "StringView_length sv = sint (sv_size sv)"

definition StringView_empty :: "StringView \<Rightarrow> bool" where
  "StringView_empty sv = (sv_size sv = 0)"

definition StringView_index :: "StringView \<Rightarrow> int32_t \<Rightarrow> ('x, char) outcome" where
  "StringView_index sv pos = read_mem (sv_value sv) (sint pos)"

definition StringView_at :: "StringView \<Rightarrow> int32_t \<Rightarrow> ('x, char) outcome" where
  "StringView_at sv pos =
     (if sint (sv_size sv) \<le> sint pos then Terminates ''''
      else read_mem (sv_value sv) (sint pos))"

definition StringView_front :: "StringView \<Rightarrow> ('x, char) outcome" where
  "StringView_front sv = read_mem (sv_value sv) 0"

definition StringView_back :: "StringView \<Rightarrow> ('x, char) outcome" where
  "StringView_back sv = read_mem (sv_value sv) (sint (sv_size sv) - 1)"

definition StringView_data :: "StringView \<Rightarrow> char_ptr" where
  "StringView_data sv = sv_value sv"

text \<open>The two loops over a view: \<open>n\<close> is the distance from the first to the last iterator.\<close>

fun read_forward :: "char_ptr \<Rightarrow> int \<Rightarrow> nat \<Rightarrow> ('x, char list) outcome" where
  "read_forward p it 0 = Ret []"
| "read_forward p it (Suc n) =
     obind (read_mem p it) (\<lambda>c. obind (read_forward p (it + 1) n) (\<lambda>cs. Ret (c # cs)))"

fun read_backward :: "char_ptr \<Rightarrow> int \<Rightarrow> nat \<Rightarrow> ('x, char list) outcome" where
  "read_backward p base 0 = Ret []"
| "read_backward p base (Suc n) =
     obind (read_mem p (base - 1)) (\<lambda>c. obind (read_backward p (base - 1) n) (\<lambda>cs. Ret (c # cs)))"

definition StringView_chars :: "StringView \<Rightarrow> ('x, char list) outcome" where
  "StringView_chars sv =
     read_forward (sv_value sv) (StringView_begin sv) (nat (StringView_end sv - StringView_begin sv))"

definition StringView_rchars :: "StringView \<Rightarrow> ('x, char list) outcome" where
  "StringView_rchars sv =
     read_backward (sv_value sv) (StringView_rbegin sv)
       (nat (StringView_rbegin sv - StringView_rend sv))"

section \<open>Well-formed views\<close>

text \<open>A view whose size fits the characters it points to, and the text it shows.\<close>

definition StringView_wf :: "StringView \<Rightarrow> bool" where
  "StringView_wf sv \<longleftrightarrow>
     0 \<le> sint (sv_size sv) \<and>
     (case sv_value sv of None \<Rightarrow> sv_size sv = 0 | Some cs \<Rightarrow> sint (sv_size sv) \<le> int (length cs))"

definition view_text :: "StringView \<Rightarrow> string" where
  "view_text sv =
     (case sv_value sv of None \<Rightarrow> [] | Some cs \<Rightarrow> take (nat (sint (sv_size sv))) cs)"

lemma sint_of_nat_int32: "n < 2 ^ 31 \<Longrightarrow> sint (of_nat n :: int32_t) = int n"
  by transfer (simp add: signed_take_bit_int_eq_self)

lemma sint_of_nat_wraps:
  assumes "2 ^ 31 \<le> n" "n < 2 ^ 32"
  shows "sint (of_nat n :: int32_t) = int n - 2 ^ 32"
proof -
  have "(int n + 2147483648) mod 4294967296 = int n - 2147483648"
    using assms by (intro int_mod_pos_eq [of _ _ 1]) simp_all
  then have "signed_take_bit 31 (int n) = int n - 2 ^ 32"
    by (simp add: signed_take_bit_eq_take_bit_shift take_bit_eq_mod)
  then show ?thesis by (simp add: signed_of_nat)
qed

lemma read_mem_in:
  "i < length cs \<Longrightarrow> read_mem (Some cs) (int i) = Ret (cs ! i)"
  by (simp add: read_mem_def)

lemma read_forward_eq:
  "i + n \<le> length cs \<Longrightarrow>
   (read_forward (Some cs) (int i) n :: ('x, char list) outcome) = Ret (take n (drop i cs))"
proof (induction n arbitrary: i)
  case (Suc n)
  then have "(read_forward (Some cs) (int (Suc i)) n :: ('x, char list) outcome) =
      Ret (take n (drop (Suc i) cs))"
    using Suc.IH [of "Suc i"] by simp
  moreover have "drop i cs = cs ! i # drop (Suc i) cs"
    using Suc.prems by (intro Cons_nth_drop_Suc [symmetric]) simp
  ultimately show ?case
    using Suc.prems by (simp add: read_mem_in add.commute)
qed simp

lemma read_backward_eq:
  "n \<le> i \<Longrightarrow> i \<le> length cs \<Longrightarrow>
   (read_backward (Some cs) (int i) n :: ('x, char list) outcome) =
     Ret (rev (take n (drop (i - n) cs)))"
proof (induction n arbitrary: i)
  case (Suc n)
  then obtain j where j: "i = Suc j" by (cases i) auto
  then have "(read_backward (Some cs) (int j) n :: ('x, char list) outcome) =
      Ret (rev (take n (drop (j - n) cs)))"
    using Suc.IH [of j] Suc.prems by simp
  moreover have "take (Suc n) (drop (j - n) cs) = take n (drop (j - n) cs) @ [cs ! j]"
    using Suc.prems j by (simp add: take_Suc_conv_app_nth)
  ultimately show ?case using Suc.prems j by (simp add: read_mem_in)
qed simp

lemma StringView_wf_cases [consumes 1, case_names null chars]:
  assumes "StringView_wf sv"
    and "sv_value sv = None \<Longrightarrow> sv_size sv = 0 \<Longrightarrow> P"
    and "\<And>cs n. \<lbrakk>sv_value sv = Some cs; sint (sv_size sv) = int n; n \<le> length cs\<rbrakk> \<Longrightarrow> P"
  shows P
proof (cases "sv_value sv")
  case None
  with assms(1,2) show ?thesis by (simp add: StringView_wf_def)
next
  case (Some cs)
  with assms(1) have "sint (sv_size sv) = int (nat (sint (sv_size sv)))"
    and "nat (sint (sv_size sv)) \<le> length cs"
    by (simp_all add: StringView_wf_def nat_le_iff)
  with Some assms(3) show ?thesis by blast
qed

lemmas view_defs =
  StringView_begin_def StringView_end_def StringView_rbegin_def StringView_rend_def view_text_def

lemma chars_eq:
  assumes "StringView_wf sv"
  shows "StringView_chars sv = Ret (view_text sv)"
  using assms
proof (cases rule: StringView_wf_cases)
  case (chars cs n)
  with read_forward_eq [of 0 n cs] show ?thesis
    by (simp add: StringView_chars_def view_defs)
qed (simp_all add: StringView_chars_def view_defs)

lemma rchars_eq:
  assumes "StringView_wf sv"
  shows "StringView_rchars sv = Ret (rev (view_text sv))"
  using assms
proof (cases rule: StringView_wf_cases)
  case (chars cs n)
  with read_backward_eq [of n n cs] show ?thesis
    by (simp add: StringView_rchars_def view_defs)
qed (simp_all add: StringView_rchars_def view_defs)

lemma view_text_length: "StringView_wf sv \<Longrightarrow> int (length (view_text sv)) = sint (sv_size sv)"
  by (auto simp: StringView_wf_def view_text_def split: option.splits)

lemma index_in_range:
  assumes "StringView_wf sv" and "0 \<le> sint pos" and "sint pos < sint (sv_size sv)"
  shows "StringView_index sv pos = Ret (view_text sv ! nat (sint pos))"
  using assms
  by (auto simp: StringView_wf_def StringView_index_def read_mem_def view_text_def
      split: option.splits)

lemma first_index_append_new: "x \<notin> set xs \<Longrightarrow> first_index x (xs @ [x]) = length xs"
  by (induction xs) auto

text \<open>A view made from a C string.\<close>

lemma from_c_str:
  assumes "CHR 0x00 \<notin> set s"
  shows "StringView_from_ptr (c_str s) = Ret \<lparr>sv_value = c_str s, sv_size = of_nat (length s)\<rparr>"
  using assms
  by (simp add: StringView_from_ptr_def c_str_def char_traits_length_def StringView_ctor_def
      first_index_append_new)

lemma from_c_str_wf:
  assumes "length s < 2 ^ 31"
  shows "StringView_wf \<lparr>sv_value = c_str s, sv_size = of_nat (length s)\<rparr>"
    and "view_text \<lparr>sv_value = c_str s, sv_size = of_nat (length s)\<rparr> = s"
  using sint_of_nat_int32 [OF assms]
  by (simp_all add: StringView_wf_def view_text_def c_str_def)

end
