(* ===== verification/Error_Domain.thy ===== *)
theory Error_Domain
  imports String_View
begin

text \<open>
  \<open>ara/core/error_domain.h\<close> and the three domains of the library
  (\<open>core_error_domain.h\<close>, \<open>future_error_domain.h\<close>, \<open>optional_error.h\<close>): the abstract
  class with its identifier and its virtual functions, and for each domain its
  error enumeration, its name and its messages.
\<close>

section \<open>The abstract class\<close>

text \<open>
  The class of the exception a domain throws. A domain outside the library throws a
  class of its own, known by its name.
\<close>

datatype exn_class =
    CoreException
  | FutureException
  | OptionalException
  | UserException string

record ErrorDomain =
  mId :: uint64_t
  vt_Name :: string
  vt_Message :: "int32_t \<Rightarrow> string"
  vt_Exception :: exn_class

definition ErrorDomain_Id :: "ErrorDomain \<Rightarrow> uint64_t" where
  "ErrorDomain_Id d = mId d"

definition ErrorDomain_Name :: "ErrorDomain \<Rightarrow> string" where
  "ErrorDomain_Name d = vt_Name d"

definition ErrorDomain_Message :: "ErrorDomain \<Rightarrow> int32_t \<Rightarrow> string" where
  "ErrorDomain_Message d errorCode = vt_Message d errorCode"

definition ErrorDomain_eq :: "ErrorDomain \<Rightarrow> ErrorDomain \<Rightarrow> bool" where
  "ErrorDomain_eq this other = (mId this = mId other)"

definition ErrorDomain_neq :: "ErrorDomain \<Rightarrow> ErrorDomain \<Rightarrow> bool" where
  "ErrorDomain_neq this other = (mId this \<noteq> mId other)"

section \<open>CoreErrorDomain\<close>

datatype CoreErrc = kInvalidArgument | kInvalidMetaModelShortname | kInvalidMetaModelPath

fun CoreErrc_code :: "CoreErrc \<Rightarrow> int32_t" where
  "CoreErrc_code kInvalidArgument = 22"
| "CoreErrc_code kInvalidMetaModelShortname = 137"
| "CoreErrc_code kInvalidMetaModelPath = 138"

definition CoreErrorDomain_kId :: uint64_t where
  "CoreErrorDomain_kId = 0x8000000000000014"

definition CoreErrorDomain_Name :: string where
  "CoreErrorDomain_Name = ''Core''"

definition CoreErrorDomain_Message :: "int32_t \<Rightarrow> string" where
  "CoreErrorDomain_Message errorCode =
     (if errorCode = CoreErrc_code kInvalidArgument then ''Invalid argument''
      else if errorCode = CoreErrc_code kInvalidMetaModelShortname
        then ''Invalid meta model shortname''
      else if errorCode = CoreErrc_code kInvalidMetaModelPath then ''Invalid meta model path''
      else ''Unknown error'')"

definition CoreErrorDomain :: ErrorDomain where
  "CoreErrorDomain =
     \<lparr>mId = CoreErrorDomain_kId, vt_Name = CoreErrorDomain_Name,
      vt_Message = CoreErrorDomain_Message, vt_Exception = CoreException\<rparr>"

definition GetCoreErrorDomain :: ErrorDomain where
  "GetCoreErrorDomain = CoreErrorDomain"

section \<open>FutureErrorDomain\<close>

datatype future_errc =
  broken_promise | future_already_retrieved | promise_already_satisfied | no_state

fun future_errc_code :: "future_errc \<Rightarrow> int32_t" where
  "future_errc_code broken_promise = 101"
| "future_errc_code future_already_retrieved = 102"
| "future_errc_code promise_already_satisfied = 103"
| "future_errc_code no_state = 104"

definition FutureErrorDomain_kId :: uint64_t where
  "FutureErrorDomain_kId = 0x8000000000000013"

definition FutureErrorDomain_Name :: string where
  "FutureErrorDomain_Name = ''Future''"

definition FutureErrorDomain_Message :: "int32_t \<Rightarrow> string" where
  "FutureErrorDomain_Message errorCode =
     (if errorCode = future_errc_code broken_promise then ''broken promise''
      else if errorCode = future_errc_code future_already_retrieved
        then ''future already retrieved''
      else if errorCode = future_errc_code promise_already_satisfied
        then ''promise already satisfied''
      else if errorCode = future_errc_code no_state
        then ''no state associated with this future''
      else ''unknown future error'')"

definition FutureErrorDomain :: ErrorDomain where
  "FutureErrorDomain =
     \<lparr>mId = FutureErrorDomain_kId, vt_Name = FutureErrorDomain_Name,
      vt_Message = FutureErrorDomain_Message, vt_Exception = FutureException\<rparr>"

definition GetFutureErrorDomain :: ErrorDomain where
  "GetFutureErrorDomain = FutureErrorDomain"

section \<open>OptionalErrorDomain\<close>

datatype optional_errc = bad_access

fun optional_errc_code :: "optional_errc \<Rightarrow> int32_t" where
  "optional_errc_code bad_access = 1"

definition OptionalErrorDomain_kId :: uint64_t where
  "OptionalErrorDomain_kId = 0x6F7074696F6E616C"

definition OptionalErrorDomain_Name :: string where
  "OptionalErrorDomain_Name = ''Optional''"

definition OptionalErrorDomain_Message :: "int32_t \<Rightarrow> string" where
  "OptionalErrorDomain_Message errorCode =
     (if errorCode = optional_errc_code bad_access
      then ''Accessing an optional object that does not contain a value''
      else ''Unknown error'')"

definition OptionalErrorDomain :: ErrorDomain where
  "OptionalErrorDomain =
     \<lparr>mId = OptionalErrorDomain_kId, vt_Name = OptionalErrorDomain_Name,
      vt_Message = OptionalErrorDomain_Message, vt_Exception = OptionalException\<rparr>"

definition GetOptionalDomain :: ErrorDomain where
  "GetOptionalDomain = OptionalErrorDomain"

section \<open>The contract of an error domain\<close>

text \<open>
  What a concrete domain promises: its enumerators have distinct codes, every one has a
  message of its own, any other code gets the default message, and every text is a
  valid C string.
\<close>

locale error_domain_contract =
  fixes domain :: ErrorDomain
    and errcs :: "int32_t list"
    and default_message :: string
  assumes errcs_distinct: "distinct errcs"
    and messages_distinct: "distinct (map (ErrorDomain_Message domain) errcs)"
    and message_default: "e \<notin> set errcs \<Longrightarrow> ErrorDomain_Message domain e = default_message"
    and default_unused: "default_message \<notin> ErrorDomain_Message domain ` set errcs"
    and messages_text: "CHR 0x00 \<notin> set (ErrorDomain_Message domain e)"
    and messages_short: "length (ErrorDomain_Message domain e) < 2 ^ 31"
begin

lemma default_iff: "ErrorDomain_Message domain e = default_message \<longleftrightarrow> e \<notin> set errcs"
  using message_default [of e] default_unused imageI [of e "set errcs"] by metis

lemma message_injective:
  assumes "ErrorDomain_Message domain e = ErrorDomain_Message domain e'" and "e \<in> set errcs"
  shows "e = e'"
proof -
  have "e' \<in> set errcs" using assms default_iff by metis
  with assms messages_distinct show ?thesis
    by (auto simp: distinct_map dest: inj_onD)
qed

text \<open>The message as a \<open>StringView\<close>.\<close>

lemma message_view:
  "StringView_from_ptr (c_str (ErrorDomain_Message domain e)) =
     Ret \<lparr>sv_value = c_str (ErrorDomain_Message domain e),
          sv_size = of_nat (length (ErrorDomain_Message domain e))\<rparr>"
  using messages_text by (rule from_c_str)

lemma message_view_text:
  "view_text \<lparr>sv_value = c_str (ErrorDomain_Message domain e),
     sv_size = of_nat (length (ErrorDomain_Message domain e))\<rparr> = ErrorDomain_Message domain e"
  using messages_short by (rule from_c_str_wf(2))

end

definition CoreErrc_codes :: "int32_t list" where
  "CoreErrc_codes =
     map CoreErrc_code [kInvalidArgument, kInvalidMetaModelShortname, kInvalidMetaModelPath]"

definition future_errc_codes :: "int32_t list" where
  "future_errc_codes =
     map future_errc_code
       [broken_promise, future_already_retrieved, promise_already_satisfied, no_state]"

definition optional_errc_codes :: "int32_t list" where
  "optional_errc_codes = map optional_errc_code [bad_access]"

lemmas core_domain_defs =
  CoreErrorDomain_def CoreErrorDomain_Message_def CoreErrc_codes_def ErrorDomain_Message_def

lemmas future_domain_defs =
  FutureErrorDomain_def FutureErrorDomain_Message_def future_errc_codes_def ErrorDomain_Message_def

lemmas optional_domain_defs =
  OptionalErrorDomain_def OptionalErrorDomain_Message_def optional_errc_codes_def
  ErrorDomain_Message_def

lemma core_message_cases:
  "ErrorDomain_Message CoreErrorDomain e \<in>
     {''Invalid argument'', ''Invalid meta model shortname'', ''Invalid meta model path'',
      ''Unknown error''}"
  by (simp add: core_domain_defs)

lemma future_message_cases:
  "ErrorDomain_Message FutureErrorDomain e \<in>
     {''broken promise'', ''future already retrieved'', ''promise already satisfied'',
      ''no state associated with this future'', ''unknown future error''}"
  by (simp add: future_domain_defs)

lemma optional_message_cases:
  "ErrorDomain_Message OptionalErrorDomain e \<in>
     {''Accessing an optional object that does not contain a value'', ''Unknown error''}"
  by (simp add: optional_domain_defs)

text \<open>Every message of the library is a short C string.\<close>

definition short_text :: "string \<Rightarrow> bool" where
  "short_text s \<longleftrightarrow> CHR 0x00 \<notin> set s \<and> length s < 100"

lemma short_textD: "short_text s \<Longrightarrow> CHR 0x00 \<notin> set s" "short_text s \<Longrightarrow> length s < 2 ^ 31"
  by (simp_all add: short_text_def)

lemma messages_short_text:
  "short_text (ErrorDomain_Message CoreErrorDomain e)"
  "short_text (ErrorDomain_Message FutureErrorDomain e)"
  "short_text (ErrorDomain_Message OptionalErrorDomain e)"
  using core_message_cases [of e] future_message_cases [of e] optional_message_cases [of e]
  by (auto simp: short_text_def)

interpretation core_domain:
  error_domain_contract CoreErrorDomain CoreErrc_codes "''Unknown error''"
proof unfold_locales
  fix e
  show "CHR 0x00 \<notin> set (ErrorDomain_Message CoreErrorDomain e)"
    "length (ErrorDomain_Message CoreErrorDomain e) < 2 ^ 31"
    using messages_short_text(1) by (rule short_textD)+
qed (auto simp: core_domain_defs)

interpretation future_domain:
  error_domain_contract FutureErrorDomain future_errc_codes "''unknown future error''"
proof unfold_locales
  fix e
  show "CHR 0x00 \<notin> set (ErrorDomain_Message FutureErrorDomain e)"
    "length (ErrorDomain_Message FutureErrorDomain e) < 2 ^ 31"
    using messages_short_text(2) by (rule short_textD)+
qed (auto simp: future_domain_defs)

interpretation optional_domain:
  error_domain_contract OptionalErrorDomain optional_errc_codes "''Unknown error''"
proof unfold_locales
  fix e
  show "CHR 0x00 \<notin> set (ErrorDomain_Message OptionalErrorDomain e)"
    "length (ErrorDomain_Message OptionalErrorDomain e) < 2 ^ 31"
    using messages_short_text(3) by (rule short_textD)+
qed (auto simp: optional_domain_defs)

lemma CoreErrc_code_inj: "CoreErrc_code a = CoreErrc_code b \<longleftrightarrow> a = b"
  by (cases a; cases b) simp_all

lemma future_errc_code_inj: "future_errc_code a = future_errc_code b \<longleftrightarrow> a = b"
  by (cases a; cases b) simp_all

lemma domain_ids_distinct: "distinct [CoreErrorDomain_kId, FutureErrorDomain_kId, OptionalErrorDomain_kId]"
  by (simp add: CoreErrorDomain_kId_def FutureErrorDomain_kId_def OptionalErrorDomain_kId_def)

end
