(* ===== verification/Error_Code.thy ===== *)
theory Error_Code
  imports Error_Domain
begin

text \<open>
  \<open>ara/core/error_code.h\<close>, \<open>ara/core/exception.h\<close> and the \<open>MakeErrorCode\<close> functions of the
  domains: \<open>ErrorCode\<close>, its comparison, its printed form, and the exceptions it is
  thrown as. The build flag \<open>ARA_NO_EXCEPTIONS\<close> is an argument.
\<close>

section \<open>ErrorCode\<close>

record ErrorCode =
  mValue :: int32_t
  mSupportData :: int32_t
  mDomain :: ErrorDomain

definition ErrorCode_ctor :: "int32_t \<Rightarrow> ErrorDomain \<Rightarrow> int32_t \<Rightarrow> ErrorCode" where
  "ErrorCode_ctor val domain data =
     \<lparr>mValue = val, mSupportData = data, mDomain = domain\<rparr>"

definition ErrorCode_Value :: "ErrorCode \<Rightarrow> int32_t" where
  "ErrorCode_Value ec = mValue ec"

definition ErrorCode_SupportData :: "ErrorCode \<Rightarrow> int32_t" where
  "ErrorCode_SupportData ec = mSupportData ec"

definition ErrorCode_Domain :: "ErrorCode \<Rightarrow> ErrorDomain" where
  "ErrorCode_Domain ec = mDomain ec"

definition ErrorCode_Message :: "ErrorCode \<Rightarrow> ('x, StringView) outcome" where
  "ErrorCode_Message ec =
     StringView_from_ptr
       (c_str (ErrorDomain_Message (ErrorCode_Domain ec) (ErrorCode_Value ec)))"

definition ErrorCode_eq :: "ErrorCode \<Rightarrow> ErrorCode \<Rightarrow> bool" where
  "ErrorCode_eq lhs rhs =
     (ErrorDomain_eq (ErrorCode_Domain lhs) (ErrorCode_Domain rhs) \<and>
      ErrorCode_Value lhs = ErrorCode_Value rhs)"

definition ErrorCode_neq :: "ErrorCode \<Rightarrow> ErrorCode \<Rightarrow> bool" where
  "ErrorCode_neq lhs rhs =
     (ErrorDomain_neq (ErrorCode_Domain lhs) (ErrorCode_Domain rhs) \<or>
      ErrorCode_Value lhs \<noteq> ErrorCode_Value rhs)"

text \<open>The overloads of \<open>MakeErrorCode\<close> and the constructor from an enumerator that uses them.\<close>

definition MakeErrorCode_core :: "CoreErrc \<Rightarrow> int32_t \<Rightarrow> ErrorCode" where
  "MakeErrorCode_core code data = ErrorCode_ctor (CoreErrc_code code) GetCoreErrorDomain data"

definition MakeErrorCode_future :: "future_errc \<Rightarrow> int32_t \<Rightarrow> ErrorCode" where
  "MakeErrorCode_future code data =
     ErrorCode_ctor (future_errc_code code) GetFutureErrorDomain data"

definition MakeErrorCode_optional :: "optional_errc \<Rightarrow> int32_t \<Rightarrow> ErrorCode" where
  "MakeErrorCode_optional code data =
     ErrorCode_ctor (optional_errc_code code) GetOptionalDomain data"

definition ErrorCode_of_enum :: "('e \<Rightarrow> int32_t \<Rightarrow> ErrorCode) \<Rightarrow> 'e \<Rightarrow> int32_t \<Rightarrow> ErrorCode" where
  "ErrorCode_of_enum MakeErrorCode e data = MakeErrorCode e data"

section \<open>Exceptions\<close>

record ara_exception =
  exn_type :: exn_class
  error_code :: ErrorCode

definition Exception_ctor :: "exn_class \<Rightarrow> ErrorCode \<Rightarrow> ara_exception" where
  "Exception_ctor cls err = \<lparr>exn_type = cls, error_code = err\<rparr>"

definition Exception_Error :: "ara_exception \<Rightarrow> ErrorCode" where
  "Exception_Error ex = error_code ex"

definition Exception_what :: "ara_exception \<Rightarrow> string" where
  "Exception_what ex =
     ErrorDomain_Message (ErrorCode_Domain (error_code ex)) (ErrorCode_Value (error_code ex))"

text \<open>The assignment through the base class replaces the code and keeps the class.\<close>

definition Exception_copy_assign :: "ara_exception \<Rightarrow> ara_exception \<Rightarrow> ara_exception" where
  "Exception_copy_assign this other = this\<lparr>error_code := error_code other\<rparr>"

text \<open>
  What can be thrown in the program: an exception of the library, the standard
  library's \<open>future_error\<close> with its code, another class derived from
  \<open>std::exception\<close>, or an object of any other type.
\<close>

datatype cxx_exn =
    AraException ara_exception
  | StdFutureError int
  | StdException string
  | NonStdException

definition ThrowOrTerminate :: "bool \<Rightarrow> exn_class \<Rightarrow> ErrorCode \<Rightarrow> (cxx_exn, 'a) outcome" where
  "ThrowOrTerminate no_exceptions ExceptionType ec =
     (if \<not> no_exceptions then Throws (AraException (Exception_ctor ExceptionType ec))
      else Terminates '''')"

definition ErrorDomain_ThrowAsException ::
  "bool \<Rightarrow> ErrorDomain \<Rightarrow> ErrorCode \<Rightarrow> (cxx_exn, 'a) outcome" where
  "ErrorDomain_ThrowAsException no_exceptions d ec =
     ThrowOrTerminate no_exceptions (vt_Exception d) ec"

definition ErrorCode_ThrowAsException :: "bool \<Rightarrow> ErrorCode \<Rightarrow> (cxx_exn, 'a) outcome" where
  "ErrorCode_ThrowAsException no_exceptions ec =
     obind (ErrorDomain_ThrowAsException no_exceptions (ErrorCode_Domain ec) ec)
       (\<lambda>_ :: unit. Terminates '''')"

section \<open>The printed form\<close>

text \<open>Decimal output of an integer by \<open>operator<<\<close>.\<close>

definition digit_char :: "nat \<Rightarrow> char" where
  "digit_char d = char_of (48 + d)"

fun show_nat :: "nat \<Rightarrow> string" where
  "show_nat n = (if n < 10 then [digit_char n] else show_nat (n div 10) @ [digit_char (n mod 10)])"

declare show_nat.simps [simp del]

definition show_int :: "int \<Rightarrow> string" where
  "show_int i = (if i < 0 then CHR ''-'' # show_nat (nat (- i)) else show_nat (nat i))"

definition ErrorCode_print :: "ErrorCode \<Rightarrow> string" where
  "ErrorCode_print e =
     ErrorDomain_Name (mDomain e) @ '':'' @ show_int (sint (mValue e)) @ '':'' @
     show_int (sint (mSupportData e))"

text \<open>\<open>operator<<\<close> of \<open>future.h\<close>, the one exception class that can be printed.\<close>

definition FutureException_print :: "ara_exception \<Rightarrow> string" where
  "FutureException_print ex =
     ''FutureException: '' @ ErrorCode_print (Exception_Error ex) @ '' ('' @ Exception_what ex @ '')''"

text \<open>Reading decimal digits back.\<close>

definition char_digit :: "char \<Rightarrow> nat" where
  "char_digit c = of_char c - 48"

definition read_nat :: "string \<Rightarrow> nat" where
  "read_nat s = foldl (\<lambda>n c. 10 * n + char_digit c) 0 s"

definition read_int :: "string \<Rightarrow> int" where
  "read_int s =
     (case s of [] \<Rightarrow> 0
      | c # cs \<Rightarrow> if c = CHR ''-'' then - int (read_nat cs) else int (read_nat s))"

lemma char_digit_inverse [simp]: "d < 10 \<Longrightarrow> char_digit (digit_char d) = d"
  by (simp add: char_digit_def digit_char_def)

lemma read_show_nat [simp]: "read_nat (show_nat n) = n"
proof (induction n rule: show_nat.induct)
  case (1 n)
  then show ?case by (subst show_nat.simps) (auto simp: read_nat_def)
qed

definition is_digit :: "char \<Rightarrow> bool" where
  "is_digit c \<longleftrightarrow> 48 \<le> (of_char c :: nat) \<and> (of_char c :: nat) < 58"

lemma digit_char_is_digit [simp]: "d < 10 \<Longrightarrow> is_digit (digit_char d)"
  by (simp add: is_digit_def digit_char_def)

lemma show_nat_digits: "c \<in> set (show_nat n) \<Longrightarrow> is_digit c"
proof (induction n rule: show_nat.induct)
  case (1 n)
  then show ?case by (subst (asm) show_nat.simps) (auto split: if_splits)
qed

lemma show_nat_nonempty: "show_nat n \<noteq> []"
  by (subst show_nat.simps) simp

lemma not_digit: "\<not> is_digit (CHR ''-'')" "\<not> is_digit (CHR '':'')" "\<not> is_digit (CHR '' '')"
  by (simp_all add: is_digit_def)

lemma read_show_int [simp]: "read_int (show_int i) = i"
proof (cases "i < 0")
  case True
  then show ?thesis by (simp add: show_int_def read_int_def)
next
  case False
  obtain c cs where cs: "show_nat (nat i) = c # cs"
    using show_nat_nonempty by (cases "show_nat (nat i)") auto
  then have "is_digit c" using show_nat_digits [of c "nat i"] by simp
  then have "c \<noteq> CHR ''-''" using not_digit(1) by metis
  with False cs read_show_nat [of "nat i"] show ?thesis by (simp add: show_int_def read_int_def)
qed

lemma colon_not_in_show_int: "CHR '':'' \<notin> set (show_int i)"
  using show_nat_digits not_digit(2) by (auto simp: show_int_def)

lemma blank_not_in_show_int: "CHR '' '' \<notin> set (show_int i)"
  using show_nat_digits not_digit(3) by (auto simp: show_int_def)

end
