(* ===== verification/Result.thy ===== *)
theory Result
  imports Variant_Correct Element_Types Error_Code
begin

text \<open>
  The class \<open>Result<T, E>\<close> of \<open>ara/core/result.h\<close> over the model of its member
  \<open>Variant<T, E> mData\<close>. \<open>vops\<close> and \<open>eops\<close> are the operations of the types \<open>T\<close> and \<open>E\<close>. A
  function that returns a reference is modelled by the object it refers to; an
  argument or object that is moved from is returned next to the result.
\<close>

section \<open>The variant of a result\<close>

datatype ('v, 'e) payload = PVal 'v | PErr 'e

datatype result_tag = Tag_T | Tag_E

definition result_types :: "result_tag list" where
  "result_types = [Tag_T, Tag_E]"

fun payload_tag :: "('v, 'e) payload \<Rightarrow> result_tag" where
  "payload_tag (PVal v) = Tag_T"
| "payload_tag (PErr e) = Tag_E"

text \<open>The element operations of \<open>Variant<T, E>\<close>, from those of \<open>T\<close> and \<open>E\<close>.\<close>

definition result_ops ::
  "('x, unit, 'v) elem_ops \<Rightarrow> ('x, unit, 'e) elem_ops \<Rightarrow> ('x, result_tag, ('v, 'e) payload) elem_ops" where
  "result_ops vops eops =
     \<lparr>type_of = payload_tag,
      copy_ctor = (\<lambda>p. case p of
          PVal v \<Rightarrow> obind (copy_ctor vops v) (\<lambda>n. Ret (PVal n))
        | PErr e \<Rightarrow> obind (copy_ctor eops e) (\<lambda>n. Ret (PErr n))),
      move_ctor = (\<lambda>p. case p of
          PVal v \<Rightarrow> obind (move_ctor vops v) (\<lambda>(n, v'). Ret (PVal n, PVal v'))
        | PErr e \<Rightarrow> obind (move_ctor eops e) (\<lambda>(n, e'). Ret (PErr n, PErr e'))),
      copy_asgn = (\<lambda>d p. case (d, p) of
          (PVal u, PVal v) \<Rightarrow> obind (copy_asgn vops u v) (\<lambda>n. Ret (PVal n))
        | (PErr u, PErr e) \<Rightarrow> obind (copy_asgn eops u e) (\<lambda>n. Ret (PErr n))
        | (_, PVal v) \<Rightarrow> obind (copy_ctor vops v) (\<lambda>n. Ret (PVal n))
        | (_, PErr e) \<Rightarrow> obind (copy_ctor eops e) (\<lambda>n. Ret (PErr n))),
      move_asgn = (\<lambda>d p. case (d, p) of
          (PVal u, PVal v) \<Rightarrow> obind (move_asgn vops u v) (\<lambda>(n, v'). Ret (PVal n, PVal v'))
        | (PErr u, PErr e) \<Rightarrow> obind (move_asgn eops u e) (\<lambda>(n, e'). Ret (PErr n, PErr e'))
        | (_, PVal v) \<Rightarrow> obind (move_ctor vops v) (\<lambda>(n, v'). Ret (PVal n, PVal v'))
        | (_, PErr e) \<Rightarrow> obind (move_ctor eops e) (\<lambda>(n, e'). Ret (PErr n, PErr e'))),
      conv_ctor = (\<lambda>_ _. Undefined)\<rparr>"

text \<open>
  Every constructor call in the class passes a \<open>T\<close> or an \<open>E\<close>, a direct match for one
  alternative, so implicit conversions play no part (\<open>no_conv\<close>).
\<close>

definition no_conv :: "result_tag \<Rightarrow> result_tag \<Rightarrow> bool" where
  "no_conv _ _ = False"

fun compiled :: "('x, 'a) outcome option \<Rightarrow> ('x, 'a) outcome" where
  "compiled (Some r) = r"
| "compiled None = Undefined"

fun as_T :: "('v, 'e) payload \<Rightarrow> ('x, 'v) outcome" where
  "as_T (PVal v) = Ret v"
| "as_T (PErr e) = Undefined"

fun as_E :: "('v, 'e) payload \<Rightarrow> ('x, 'e) outcome" where
  "as_E (PErr e) = Ret e"
| "as_E (PVal v) = Undefined"

text \<open>\<open>*ptr\<close> for a pointer into the storage of the variant.\<close>

definition load_T ::
  "('x, unit, 'v) elem_ops \<Rightarrow> ('x, unit, 'e) elem_ops \<Rightarrow> ('v, 'e) payload storage \<Rightarrow> ('x, 'v) outcome" where
  "load_T vops eops ptr = obind (deref (result_ops vops eops) Tag_T ptr) as_T"

definition load_E ::
  "('x, unit, 'v) elem_ops \<Rightarrow> ('x, unit, 'e) elem_ops \<Rightarrow> ('v, 'e) payload storage \<Rightarrow> ('x, 'e) outcome" where
  "load_E vops eops ptr = obind (deref (result_ops vops eops) Tag_E ptr) as_E"

section \<open>State and construction\<close>

record ('v, 'e) Result =
  mData :: "('v, 'e) payload variant"

definition Result_of_value_lvalue ::
  "('x, unit, 'v) elem_ops \<Rightarrow> ('x, unit, 'e) elem_ops \<Rightarrow> 'v \<Rightarrow> ('x, ('v, 'e) Result) outcome" where
  "Result_of_value_lvalue vops eops t =
     obind (compiled (Variant_converting_ctor (result_ops vops eops) no_conv result_types LValue (PVal t)))
       (\<lambda>(d, _). Ret \<lparr>mData = d\<rparr>)"

definition Result_of_value_rvalue ::
  "('x, unit, 'v) elem_ops \<Rightarrow> ('x, unit, 'e) elem_ops \<Rightarrow> 'v \<Rightarrow> ('x, ('v, 'e) Result \<times> 'v) outcome" where
  "Result_of_value_rvalue vops eops t =
     obind (compiled (Variant_converting_ctor (result_ops vops eops) no_conv result_types RValue (PVal t)))
       (\<lambda>(d, p). obind (as_T p) (\<lambda>t'. Ret (\<lparr>mData = d\<rparr>, t')))"

definition Result_of_error_lvalue ::
  "('x, unit, 'v) elem_ops \<Rightarrow> ('x, unit, 'e) elem_ops \<Rightarrow> 'e \<Rightarrow> ('x, ('v, 'e) Result) outcome" where
  "Result_of_error_lvalue vops eops e =
     obind (compiled (Variant_converting_ctor (result_ops vops eops) no_conv result_types LValue (PErr e)))
       (\<lambda>(d, _). Ret \<lparr>mData = d\<rparr>)"

definition Result_of_error_rvalue ::
  "('x, unit, 'v) elem_ops \<Rightarrow> ('x, unit, 'e) elem_ops \<Rightarrow> 'e \<Rightarrow> ('x, ('v, 'e) Result \<times> 'e) outcome" where
  "Result_of_error_rvalue vops eops e =
     obind (compiled (Variant_converting_ctor (result_ops vops eops) no_conv result_types RValue (PErr e)))
       (\<lambda>(d, p). obind (as_E p) (\<lambda>e'. Ret (\<lparr>mData = d\<rparr>, e')))"

definition FromValue_lvalue ::
  "('x, unit, 'v) elem_ops \<Rightarrow> ('x, unit, 'e) elem_ops \<Rightarrow> 'v \<Rightarrow> ('x, ('v, 'e) Result) outcome" where
  "FromValue_lvalue vops eops t = Result_of_value_lvalue vops eops t"

definition FromValue_rvalue ::
  "('x, unit, 'v) elem_ops \<Rightarrow> ('x, unit, 'e) elem_ops \<Rightarrow> 'v \<Rightarrow> ('x, ('v, 'e) Result \<times> 'v) outcome" where
  "FromValue_rvalue vops eops t = Result_of_value_rvalue vops eops t"

text \<open>\<open>mk\<close> is \<open>T { args... }\<close> (\<open>E { args... }\<close>); the temporary is moved from.\<close>

definition FromValue_args ::
  "('x, unit, 'v) elem_ops \<Rightarrow> ('x, unit, 'e) elem_ops \<Rightarrow> ('x, 'v) outcome \<Rightarrow> ('x, ('v, 'e) Result) outcome" where
  "FromValue_args vops eops mk =
     obind mk (\<lambda>t. obind (Result_of_value_rvalue vops eops t) (\<lambda>(r, _). Ret r))"

definition FromError_lvalue ::
  "('x, unit, 'v) elem_ops \<Rightarrow> ('x, unit, 'e) elem_ops \<Rightarrow> 'e \<Rightarrow> ('x, ('v, 'e) Result) outcome" where
  "FromError_lvalue vops eops e = Result_of_error_lvalue vops eops e"

definition FromError_rvalue ::
  "('x, unit, 'v) elem_ops \<Rightarrow> ('x, unit, 'e) elem_ops \<Rightarrow> 'e \<Rightarrow> ('x, ('v, 'e) Result \<times> 'e) outcome" where
  "FromError_rvalue vops eops e = Result_of_error_rvalue vops eops e"

definition FromError_args ::
  "('x, unit, 'v) elem_ops \<Rightarrow> ('x, unit, 'e) elem_ops \<Rightarrow> ('x, 'e) outcome \<Rightarrow> ('x, ('v, 'e) Result) outcome" where
  "FromError_args vops eops mk =
     obind mk (\<lambda>e. obind (Result_of_error_rvalue vops eops e) (\<lambda>(r, _). Ret r))"

section \<open>Copy, move, destruction\<close>

definition Result_copy_ctor ::
  "('x, unit, 'v) elem_ops \<Rightarrow> ('x, unit, 'e) elem_ops \<Rightarrow> ('v, 'e) Result \<Rightarrow> ('x, ('v, 'e) Result) outcome" where
  "Result_copy_ctor vops eops other =
     obind (Variant_copy_ctor (result_ops vops eops) result_types (mData other))
       (\<lambda>d. Ret \<lparr>mData = d\<rparr>)"

definition Result_move_ctor ::
  "('x, unit, 'v) elem_ops \<Rightarrow> ('x, unit, 'e) elem_ops \<Rightarrow> ('v, 'e) Result \<Rightarrow>
   ('x, ('v, 'e) Result \<times> ('v, 'e) Result) outcome" where
  "Result_move_ctor vops eops other =
     obind (Variant_move_ctor (result_ops vops eops) result_types (mData other))
       (\<lambda>(d, o'). Ret (\<lparr>mData = d\<rparr>, other\<lparr>mData := o'\<rparr>))"

definition Result_dtor ::
  "('x, unit, 'v) elem_ops \<Rightarrow> ('x, unit, 'e) elem_ops \<Rightarrow> ('v, 'e) Result \<Rightarrow> ('x, ('v, 'e) Result) outcome" where
  "Result_dtor vops eops this =
     obind (Variant_dtor (result_ops vops eops) result_types (mData this)) (\<lambda>d. Ret (this\<lparr>mData := d\<rparr>))"

definition Result_copy_assign ::
  "('x, unit, 'v) elem_ops \<Rightarrow> ('x, unit, 'e) elem_ops \<Rightarrow> bool \<Rightarrow> ('v, 'e) Result \<Rightarrow> ('v, 'e) Result \<Rightarrow>
   ('x, ('v, 'e) Result) outcome" where
  "Result_copy_assign vops eops self this other =
     obind (Variant_copy_assign (result_ops vops eops) result_types self (mData this) (mData other))
       (\<lambda>d. Ret (this\<lparr>mData := d\<rparr>))"

definition Result_move_assign ::
  "('x, unit, 'v) elem_ops \<Rightarrow> ('x, unit, 'e) elem_ops \<Rightarrow> bool \<Rightarrow> ('v, 'e) Result \<Rightarrow> ('v, 'e) Result \<Rightarrow>
   ('x, ('v, 'e) Result \<times> ('v, 'e) Result) outcome" where
  "Result_move_assign vops eops self this other =
     obind (Variant_move_assign (result_ops vops eops) result_types self (mData this) (mData other))
       (\<lambda>(d, o'). Ret (this\<lparr>mData := d\<rparr>, other\<lparr>mData := o'\<rparr>))"

definition EmplaceValue ::
  "('x, unit, 'v) elem_ops \<Rightarrow> ('x, unit, 'e) elem_ops \<Rightarrow> ('x, 'v) outcome \<Rightarrow> ('v, 'e) Result \<Rightarrow>
   ('x, ('v, 'e) Result) outcome" where
  "EmplaceValue vops eops mk this =
     obind (compiled (Variant_emplace_type (result_ops vops eops) result_types Tag_T
              (\<lambda>_. obind mk (\<lambda>n. Ret (PVal n))) (mData this)))
       (\<lambda>d. Ret (this\<lparr>mData := d\<rparr>))"

definition EmplaceError ::
  "('x, unit, 'v) elem_ops \<Rightarrow> ('x, unit, 'e) elem_ops \<Rightarrow> ('x, 'e) outcome \<Rightarrow> ('v, 'e) Result \<Rightarrow>
   ('x, ('v, 'e) Result) outcome" where
  "EmplaceError vops eops mk this =
     obind (compiled (Variant_emplace_type (result_ops vops eops) result_types Tag_E
              (\<lambda>_. obind mk (\<lambda>n. Ret (PErr n))) (mData this)))
       (\<lambda>d. Ret (this\<lparr>mData := d\<rparr>))"

definition Result_Swap ::
  "('x, unit, 'v) elem_ops \<Rightarrow> ('x, unit, 'e) elem_ops \<Rightarrow> bool \<Rightarrow> ('v, 'e) Result \<Rightarrow> ('v, 'e) Result \<Rightarrow>
   ('x, ('v, 'e) Result \<times> ('v, 'e) Result) outcome" where
  "Result_Swap vops eops self this other =
     obind (std_swap_variant (result_ops vops eops) result_types self (mData this) (mData other))
       (\<lambda>(d, o'). Ret (this\<lparr>mData := d\<rparr>, other\<lparr>mData := o'\<rparr>))"

definition Result_swap_free ::
  "('x, unit, 'v) elem_ops \<Rightarrow> ('x, unit, 'e) elem_ops \<Rightarrow> bool \<Rightarrow> ('v, 'e) Result \<Rightarrow> ('v, 'e) Result \<Rightarrow>
   ('x, ('v, 'e) Result \<times> ('v, 'e) Result) outcome" where
  "Result_swap_free vops eops self lhs rhs = Result_Swap vops eops self lhs rhs"

section \<open>Observers\<close>

definition HasValue :: "('v, 'e) Result \<Rightarrow> bool" where
  "HasValue this = (Variant_index (mData this) = 0)"

definition Result_bool :: "('v, 'e) Result \<Rightarrow> bool" where
  "Result_bool this = HasValue this"

text \<open>
  \<open>get_if\<close> compiles for both alternatives; \<open>the_ptr\<close> is the pointer it returns, \<open>None\<close> the
  null pointer. The message goes to \<open>std::cout\<close> before \<open>std::terminate\<close>.
\<close>

definition the_ptr :: "'a option option \<Rightarrow> 'a option" where
  "the_ptr p = Option.bind p (\<lambda>q. q)"

definition Value_const ::
  "('x, unit, 'v) elem_ops \<Rightarrow> ('x, unit, 'e) elem_ops \<Rightarrow> ('v, 'e) Result \<Rightarrow> ('x, 'v) outcome" where
  "Value_const vops eops this =
     (case the_ptr (get_if_const result_types Tag_T (mData this)) of
        Some ptr \<Rightarrow> load_T vops eops ptr
      | None \<Rightarrow> Terminates ''__ value() called but NOT a value!'')"

definition Value_rvalue ::
  "('x, unit, 'v) elem_ops \<Rightarrow> ('x, unit, 'e) elem_ops \<Rightarrow> ('v, 'e) Result \<Rightarrow> ('x, 'v) outcome" where
  "Value_rvalue vops eops this =
     (case the_ptr (get_if result_types Tag_T (mData this)) of
        Some ptr \<Rightarrow> load_T vops eops ptr
      | None \<Rightarrow> Terminates ''__ value() called but NOT a value!'')"

definition Error_const ::
  "('x, unit, 'v) elem_ops \<Rightarrow> ('x, unit, 'e) elem_ops \<Rightarrow> ('v, 'e) Result \<Rightarrow> ('x, 'e) outcome" where
  "Error_const vops eops this =
     (case the_ptr (get_if_const result_types Tag_E (mData this)) of
        Some ptr \<Rightarrow> load_E vops eops ptr
      | None \<Rightarrow> Terminates ''__ error() called but NOT an error!'')"

definition Error_rvalue ::
  "('x, unit, 'v) elem_ops \<Rightarrow> ('x, unit, 'e) elem_ops \<Rightarrow> ('v, 'e) Result \<Rightarrow> ('x, 'e) outcome" where
  "Error_rvalue vops eops this =
     (case the_ptr (get_if result_types Tag_E (mData this)) of
        Some ptr \<Rightarrow> load_E vops eops ptr
      | None \<Rightarrow> Terminates ''__ error() called but NOT an error!'')"

definition Result_deref_const ::
  "('x, unit, 'v) elem_ops \<Rightarrow> ('x, unit, 'e) elem_ops \<Rightarrow> ('v, 'e) Result \<Rightarrow> ('x, 'v) outcome" where
  "Result_deref_const vops eops this = Value_const vops eops this"

definition Result_deref_rvalue ::
  "('x, unit, 'v) elem_ops \<Rightarrow> ('x, unit, 'e) elem_ops \<Rightarrow> ('v, 'e) Result \<Rightarrow> ('x, 'v) outcome" where
  "Result_deref_rvalue vops eops this = Value_rvalue vops eops this"

definition Result_arrow ::
  "('x, unit, 'v) elem_ops \<Rightarrow> ('x, unit, 'e) elem_ops \<Rightarrow> ('v, 'e) Result \<Rightarrow> ('x, 'v) outcome" where
  "Result_arrow vops eops this = Value_const vops eops this"

text \<open>
  \<open>dflt\<close> is \<open>static_cast<T>\<close> of the argument. In the overload for rvalues \<open>Value()\<close> is called on
  \<open>*this\<close>, an lvalue, and yields a reference to \<open>const\<close>: the value is copied there too.
\<close>

definition ValueOr_const ::
  "('x, unit, 'v) elem_ops \<Rightarrow> ('x, unit, 'e) elem_ops \<Rightarrow> ('x, 'v) outcome \<Rightarrow> ('v, 'e) Result \<Rightarrow> ('x, 'v) outcome" where
  "ValueOr_const vops eops dflt this =
     (if HasValue this then obind (Value_const vops eops this) (copy_ctor vops) else dflt)"

definition ValueOr_rvalue ::
  "('x, unit, 'v) elem_ops \<Rightarrow> ('x, unit, 'e) elem_ops \<Rightarrow> ('x, 'v) outcome \<Rightarrow> ('v, 'e) Result \<Rightarrow> ('x, 'v) outcome" where
  "ValueOr_rvalue vops eops dflt this =
     (if HasValue this then obind (Value_const vops eops this) (copy_ctor vops) else dflt)"

definition ErrorOr ::
  "('x, unit, 'v) elem_ops \<Rightarrow> ('x, unit, 'e) elem_ops \<Rightarrow> ('x, 'e) outcome \<Rightarrow> ('v, 'e) Result \<Rightarrow> ('x, 'e) outcome" where
  "ErrorOr vops eops dflt this =
     (if HasValue this then dflt else obind (Error_const vops eops this) (copy_ctor eops))"

definition CheckError ::
  "('x, unit, 'v) elem_ops \<Rightarrow> ('x, unit, 'e) elem_ops \<Rightarrow> ('e \<Rightarrow> 'e \<Rightarrow> bool) \<Rightarrow> ('x, 'e) outcome \<Rightarrow> ('v, 'e) Result \<Rightarrow> ('x, bool) outcome" where
  "CheckError vops eops eq_E e this =
     (if HasValue this then Ret False
      else obind (Error_const vops eops this) (\<lambda>err. obind e (\<lambda>g. Ret (eq_E err g))))"

text \<open>
  \<open>throw_E\<close> is \<open>E::ThrowAsException\<close>. The error pointer is not tested: it is null when the
  variant holds no alternative. Control must not reach the end of the function.
\<close>

definition ValueOrThrow_const ::
  "('x, unit, 'v) elem_ops \<Rightarrow> ('x, unit, 'e) elem_ops \<Rightarrow> ('e \<Rightarrow> ('x, unit) outcome) \<Rightarrow> ('v, 'e) Result \<Rightarrow> ('x, 'v) outcome" where
  "ValueOrThrow_const vops eops throw_E this =
     (case the_ptr (get_if_const result_types Tag_T (mData this)) of
        Some ptr \<Rightarrow> load_T vops eops ptr
      | None \<Rightarrow>
          (case the_ptr (get_if_const result_types Tag_E (mData this)) of
             Some e \<Rightarrow> obind (load_E vops eops e) (\<lambda>err. obind (throw_E err) (\<lambda>_. Undefined))
           | None \<Rightarrow> Undefined))"

definition ValueOrThrow_rvalue ::
  "('x, unit, 'v) elem_ops \<Rightarrow> ('x, unit, 'e) elem_ops \<Rightarrow> ('e \<Rightarrow> ('x, unit) outcome) \<Rightarrow> ('v, 'e) Result \<Rightarrow> ('x, 'v) outcome" where
  "ValueOrThrow_rvalue vops eops throw_E this =
     (case the_ptr (get_if result_types Tag_T (mData this)) of
        Some ptr \<Rightarrow> load_T vops eops ptr
      | None \<Rightarrow>
          (case the_ptr (get_if result_types Tag_E (mData this)) of
             Some e \<Rightarrow> obind (load_E vops eops e) (\<lambda>err. obind (throw_E err) (\<lambda>_. Undefined))
           | None \<Rightarrow> Undefined))"

definition Resolve ::
  "('x, unit, 'v) elem_ops \<Rightarrow> ('x, unit, 'e) elem_ops \<Rightarrow> ('e \<Rightarrow> ('x, 'v) outcome) \<Rightarrow> ('v, 'e) Result \<Rightarrow> ('x, 'v) outcome" where
  "Resolve vops eops f this =
     (if HasValue this then obind (Value_const vops eops this) (copy_ctor vops)
      else obind (Error_const vops eops this) f)"

definition Bind_result ::
  "('x, unit, 'v) elem_ops \<Rightarrow> ('x, unit, 'e) elem_ops \<Rightarrow> ('x, unit, 'u) elem_ops \<Rightarrow>
   ('v \<Rightarrow> ('x, ('u, 'e) Result) outcome) \<Rightarrow> ('v, 'e) Result \<Rightarrow> ('x, ('u, 'e) Result) outcome" where
  "Bind_result vops eops uops f this =
     (if HasValue this then obind (Value_const vops eops this) f
      else obind (Error_const vops eops this) (Result_of_error_lvalue uops eops))"

definition Bind_value ::
  "('x, unit, 'v) elem_ops \<Rightarrow> ('x, unit, 'e) elem_ops \<Rightarrow> ('x, unit, 'u) elem_ops \<Rightarrow>
   ('v \<Rightarrow> ('x, 'u) outcome) \<Rightarrow> ('v, 'e) Result \<Rightarrow> ('x, ('u, 'e) Result) outcome" where
  "Bind_value vops eops uops f this =
     (if HasValue this
      then obind (Value_const vops eops this) (\<lambda>v. obind (f v) (\<lambda>u.
             obind (Result_of_value_rvalue uops eops u) (\<lambda>(r, _). Ret r)))
      else obind (Error_const vops eops this) (Result_of_error_lvalue uops eops))"

section \<open>Comparison\<close>

text \<open>\<open>op_T\<close> and \<open>op_E\<close> are \<open>operator==\<close> (\<open>operator!=\<close>) of \<open>T\<close> and \<open>E\<close>.\<close>

definition Result_eq ::
  "('x, unit, 'v) elem_ops \<Rightarrow> ('x, unit, 'e) elem_ops \<Rightarrow> ('v \<Rightarrow> 'v \<Rightarrow> bool) \<Rightarrow> ('e \<Rightarrow> 'e \<Rightarrow> bool) \<Rightarrow>
   ('v, 'e) Result \<Rightarrow> ('v, 'e) Result \<Rightarrow> ('x, bool) outcome" where
  "Result_eq vops eops op_T op_E lhs rhs =
     (if Result_bool lhs \<noteq> Result_bool rhs then Ret False
      else if Result_bool lhs
      then obind (Value_const vops eops lhs) (\<lambda>a. obind (Value_const vops eops rhs) (\<lambda>b. Ret (op_T a b)))
      else obind (Error_const vops eops lhs) (\<lambda>a. obind (Error_const vops eops rhs) (\<lambda>b. Ret (op_E a b))))"

definition Result_neq ::
  "('x, unit, 'v) elem_ops \<Rightarrow> ('x, unit, 'e) elem_ops \<Rightarrow> ('v \<Rightarrow> 'v \<Rightarrow> bool) \<Rightarrow> ('e \<Rightarrow> 'e \<Rightarrow> bool) \<Rightarrow>
   ('v, 'e) Result \<Rightarrow> ('v, 'e) Result \<Rightarrow> ('x, bool) outcome" where
  "Result_neq vops eops op_T op_E lhs rhs =
     (if Result_bool lhs \<noteq> Result_bool rhs then Ret True
      else if Result_bool lhs
      then obind (Value_const vops eops lhs) (\<lambda>a. obind (Value_const vops eops rhs) (\<lambda>b. Ret (op_T a b)))
      else obind (Error_const vops eops lhs) (\<lambda>a. obind (Error_const vops eops rhs) (\<lambda>b. Ret (op_E a b))))"

definition Result_eq_value ::
  "('x, unit, 'v) elem_ops \<Rightarrow> ('x, unit, 'e) elem_ops \<Rightarrow> ('v \<Rightarrow> 'v \<Rightarrow> bool) \<Rightarrow> ('v, 'e) Result \<Rightarrow> 'v \<Rightarrow> ('x, bool) outcome" where
  "Result_eq_value vops eops op_T lhs v =
     (if Result_bool lhs then obind (Result_deref_const vops eops lhs) (\<lambda>a. Ret (op_T a v)) else Ret False)"

definition value_eq_Result ::
  "('x, unit, 'v) elem_ops \<Rightarrow> ('x, unit, 'e) elem_ops \<Rightarrow> ('v \<Rightarrow> 'v \<Rightarrow> bool) \<Rightarrow> 'v \<Rightarrow> ('v, 'e) Result \<Rightarrow> ('x, bool) outcome" where
  "value_eq_Result vops eops op_T v rhs =
     (if Result_bool rhs then obind (Result_deref_const vops eops rhs) (\<lambda>a. Ret (op_T v a)) else Ret False)"

definition Result_neq_value ::
  "('x, unit, 'v) elem_ops \<Rightarrow> ('x, unit, 'e) elem_ops \<Rightarrow> ('v \<Rightarrow> 'v \<Rightarrow> bool) \<Rightarrow> ('v, 'e) Result \<Rightarrow> 'v \<Rightarrow> ('x, bool) outcome" where
  "Result_neq_value vops eops op_T lhs v =
     (if Result_bool lhs then obind (Result_deref_const vops eops lhs) (\<lambda>a. Ret (op_T a v)) else Ret True)"

definition value_neq_Result ::
  "('x, unit, 'v) elem_ops \<Rightarrow> ('x, unit, 'e) elem_ops \<Rightarrow> ('v \<Rightarrow> 'v \<Rightarrow> bool) \<Rightarrow> 'v \<Rightarrow> ('v, 'e) Result \<Rightarrow> ('x, bool) outcome" where
  "value_neq_Result vops eops op_T v rhs =
     (if Result_bool rhs then obind (Result_deref_const vops eops rhs) (\<lambda>a. Ret (op_T v a)) else Ret True)"

definition Result_eq_error ::
  "('x, unit, 'v) elem_ops \<Rightarrow> ('x, unit, 'e) elem_ops \<Rightarrow> ('e \<Rightarrow> 'e \<Rightarrow> bool) \<Rightarrow> ('v, 'e) Result \<Rightarrow> 'e \<Rightarrow> ('x, bool) outcome" where
  "Result_eq_error vops eops op_E lhs err =
     (if Result_bool lhs then Ret False else obind (Error_const vops eops lhs) (\<lambda>a. Ret (op_E a err)))"

definition error_eq_Result ::
  "('x, unit, 'v) elem_ops \<Rightarrow> ('x, unit, 'e) elem_ops \<Rightarrow> ('e \<Rightarrow> 'e \<Rightarrow> bool) \<Rightarrow> 'e \<Rightarrow> ('v, 'e) Result \<Rightarrow> ('x, bool) outcome" where
  "error_eq_Result vops eops op_E err rhs =
     (if Result_bool rhs then Ret False else obind (Error_const vops eops rhs) (\<lambda>a. Ret (op_E err a)))"

definition Result_neq_error ::
  "('x, unit, 'v) elem_ops \<Rightarrow> ('x, unit, 'e) elem_ops \<Rightarrow> ('e \<Rightarrow> 'e \<Rightarrow> bool) \<Rightarrow> ('v, 'e) Result \<Rightarrow> 'e \<Rightarrow> ('x, bool) outcome" where
  "Result_neq_error vops eops op_E lhs err =
     (if Result_bool lhs then Ret True else obind (Error_const vops eops lhs) (\<lambda>a. Ret (op_E a err)))"

definition error_neq_Result ::
  "('x, unit, 'v) elem_ops \<Rightarrow> ('x, unit, 'e) elem_ops \<Rightarrow> ('e \<Rightarrow> 'e \<Rightarrow> bool) \<Rightarrow> 'e \<Rightarrow> ('v, 'e) Result \<Rightarrow> ('x, bool) outcome" where
  "error_neq_Result vops eops op_E err rhs =
     (if Result_bool rhs then Ret True else obind (Error_const vops eops rhs) (\<lambda>a. Ret (op_E err a)))"

end
