(* ===== verification/Result_Correct.thy ===== *)
theory Result_Correct
  imports Result
begin

text \<open>
  Correctness of \<open>Result<T, E>\<close>. The abstract value of a result is a value, an error or, when
  it was moved from, nothing. Every operation on well-formed results implements the
  corresponding function on abstract values.
\<close>

section \<open>Lawful value and error types\<close>

locale result_elems = V: regular_elems vops mv + E: regular_elems eops me
  for vops :: "('x, unit, 'v) elem_ops" and mv :: "'v \<Rightarrow> 'v"
    and eops :: "('x, unit, 'e) elem_ops" and me :: "'e \<Rightarrow> 'e"

sublocale result_elems \<subseteq> R: variant_elems "result_ops vops eops" "map_payload mv me" result_types
proof
  fix v d :: "('v, 'e) payload"
  show "copy_ctor (result_ops vops eops) v = Ret v"
    by (cases v) (simp_all add: result_ops_def)
  show "move_ctor (result_ops vops eops) v = Ret (v, map_payload mv me v)"
    by (cases v) (simp_all add: result_ops_def)
  show "copy_asgn (result_ops vops eops) d v = Ret v"
    by (cases d; cases v) (simp_all add: result_ops_def)
  show "move_asgn (result_ops vops eops) d v = Ret (v, map_payload mv me v)"
    by (cases d; cases v) (simp_all add: result_ops_def)
  show "type_of (result_ops vops eops) (map_payload mv me v) = type_of (result_ops vops eops) v"
    by (cases v) (simp_all add: result_ops_def)
qed (simp_all add: result_types_def)

interpretation scalar_result: result_elems scalar_ops "\<lambda>v. v" scalar_ops "\<lambda>e. e"
  by unfold_locales

interpretation String_result: result_elems String_ops "\<lambda>_. ''''" scalar_ops "\<lambda>e. e"
  by unfold_locales

section \<open>Invariant and abstraction\<close>

datatype ('v, 'e) rslt = HasV 'v | HasE 'e | Empty

fun alt_of :: "('v, 'e) rslt \<Rightarrow> (nat \<times> ('v, 'e) payload) option" where
  "alt_of (HasV v) = Some (0, PVal v)"
| "alt_of (HasE e) = Some (1, PErr e)"
| "alt_of Empty = None"

definition Result_abs :: "('v, 'e) Result \<Rightarrow> ('v, 'e) rslt" where
  "Result_abs r =
     (case Variant_alt (mData r) of
        Some (_, PVal v) \<Rightarrow> HasV v
      | Some (_, PErr e) \<Rightarrow> HasE e
      | None \<Rightarrow> Empty)"

definition Result_wf :: "('v, 'e) Result \<Rightarrow> bool" where
  "Result_wf r \<longleftrightarrow>
     m_type_index (mData r) = INVALID_VARIANT_INDEX \<or>
     (\<exists>v. m_type_index (mData r) = 0 \<and> bytes (m_storage (mData r)) = Live (PVal v)) \<or>
     (\<exists>e. m_type_index (mData r) = 1 \<and> bytes (m_storage (mData r)) = Live (PErr e))"

text \<open>A new result, a result that was assigned to, and one that was moved from.\<close>

definition Result_rep :: "('v, 'e) rslt \<Rightarrow> ('v, 'e) Result" where
  "Result_rep a = \<lparr>mData = set_alt Variant_default (alt_of a)\<rparr>"

definition Result_set :: "('v, 'e) Result \<Rightarrow> ('v, 'e) rslt \<Rightarrow> ('v, 'e) Result" where
  "Result_set r a = r\<lparr>mData := set_alt (mData r) (alt_of a)\<rparr>"

definition Result_moved :: "('v \<Rightarrow> 'v) \<Rightarrow> ('e \<Rightarrow> 'e) \<Rightarrow> ('v, 'e) Result \<Rightarrow> ('v, 'e) Result" where
  "Result_moved mv me r = r\<lparr>mData := moved_from (map_payload mv me) (mData r)\<rparr>"

lemma INVALID_neq [simp]: "INVALID_VARIANT_INDEX \<noteq> 0" "INVALID_VARIANT_INDEX \<noteq> 1"
  "0 \<noteq> INVALID_VARIANT_INDEX" "1 \<noteq> INVALID_VARIANT_INDEX"
  by (simp_all add: INVALID_VARIANT_INDEX_def)

lemma result_types_simps [simp]:
  "Tag_T \<in> set result_types" "Tag_E \<in> set result_types" "length result_types = 2"
  "result_types ! 0 = Tag_T" "result_types ! Suc 0 = Tag_E"
  "first_index Tag_T result_types = 0" "first_index Tag_E result_types = 1"
  by (simp_all add: result_types_def)

lemma result_ops_type [simp]: "type_of (result_ops vops eops) = payload_tag"
  by (simp add: result_ops_def)

lemma Result_wf_cases [consumes 1, case_names HasV HasE Empty]:
  assumes "Result_wf r"
  obtains v where "holds (result_ops vops eops) result_types (mData r) 0 (PVal v)" "Result_abs r = HasV v"
  | e where "holds (result_ops vops eops) result_types (mData r) 1 (PErr e)" "Result_abs r = HasE e"
  | "valueless (mData r)" "Result_abs r = Empty"
  using assms
  by (fastforce simp: Result_wf_def holds_def valueless_def Result_abs_def Variant_alt_def)

lemma Result_wf_Variant: "Result_wf r \<longleftrightarrow> Variant_wf (result_ops vops eops) result_types (mData r)"
proof
  assume "Result_wf r"
  then show "Variant_wf (result_ops vops eops) result_types (mData r)"
    by (cases rule: Result_wf_cases [of _ vops eops]) (auto simp: Variant_wf_def)
next
  assume "Variant_wf (result_ops vops eops) result_types (mData r)"
  then show "Result_wf r"
  proof (cases rule: Variant_wf_cases)
    case valueless
    then show ?thesis by (simp add: Result_wf_def valueless_def)
  next
    case (holds i x)
    then have "i = 0 \<or> i = 1" by (auto simp: holds_def)
    with holds show ?thesis by (cases x) (auto simp: holds_def Result_wf_def)
  qed
qed

lemma alt_Result: "Result_wf r \<Longrightarrow> Variant_alt (mData r) = alt_of (Result_abs r)"
  by (auto simp: Result_wf_def Result_abs_def Variant_alt_def)

lemma alt_of_typed [simp]: "typed_alt (result_ops vops eops) result_types (alt_of a)"
  by (cases a) (simp_all add: typed_alt_def)

lemma Result_abs_alt: "Variant_alt (mData r) = alt_of a \<Longrightarrow> Result_abs r = a"
  by (cases a) (simp_all add: Result_abs_def)

lemma Result_set_simps [simp]: "Result_wf (Result_set r a)" "Result_abs (Result_set r a) = a"
proof -
  show "Result_wf (Result_set r a)"
    by (rule iffD2 [OF Result_wf_Variant])
      (simp add: Result_set_def, rule scalar_result.R.set_alt_wf, rule alt_of_typed)
  show "Result_abs (Result_set r a) = a"
    by (rule Result_abs_alt) (simp add: Result_set_def scalar_result.R.set_alt_alt)
qed

lemma Result_rep_set: "Result_rep a = Result_set \<lparr>mData = Variant_default\<rparr> a"
  by (simp add: Result_rep_def Result_set_def)

lemma Result_rep_simps [simp]: "Result_wf (Result_rep a)" "Result_abs (Result_rep a) = a"
  by (simp_all add: Result_rep_set)

lemma Result_moved_simps [simp]:
  "Result_wf (Result_moved mv me r)" "Result_abs (Result_moved mv me r) = Empty"
  using scalar_result.R.moved_from_valueless [of "map_payload mv me" "mData r"]
  by (simp_all add: Result_moved_def Result_wf_def valueless_def Result_abs_def)

section \<open>Observers\<close>

lemma HasValue_abs: "Result_wf r \<Longrightarrow> HasValue r \<longleftrightarrow> (\<exists>v. Result_abs r = HasV v)"
  by (auto simp: Result_wf_def HasValue_def Variant_index_def Result_abs_def Variant_alt_def)

lemmas Result_bool_abs = HasValue_abs [folded Result_bool_def]

lemma get_if_T:
  assumes "Result_wf r"
  shows "the_ptr (get_if_const result_types Tag_T (mData r)) =
    (case Result_abs r of HasV v \<Rightarrow> Some (m_storage (mData r)) | _ \<Rightarrow> None)"
proof -
  have "Variant_wf (result_ops scalar_ops scalar_ops) result_types (mData r)"
    using assms by (simp add: Result_wf_Variant [symmetric])
  note get = scalar_result.R.get_eq [OF this result_types_simps(1)]
  show ?thesis
    by (cases "Result_abs r") (simp_all add: the_ptr_def get_if_const_def get alt_Result [OF assms])
qed

lemma get_if_E:
  assumes "Result_wf r"
  shows "the_ptr (get_if_const result_types Tag_E (mData r)) =
    (case Result_abs r of HasE e \<Rightarrow> Some (m_storage (mData r)) | _ \<Rightarrow> None)"
proof -
  have "Variant_wf (result_ops scalar_ops scalar_ops) result_types (mData r)"
    using assms by (simp add: Result_wf_Variant [symmetric])
  note get = scalar_result.R.get_eq [OF this result_types_simps(2)]
  show ?thesis
    by (cases "Result_abs r") (simp_all add: the_ptr_def get_if_const_def get alt_Result [OF assms])
qed

lemma get_if_eq: "get_if = get_if_const"
  by (intro ext) (simp add: get_if_def get_if_const_def Variant_get_def)

lemma load_abs:
  assumes "Result_wf r"
  shows "Result_abs r = HasV v \<Longrightarrow> load_T vops eops (m_storage (mData r)) = Ret v"
    and "Result_abs r = HasE e \<Longrightarrow> load_E vops eops (m_storage (mData r)) = Ret e"
  using assms
  by (auto simp: Result_wf_def Result_abs_def Variant_alt_def load_T_def load_E_def deref_def)

lemma Value_const_abs:
  "Result_wf r \<Longrightarrow> Value_const vops eops r =
    (case Result_abs r of HasV v \<Rightarrow> Ret v
     | _ \<Rightarrow> Terminates ''__ value() called but NOT a value!'')"
  by (simp add: Value_const_def get_if_T load_abs split: rslt.split)

lemma Error_const_abs:
  "Result_wf r \<Longrightarrow> Error_const vops eops r =
    (case Result_abs r of HasE e \<Rightarrow> Ret e
     | _ \<Rightarrow> Terminates ''__ error() called but NOT an error!'')"
  by (simp add: Error_const_def get_if_E load_abs split: rslt.split)

lemma rvalue_accessors:
  "Value_rvalue = Value_const" "Error_rvalue = Error_const" "Result_deref_const = Value_const"
  "Result_deref_rvalue = Value_const" "Result_arrow = Value_const" "ValueOr_rvalue = ValueOr_const"
  "ValueOrThrow_rvalue = ValueOrThrow_const"
  unfolding fun_eq_iff Value_rvalue_def Value_const_def Error_rvalue_def Error_const_def
    Result_deref_const_def Result_deref_rvalue_def Result_arrow_def ValueOr_rvalue_def
    ValueOr_const_def ValueOrThrow_rvalue_def ValueOrThrow_const_def get_if_eq
  by simp_all

lemmas result_access = HasValue_abs Result_bool_abs Value_const_abs Error_const_abs

section \<open>Operations\<close>

lemma direct_value [simp]:
  "T_varType conv Tag_T result_types = Some Tag_T" "T_varIndex conv Tag_T result_types = of_nat 0"
  using direct_selection [of result_types Tag_T conv] by simp_all

lemma direct_error [simp]:
  "T_varType conv Tag_E result_types = Some Tag_E" "T_varIndex conv Tag_E result_types = of_nat 1"
  using direct_selection [of result_types Tag_E conv] by simp_all

context result_elems
begin

lemma wf_Variant: "Result_wf r \<Longrightarrow> Variant_wf (result_ops vops eops) result_types (mData r)"
  using Result_wf_Variant by blast

lemma converting_value:
  "Variant_converting_ctor (result_ops vops eops) no_conv result_types cat (PVal t) =
     Some (Ret (set_alt Variant_default (Some (0, PVal t)),
                PVal (if cat = RValue then mv t else t)))"
  by (rule R.converting_ctor_eq [where i = 0]) (simp_all add: R.construct_same)

lemma converting_error:
  "Variant_converting_ctor (result_ops vops eops) no_conv result_types cat (PErr e) =
     Some (Ret (set_alt Variant_default (Some (1, PErr e)),
                PErr (if cat = RValue then me e else e)))"
  by (rule R.converting_ctor_eq [where i = 1]) (simp_all add: R.construct_same)

lemma constructors:
  "Result_of_value_lvalue vops eops t = Ret (Result_rep (HasV t))"
  "Result_of_value_rvalue vops eops t = Ret (Result_rep (HasV t), mv t)"
  "Result_of_error_lvalue vops eops e = Ret (Result_rep (HasE e))"
  "Result_of_error_rvalue vops eops e = Ret (Result_rep (HasE e), me e)"
  by (simp_all add: Result_of_value_lvalue_def Result_of_value_rvalue_def
      Result_of_error_lvalue_def Result_of_error_rvalue_def converting_value converting_error
      Result_rep_def)

lemma factories:
  "FromValue_lvalue vops eops t = Ret (Result_rep (HasV t))"
  "FromValue_rvalue vops eops t = Ret (Result_rep (HasV t), mv t)"
  "FromValue_args vops eops (Ret t) = Ret (Result_rep (HasV t))"
  "FromError_lvalue vops eops e = Ret (Result_rep (HasE e))"
  "FromError_rvalue vops eops e = Ret (Result_rep (HasE e), me e)"
  "FromError_args vops eops (Ret e) = Ret (Result_rep (HasE e))"
  by (simp_all add: FromValue_lvalue_def FromValue_rvalue_def FromValue_args_def
      FromError_lvalue_def FromError_rvalue_def FromError_args_def constructors)

lemma copy_ctor_Result:
  "Result_wf r \<Longrightarrow> Result_copy_ctor vops eops r = Ret (Result_rep (Result_abs r))"
  by (simp add: Result_copy_ctor_def R.copy_ctor_eq wf_Variant alt_Result Result_rep_def)

lemma move_ctor_Result:
  "Result_wf r \<Longrightarrow>
   Result_move_ctor vops eops r = Ret (Result_rep (Result_abs r), Result_moved mv me r)"
  by (simp add: Result_move_ctor_def R.move_ctor_eq wf_Variant alt_Result Result_rep_def
      Result_moved_def)

lemma copy_assign_Result:
  "Result_wf r \<Longrightarrow> Result_wf s \<Longrightarrow>
   Result_copy_assign vops eops False r s = Ret (Result_set r (Result_abs s))"
  by (simp add: Result_copy_assign_def R.copy_assign_eq wf_Variant alt_Result Result_set_def)

lemma move_assign_Result:
  "Result_wf r \<Longrightarrow> Result_wf s \<Longrightarrow>
   Result_move_assign vops eops False r s =
     Ret (Result_set r (Result_abs s), Result_moved mv me s)"
  by (simp add: Result_move_assign_def R.move_assign_eq wf_Variant alt_Result Result_set_def
      Result_moved_def)

lemma emplace_Result:
  assumes "Result_wf r"
  shows "EmplaceValue vops eops (Ret v) r = Ret (Result_set r (HasV v))"
    and "EmplaceError vops eops (Ret e) r = Ret (Result_set r (HasE e))"
  by (simp_all add: EmplaceValue_def EmplaceError_def R.emplace_type_eq [OF wf_Variant [OF assms]]
      Result_set_def)

lemma swap_Result:
  assumes "Result_wf r" "Result_wf s"
  obtains r' s' where "Result_Swap vops eops False r s = Ret (r', s')"
    "Result_wf r'" "Result_wf s'" "Result_abs r' = Result_abs s" "Result_abs s' = Result_abs r"
proof -
  obtain a b where ab: "std_swap_variant (result_ops vops eops) result_types False (mData r) (mData s) = Ret (a, b)"
    "Variant_wf (result_ops vops eops) result_types a" "Variant_wf (result_ops vops eops) result_types b"
    "Variant_alt a = Variant_alt (mData s)" "Variant_alt b = Variant_alt (mData r)"
    using R.swap_eq wf_Variant assms by metis
  show thesis
  proof (rule that [of "r\<lparr>mData := a\<rparr>" "s\<lparr>mData := b\<rparr>"])
    show "Result_Swap vops eops False r s = Ret (r\<lparr>mData := a\<rparr>, s\<lparr>mData := b\<rparr>)"
      by (simp add: Result_Swap_def ab(1))
    show "Result_wf (r\<lparr>mData := a\<rparr>)" "Result_wf (s\<lparr>mData := b\<rparr>)"
      using ab(2,3) Result_wf_Variant [of "r\<lparr>mData := a\<rparr>" vops eops]
        Result_wf_Variant [of "s\<lparr>mData := b\<rparr>" vops eops] by simp_all
    show "Result_abs (r\<lparr>mData := a\<rparr>) = Result_abs s" "Result_abs (s\<lparr>mData := b\<rparr>) = Result_abs r"
      by (rule Result_abs_alt, simp add: ab(4,5) alt_Result assms)+
  qed
qed

end

section \<open>The properties of \<open>Result\<close>\<close>

text \<open>
  C12. On value and error types that keep the contract, construction (from lvalues, rvalues and
  through the factories), copy, move, assignment, \<open>EmplaceValue\<close>, \<open>EmplaceError\<close> and \<open>Swap\<close>
  return, keep the invariant and implement the operation on abstract values; the source
  of a move becomes empty.
\<close>

theorem Result_operations_refine:
  fixes vops :: "('x, unit, 'v) elem_ops" and eops :: "('x, unit, 'e) elem_ops"
  assumes elems: "result_elems vops mv eops me" and wf: "Result_wf r" "Result_wf s"
  shows "FromValue_lvalue vops eops v = Ret (Result_rep (HasV v))
       \<and> FromValue_rvalue vops eops v = Ret (Result_rep (HasV v), mv v)
       \<and> FromValue_args vops eops (Ret v) = Ret (Result_rep (HasV v))
       \<and> FromError_args vops eops (Ret e) = Ret (Result_rep (HasE e))
       \<and> FromError_lvalue vops eops e = Ret (Result_rep (HasE e))
       \<and> FromError_rvalue vops eops e = Ret (Result_rep (HasE e), me e)
       \<and> Result_copy_ctor vops eops r = Ret (Result_rep (Result_abs r))
       \<and> Result_move_ctor vops eops r = Ret (Result_rep (Result_abs r), Result_moved mv me r)
       \<and> Result_copy_assign vops eops False r s = Ret (Result_set r (Result_abs s))
       \<and> Result_move_assign vops eops False r s =
           Ret (Result_set r (Result_abs s), Result_moved mv me s)
       \<and> EmplaceValue vops eops (Ret v) r = Ret (Result_set r (HasV v))
       \<and> EmplaceError vops eops (Ret e) r = Ret (Result_set r (HasE e))
       \<and> (\<exists>r' s'. Result_swap_free vops eops False r s = Ret (r', s') \<and> Result_wf r' \<and> Result_wf s'
             \<and> Result_abs r' = Result_abs s \<and> Result_abs s' = Result_abs r)
       \<and> Result_abs (Result_set r a) = a \<and> Result_wf (Result_set r a)
       \<and> Result_abs (Result_moved mv me r) = Empty \<and> Result_wf (Result_moved mv me r)"
proof -
  have "\<exists>r' s'. Result_swap_free vops eops False r s = Ret (r', s') \<and> Result_wf r' \<and> Result_wf s'
      \<and> Result_abs r' = Result_abs s \<and> Result_abs s' = Result_abs r"
    unfolding Result_swap_free_def using result_elems.swap_Result [OF elems wf] by metis
  then show ?thesis
    by (simp add: result_elems.factories [OF elems] result_elems.copy_ctor_Result [OF elems wf(1)]
        result_elems.move_ctor_Result [OF elems wf(1)] result_elems.copy_assign_Result [OF elems wf]
        result_elems.move_assign_Result [OF elems wf] result_elems.emplace_Result [OF elems wf(1)])
qed

theorem Result_operations_refine_witness:
  "FromValue_rvalue String_ops (scalar_ops :: (unit, unit, int) elem_ops) ''ab'' =
     Ret (Result_rep (HasV ''ab''), '''')
   \<and> Result_copy_ctor String_ops (scalar_ops :: (unit, unit, int) elem_ops) (Result_rep (HasE 4)) =
     Ret (Result_rep (HasE 4))"
  using Result_operations_refine [where 'x = unit, OF String_result.result_elems_axioms,
      where r = "Result_rep (HasE (4 :: int))" and s = "Result_rep (HasV ''ab'')" and v = "''ab''"
        and e = 0 and a = Empty]
  by simp

text \<open>
  \<open>ValueOrThrow\<close> returns the value; for an error of type \<open>ErrorCode\<close> it throws the exception
  class of the error's domain, carrying that error. A build without exceptions does not declare it. On a moved-from result it calls a member through a null pointer.
\<close>

lemma Result_ValueOrThrow:
  assumes wf: "Result_wf r"
  shows "ValueOrThrow_const vops eops (ErrorCode_ThrowAsException False) r =
      (case Result_abs r of
         HasV v \<Rightarrow> Ret v
       | HasE ec \<Rightarrow>
           Throws (AraException \<lparr>exn_type = vt_Exception (mDomain ec), error_code = ec\<rparr>)
       | Empty \<Rightarrow> Undefined)
    \<and> ValueOrThrow_rvalue vops eops (ErrorCode_ThrowAsException False) r =
      ValueOrThrow_const vops eops (ErrorCode_ThrowAsException False) r"
  by (cases "Result_abs r")
    (simp_all add: ValueOrThrow_const_def rvalue_accessors get_if_T [OF wf] get_if_E [OF wf]
      load_abs [OF wf] ErrorCode_ThrowAsException_def ErrorDomain_ThrowAsException_def
      ThrowOrTerminate_def Exception_ctor_def ErrorCode_Domain_def)

text \<open>
  C28. The state queries and accessors on every branch: \<open>HasValue\<close> tells whether there is a
  value, \<open>Value\<close>, \<open>*\<close> and \<open>->\<close> give it and otherwise print their message and terminate, \<open>Error\<close>
  gives the error and otherwise terminates, \<open>ValueOr\<close> copies the value or gives the default; the
  overloads for rvalues agree with those for lvalues. \<open>ValueOrThrow\<close> gives the value; for an
  error of type \<open>ErrorCode\<close> it throws the exception class of the error's domain, carrying that
  error, and on a moved-from result it calls a member through a null pointer; only the build with
  exceptions declares it.
\<close>

theorem Result_access:
  assumes wf: "Result_wf r" and wfq: "Result_wf q"
  shows "HasValue r = (\<exists>v. Result_abs r = HasV v)
       \<and> Value_const vops eops r =
           (case Result_abs r of HasV v \<Rightarrow> Ret v
            | _ \<Rightarrow> Terminates ''__ value() called but NOT a value!'')
       \<and> Error_const vops eops r =
           (case Result_abs r of HasE e \<Rightarrow> Ret e
            | _ \<Rightarrow> Terminates ''__ error() called but NOT an error!'')
       \<and> Value_rvalue vops eops r = Value_const vops eops r
       \<and> Error_rvalue vops eops r = Error_const vops eops r
       \<and> Result_deref_const vops eops r = Value_const vops eops r
       \<and> Result_deref_rvalue vops eops r = Value_const vops eops r
       \<and> Result_arrow vops eops r = Value_const vops eops r
       \<and> ValueOr_const vops eops dflt r =
           (case Result_abs r of HasV v \<Rightarrow> copy_ctor vops v | _ \<Rightarrow> dflt)
       \<and> ValueOr_rvalue vops eops dflt r = ValueOr_const vops eops dflt r
       \<and> ValueOrThrow_const uops ecops (ErrorCode_ThrowAsException False) q =
           (case Result_abs q of
              HasV v \<Rightarrow> Ret v
            | HasE ec \<Rightarrow>
                Throws (AraException \<lparr>exn_type = vt_Exception (mDomain ec), error_code = ec\<rparr>)
            | Empty \<Rightarrow> Undefined)
       \<and> ValueOrThrow_rvalue uops ecops (ErrorCode_ThrowAsException False) q =
           ValueOrThrow_const uops ecops (ErrorCode_ThrowAsException False) q"
  using Result_ValueOrThrow [OF wfq]
  by (simp add: result_access [OF wf] rvalue_accessors ValueOr_const_def split: rslt.split)

theorem Result_access_witness:
  "Value_const scalar_ops (scalar_ops :: (unit, unit, int) elem_ops) (Result_rep (HasV True)) = Ret True
   \<and> Value_const scalar_ops (scalar_ops :: (unit, unit, int) elem_ops)
       (Result_moved (\<lambda>v. v) (\<lambda>e. e) (Result_rep (HasV True))) =
       Terminates ''__ value() called but NOT a value!''
   \<and> ValueOrThrow_const scalar_ops scalar_ops (ErrorCode_ThrowAsException False)
       (Result_rep (HasE (MakeErrorCode_future broken_promise 0)) :: (int, ErrorCode) Result) =
       Throws (AraException \<lparr>exn_type = vt_Exception GetFutureErrorDomain,
                             error_code = MakeErrorCode_future broken_promise 0\<rparr>)"
proof -
  let ?q = "Result_rep (HasE (MakeErrorCode_future broken_promise 0)) :: (int, ErrorCode) Result"
  note access = Result_access [where vops = scalar_ops and eops = "scalar_ops :: (unit, unit, int) elem_ops"
      and q = ?q and uops = scalar_ops and ecops = scalar_ops]
  show ?thesis
    using access [of "Result_rep (HasV True)"] access [of "Result_moved (\<lambda>v. v) (\<lambda>e. e) (Result_rep (HasV True))"]
    by (simp add: MakeErrorCode_future_def ErrorCode_ctor_def)
qed

text \<open>
  The observers with a fallback: \<open>ValueOr\<close> is the value or the default, \<open>ErrorOr\<close> the error
  or the default, \<open>Resolve\<close> the value or the callable's result on the error, and
  \<open>CheckError\<close> says whether there is an error equal to the argument. They return unless
  the result was moved from; then all but \<open>ValueOr\<close> terminate.
\<close>

theorem Result_fallbacks:
  fixes vops :: "('x, unit, 'v) elem_ops" and eops :: "('x, unit, 'e) elem_ops"
  assumes elems: "result_elems vops mv eops me" and wf: "Result_wf r"
  shows "ValueOr_const vops eops (Ret d) r = Ret (case Result_abs r of HasV v \<Rightarrow> v | _ \<Rightarrow> d)
       \<and> ValueOr_rvalue vops eops (Ret d) r = ValueOr_const vops eops (Ret d) r
       \<and> ErrorOr vops eops (Ret g) r =
           (case Result_abs r of HasV _ \<Rightarrow> Ret g | HasE e \<Rightarrow> Ret e
            | Empty \<Rightarrow> Terminates ''__ error() called but NOT an error!'')
       \<and> CheckError vops eops (=) (Ret g) r =
           (case Result_abs r of HasV _ \<Rightarrow> Ret False | HasE e \<Rightarrow> Ret (e = g)
            | Empty \<Rightarrow> Terminates ''__ error() called but NOT an error!'')
       \<and> Resolve vops eops f r =
           (case Result_abs r of HasV v \<Rightarrow> Ret v | HasE e \<Rightarrow> f e
            | Empty \<Rightarrow> Terminates ''__ error() called but NOT an error!'')"
proof -
  note laws = result_elems.axioms [OF elems]
  have "copy_ctor vops v = Ret v" "copy_ctor eops e = Ret e" for v e
    using laws by (simp_all add: regular_elems.copy_ctor_law)
  then show ?thesis
    by (cases "Result_abs r")
      (simp_all add: ValueOr_const_def rvalue_accessors ErrorOr_def CheckError_def Resolve_def
        result_access [OF wf])
qed

theorem Result_fallbacks_witness:
  "ErrorOr String_ops (scalar_ops :: (unit, unit, int) elem_ops) (Ret 9) (Result_rep (HasV ''a'')) = Ret 9
   \<and> ValueOr_const String_ops (scalar_ops :: (unit, unit, int) elem_ops) (Ret ''d'') (Result_rep (HasE 3)) =
     Ret ''d''"
  using Result_fallbacks [where 'x = unit, OF String_result.result_elems_axioms, of "Result_rep (HasV ''a'')" "''d''" "9 :: int" "\<lambda>_. Ret ''r''"]
    Result_fallbacks [where 'x = unit, OF String_result.result_elems_axioms, of "Result_rep (HasE (3 :: int))" "''d''" 9 "\<lambda>_. Ret ''r''"]
  by simp

context result_elems
begin

lemma Bind_result_abs:
  assumes "result_elems uops mu eops me" "Result_wf r"
  shows "Bind_result vops eops uops f r =
    (case Result_abs r of HasV v \<Rightarrow> f v | HasE e \<Rightarrow> Ret (Result_rep (HasE e))
     | Empty \<Rightarrow> Terminates ''__ error() called but NOT an error!'')"
  using assms(2) result_elems.constructors [OF assms(1)]
  by (simp add: Bind_result_def result_access split: rslt.split)

lemma Bind_value_abs:
  assumes "result_elems uops mu eops me" "Result_wf r"
  shows "Bind_value vops eops uops f r =
    (case Result_abs r of HasV v \<Rightarrow> obind (f v) (\<lambda>u. Ret (Result_rep (HasV u)))
     | HasE e \<Rightarrow> Ret (Result_rep (HasE e))
     | Empty \<Rightarrow> Terminates ''__ error() called but NOT an error!'')"
  using assms(2) result_elems.constructors [OF assms(1)]
  by (simp add: Bind_value_def result_access split: rslt.split)

end

text \<open>
  C24. \<open>Bind\<close> is the bind of the error monad: \<open>FromValue\<close> is its unit on both sides, it is
  associative, an error passes through it unchanged without a call of the callable, and
  the overload for a plain callable is the one for a callable that wraps its value with
  \<open>FromValue\<close>.
\<close>

theorem Result_Bind_monad:
  fixes vops :: "('x, unit, 'v) elem_ops" and eops :: "('x, unit, 'e) elem_ops"
  assumes elems: "result_elems vops mv eops me" and uel: "result_elems uops mu eops me"
    and wel: "result_elems wops mw eops me"
    and wf: "Result_wf r" and full: "Result_abs r \<noteq> Empty"
  shows "Bind_result vops eops uops f (Result_rep (HasV v)) = f v
       \<and> Bind_result vops eops vops (FromValue_lvalue vops eops) r = Ret (Result_rep (Result_abs r))
       \<and> obind (Bind_result vops eops uops f r) (Bind_result uops eops wops g) =
           Bind_result vops eops wops (\<lambda>v. obind (f v) (Bind_result uops eops wops g)) r
       \<and> (Result_abs r = HasE e \<longrightarrow> Bind_result vops eops uops f r = Ret (Result_rep (HasE e)))
       \<and> Bind_value vops eops uops h r =
           Bind_result vops eops uops (\<lambda>v. FromValue_args uops eops (h v)) r"
proof -
  have "FromValue_args uops eops m = obind m (\<lambda>u. Ret (Result_rep (HasV u)))" for m
    by (simp add: FromValue_args_def result_elems.constructors [OF uel])
  then show ?thesis
    using full
    by (cases "Result_abs r")
      (simp_all add: result_elems.Bind_result_abs [OF elems uel]
        result_elems.Bind_result_abs [OF elems wel] result_elems.Bind_result_abs [OF uel wel]
        result_elems.Bind_result_abs [OF elems elems] result_elems.Bind_value_abs [OF elems uel]
        result_elems.factories [OF elems] wf)
qed

theorem Result_Bind_monad_witness:
  "Bind_result String_ops (scalar_ops :: (unit, unit, int) elem_ops) (scalar_ops :: (unit, unit, nat) elem_ops)
     (\<lambda>s. Ret (Result_rep (HasV (length s)))) (Result_rep (HasV ''abc'')) = Ret (Result_rep (HasV 3))"
  using Result_Bind_monad [where 'x = unit, OF String_result.result_elems_axioms scalar_result.result_elems_axioms
      scalar_result.result_elems_axioms, where r = "Result_rep (HasE (1 :: int))" and v = "''abc''"
      and f = "\<lambda>s. Ret (Result_rep (HasV (length s)))" and g = "\<lambda>n :: nat. Ret (Result_rep (HasV n))"
      and h = "\<lambda>s. Ret (length s)" and e = 1]
  by (simp add: numeral_3_eq_3)

text \<open>
  C29. On results that hold something, \<open>==\<close> is equality of the abstract values and \<open>!=\<close> its
  negation (the two are written separately in the code), and the mixed operators compare
  with a result that holds the value or the error on the other side.
\<close>

theorem Result_equality:
  assumes wf: "Result_wf r" "Result_wf s" and full: "Result_abs r \<noteq> Empty" "Result_abs s \<noteq> Empty"
  shows "Result_eq vops eops (=) (=) r s = Ret (Result_abs r = Result_abs s)
       \<and> Result_neq vops eops (\<noteq>) (\<noteq>) r s = Ret (Result_abs r \<noteq> Result_abs s)
       \<and> Result_eq_value vops eops (=) r v = Ret (Result_abs r = HasV v)
       \<and> value_eq_Result vops eops (=) v r = Ret (Result_abs r = HasV v)
       \<and> Result_neq_value vops eops (\<noteq>) r v = Ret (Result_abs r \<noteq> HasV v)
       \<and> value_neq_Result vops eops (\<noteq>) v r = Ret (Result_abs r \<noteq> HasV v)
       \<and> Result_eq_error vops eops (=) r e = Ret (Result_abs r = HasE e)
       \<and> error_eq_Result vops eops (=) e r = Ret (Result_abs r = HasE e)
       \<and> Result_neq_error vops eops (\<noteq>) r e = Ret (Result_abs r \<noteq> HasE e)
       \<and> error_neq_Result vops eops (\<noteq>) e r = Ret (Result_abs r \<noteq> HasE e)"
  using full
  by (cases "Result_abs r"; cases "Result_abs s")
    (auto simp: Result_eq_def Result_neq_def Result_eq_value_def value_eq_Result_def
      Result_neq_value_def value_neq_Result_def Result_eq_error_def error_eq_Result_def
      Result_neq_error_def error_neq_Result_def rvalue_accessors result_access wf)

theorem Result_equality_witness:
  "Result_eq scalar_ops (scalar_ops :: (unit, unit, int) elem_ops) (=) (=)
     (Result_rep (HasV True)) (Result_rep (HasE 1)) = Ret False"
  using Result_equality [where vops = scalar_ops and eops = "scalar_ops :: (unit, unit, int) elem_ops"
      and r = "Result_rep (HasV True)" and s = "Result_rep (HasE 1)" and v = True and e = 1]
  by simp

end
