(* ===== verification/Variant_Properties.thy ===== *)
theory Variant_Properties
  imports Result_Correct
begin

text \<open>
  The properties of \<open>Variant\<close>, stated for every type list and every element type that keeps the
  contract; the examples are at \<open>Variant<int, bool>\<close>, in the form \<open>Result\<close> uses it.
\<close>

section \<open>An instance for the examples\<close>

abbreviation ib_ops :: "(unit, result_tag, (int, bool) payload) elem_ops" where
  "ib_ops \<equiv> result_ops scalar_ops scalar_ops"

definition ib :: "(int, bool) rslt \<Rightarrow> (int, bool) payload variant" where
  "ib a = mData (Result_rep a)"

lemma ib_elems: "variant_elems ib_ops (map_payload (\<lambda>v. v) (\<lambda>e. e)) result_types"
  by (rule scalar_result.R.variant_elems_axioms)

lemma ib_facts:
  "Variant_wf ib_ops result_types (ib a)" "Variant_alt (ib a) = alt_of a" "Variant_clean (ib a)"
  "holds ib_ops result_types (ib (HasV x)) 0 (PVal x)"
  "holds ib_ops result_types (ib (HasE e)) 1 (PErr e)"
proof -
  show "Variant_wf ib_ops result_types (ib a)"
    unfolding ib_def by (rule iffD1 [OF Result_wf_Variant]) simp
  show "Variant_alt (ib a) = alt_of a"
    unfolding ib_def Result_rep_def by (simp add: scalar_result.R.set_alt_alt)
  have "typed_alt ib_ops result_types (alt_of a)" by (rule alt_of_typed)
  then show "Variant_clean (ib a)"
    unfolding ib_def Result_rep_def by (simp add: variant_elems.set_alt_clean [OF ib_elems])
  have "holds ib_ops result_types (set_alt Variant_default (Some (0, PVal x))) 0 (PVal x)"
    "holds ib_ops result_types (set_alt Variant_default (Some (1, PErr e))) 1 (PErr e)"
    by (rule variant_elems.set_alt_holds [OF ib_elems], simp_all)+
  then show "holds ib_ops result_types (ib (HasV x)) 0 (PVal x)"
    "holds ib_ops result_types (ib (HasE e)) 1 (PErr e)"
    by (simp_all add: ib_def Result_rep_def)
qed

section \<open>Selection of the alternative\<close>

text \<open>
  C31. The converting constructor selects the alternative of the argument's own type when the
  list has it (the first of them), otherwise the only alternative the argument converts
  to, and takes no part in overload resolution when there is none or more than one. The
  run-time index it stores is the index of that alternative.
\<close>

theorem Variant_selection:
  assumes len: "length Ts < 2 ^ 64"
  shows "if T \<in> set Ts
    then T_valid conv T Ts \<and> T_varType conv T Ts = Some T
         \<and> get_index_of_type 0 T Ts = Some (T_varIndex conv T Ts)
    else if \<exists>i. unique_conv conv T Ts i
    then T_valid conv T Ts \<and> (\<exists>i. unique_conv conv T Ts i \<and> T_varIndex conv T Ts = of_nat i
         \<and> T_varType conv T Ts = Some (Ts ! i))
    else \<not> T_valid conv T Ts \<and> T_varType conv T Ts = None"
proof (cases "T \<in> set Ts")
  case True
  then show ?thesis
    using direct_selection [OF len True, of conv] by (simp add: get_index_of_type_in)
next
  case False
  then have idx: "T_index conv T Ts = get_convertible_type_index conv T Ts"
    by (simp add: T_index_def T_present_iff [OF len])
  show ?thesis
  proof (cases "\<exists>i. unique_conv conv T Ts i")
    case True
    then obtain i where i: "unique_conv conv T Ts i" ..
    have "i < length Ts" using i by (simp add: unique_conv_def)
    from selected_alternative [OF len this, of conv T] convertible_index_unique [OF i] idx i False
    show ?thesis by auto
  next
    case none: False
    then have "\<not> T_valid conv T Ts"
      using convertible_index_none [of conv T Ts] idx by (simp add: T_valid_def)
    with none False show ?thesis by (simp add: no_selection)
  qed
qed

theorem Variant_selection_witness:
  "T_varType (<) 3 [2, 3, 7 :: nat] = Some 3
   \<and> get_index_of_type 0 3 [2, 3, 7 :: nat] = Some (T_varIndex (<) 3 [2, 3, 7 :: nat])"
  using Variant_selection [of "[2, 3, 7 :: nat]" 3 "(<)"] by simp

lemma dispatch_at:
  "unat I < length Ts \<Longrightarrow> length Ts < 2 ^ 64 \<Longrightarrow> dispatch msg act 0 Ts I = act (Ts ! unat I)"
  using dispatch_in [of "unat I" Ts msg act] by simp

text \<open>
  The storage is as large as the largest alternative: no alternative is larger, and one of
  them has that size.
\<close>

theorem TYPE_SIZE_largest:
  assumes "TYPE_SIZE sizeof_type Ts = Some m"
  shows "(\<forall>T \<in> set Ts. sizeof_type T \<le> m) \<and> (\<exists>T \<in> set Ts. sizeof_type T = m)"
  using assms max_args_ge max_args_in [of "map sizeof_type Ts" m] by (fastforce simp: TYPE_SIZE_def)

theorem TYPE_SIZE_largest_witness:
  "\<exists>T \<in> set [2, 8, 4 :: size_t]. T = 8"
  using TYPE_SIZE_largest [of "\<lambda>T. T" "[2, 8, 4 :: size_t]" 8]
  by (simp add: TYPE_SIZE_def max2_def max1_def)

text \<open>
  C32. The five recursions of \<open>call_at_index\<close> reach the operation of the alternative at the
  run-time index, and fail their assertion for an index beyond the list. The storage they work
  on has the size of the largest alternative.
\<close>

theorem call_at_index_correct:
  assumes ne: "Ts \<noteq> []" and len: "length Ts < 2 ^ 64"
  shows "(if unat I < length Ts
    then call_destructor ops 0 Ts I s = run_destructor ops (Ts ! unat I) s
       \<and> call_move ops 0 Ts I s d = elem_move ops (Ts ! unat I) s d
       \<and> call_moveConstructor ops 0 Ts I s d = elem_moveConstructor ops (Ts ! unat I) s d
       \<and> call_copy ops 0 Ts I s d = elem_copy ops (Ts ! unat I) s d
       \<and> call_copyConstructor ops 0 Ts I s d = elem_copyConstructor ops (Ts ! unat I) s d
    else call_destructor ops 0 Ts I s = Terminates ''Could not call destructor for variant element''
       \<and> call_move ops 0 Ts I s d = Terminates ''Could not call move assignment for variant element''
       \<and> call_moveConstructor ops 0 Ts I s d =
           Terminates ''Could not call move constructor for variant element''
       \<and> call_copy ops 0 Ts I s d = Terminates ''Could not call copy assignment for variant element''
       \<and> call_copyConstructor ops 0 Ts I s d =
           Terminates ''Could not call copy constructor for variant element'')
    \<and> (\<exists>m. TYPE_SIZE sizeof_type Ts = Some m \<and> (\<forall>T \<in> set Ts. sizeof_type T \<le> m) \<and> m \<in> sizeof_type ` set Ts)"
proof -
  obtain m where "TYPE_SIZE sizeof_type Ts = Some m"
    using ne by (cases "TYPE_SIZE sizeof_type Ts") (simp_all add: TYPE_SIZE_def)
  with TYPE_SIZE_largest [OF this] show ?thesis
    by (auto simp: call_dispatch [OF ne] dispatch_at [OF _ len] dispatch_out)
qed

theorem call_at_index_correct_witness:
  "call_destructor ib_ops 0 result_types 1 \<lparr>bytes = Live (PErr True), undestroyed = []\<rparr> =
     Ret \<lparr>bytes = Raw, undestroyed = []\<rparr>"
  using call_at_index_correct [THEN conjunct1, of result_types 1 ib_ops "\<lparr>bytes = Live (PErr True), undestroyed = []\<rparr>"
      "\<lparr>bytes = Raw, undestroyed = []\<rparr>"]
  by (simp add: result_types_def run_destructor_def deref_def)

section \<open>Copy, move, assignment, swap\<close>

text \<open>
  C18. On well-formed variants of contract-keeping types copying, moving and assigning return and
  transfer the alternative: the target ends well-formed with the source's alternative,
  whatever it held, the source of a copy is unchanged and the source of a move valueless;
  assignment to itself changes nothing.
\<close>

theorem Variant_transfer:
  assumes elems: "variant_elems ops mo Ts" and wf: "Variant_wf ops Ts v" "Variant_wf ops Ts w"
  shows "\<exists>c m a b s t.
      Variant_copy_ctor ops Ts w = Ret c \<and> Variant_wf ops Ts c \<and> Variant_alt c = Variant_alt w
    \<and> Variant_move_ctor ops Ts w = Ret (m, s) \<and> Variant_wf ops Ts m \<and> Variant_alt m = Variant_alt w
    \<and> valueless s
    \<and> Variant_copy_assign ops Ts False v w = Ret a \<and> Variant_wf ops Ts a \<and> Variant_alt a = Variant_alt w
    \<and> Variant_move_assign ops Ts False v w = Ret (b, t) \<and> Variant_wf ops Ts b
    \<and> Variant_alt b = Variant_alt w \<and> valueless t
    \<and> Variant_copy_assign ops Ts True v v = Ret v \<and> Variant_move_assign ops Ts True v v = Ret (v, v)"
proof -
  have t: "typed_alt ops Ts (Variant_alt w)" by (rule variant_elems.wf_typed_alt [OF elems wf(2)])
  note set = variant_elems.set_alt_wf [OF elems t] variant_elems.set_alt_alt [OF elems t]
  show ?thesis
    using set variant_elems.moved_from_valueless [OF elems]
    by (simp add: variant_elems.copy_ctor_eq [OF elems wf(2)] variant_elems.move_ctor_eq [OF elems wf(2)]
        variant_elems.copy_assign_eq [OF elems wf] variant_elems.move_assign_eq [OF elems wf]
        variant_elems.copy_assign_self [OF elems] variant_elems.move_assign_self [OF elems])
qed

theorem Variant_transfer_witness:
  "\<exists>a. Variant_copy_assign ib_ops result_types False (ib (HasV 3)) (ib (HasE True)) = Ret a
     \<and> Variant_alt a = Some (1, PErr True)"
  using Variant_transfer [OF ib_elems ib_facts(1) [of "HasV 3"] ib_facts(1) [of "HasE True"]]
  by (auto simp: ib_facts(2))

text \<open>
  \<open>std::swap\<close> of two well-formed variants exchanges their alternatives, and \<open>swap\<close> of a variant
  with itself keeps its alternative.
\<close>

theorem Variant_swap_exchanges:
  assumes elems: "variant_elems ops mo Ts" and mc: "are_move_constructible is_mc Ts"
    and wf: "Variant_wf ops Ts v" "Variant_wf ops Ts w"
  shows "\<exists>v' w' s t. Variant_swap ops is_mc Ts False v w = Some (Ret (v', w'))
      \<and> Variant_wf ops Ts v' \<and> Variant_wf ops Ts w'
      \<and> Variant_alt v' = Variant_alt w \<and> Variant_alt w' = Variant_alt v
      \<and> Variant_swap ops is_mc Ts True v v = Some (Ret (s, t)) \<and> Variant_alt s = Variant_alt v"
proof -
  obtain a b where ab: "std_swap_variant ops Ts False v w = Ret (a, b)"
    "Variant_wf ops Ts a" "Variant_wf ops Ts b" "Variant_alt a = Variant_alt w" "Variant_alt b = Variant_alt v"
    using variant_elems.swap_eq [OF elems wf] by metis
  obtain c where c: "std_swap_variant ops Ts True v v = Ret (c, c)" "Variant_alt c = Variant_alt v"
    using variant_elems.swap_self_eq [OF elems wf(1)] by metis
  have none: "Variant_valueless_by_exception v \<Longrightarrow> Variant_alt v = None"
    "Variant_valueless_by_exception w \<Longrightarrow> Variant_alt w = None"
    by (simp_all add: Variant_valueless_by_exception_def Variant_alt_def)
  show ?thesis
    using ab c wf none by (auto simp: Variant_swap_def mc)
qed

theorem Variant_swap_exchanges_witness:
  "\<exists>v' w'. Variant_swap ib_ops (\<lambda>_. True) result_types False (ib (HasV 3)) (ib (HasE True)) = Some (Ret (v', w'))
     \<and> Variant_alt v' = Some (1, PErr True) \<and> Variant_alt w' = Some (0, PVal 3)"
  using Variant_swap_exchanges [OF ib_elems _ ib_facts(1) [of "HasV 3"] ib_facts(1) [of "HasE True"], of "\<lambda>_. True"]
  by (auto simp: ib_facts(2) are_move_constructible_iff)

section \<open>emplace and access\<close>

text \<open>
  C30. Emplacing an alternative by its type, by its index, constructing in place and assigning a
  value of its type all lead to the same alternative; the type of the constructed object
  decides which, and an index beyond the list does not compile. This is so too where the
  documentation says otherwise: for a type that is listed more than once, whose in-place constructors it
  calls unavailable and which the code takes at its first place, and for the assignment of a value to a
  variant that holds nothing, which it calls undefined and which the code defines.
\<close>

theorem Variant_emplace_agree:
  assumes elems: "variant_elems ops mo Ts" and wf: "Variant_wf ops Ts v"
    and T: "type_of ops a \<in> set Ts"
  defines "i \<equiv> first_index (type_of ops a) Ts"
  shows "Variant_emplace_type ops Ts (type_of ops a) (\<lambda>_. Ret a) v = Some (Ret (set_alt v (Some (i, a))))
    \<and> Variant_emplace_index ops Ts (of_nat i) (\<lambda>_. Ret a) v = Some (Ret (set_alt v (Some (i, a))))
    \<and> Variant_converting_assign ops conv Ts LValue v a = Some (Ret (set_alt v (Some (i, a)), a))
    \<and> Variant_emplace_type_il ops Ts (type_of ops a) (\<lambda>_. Ret a) v = Some (Ret (), set_alt v (Some (i, a)))
    \<and> Variant_emplace_index_il ops Ts (of_nat i) (\<lambda>_. Ret a) v = Some (Ret (), set_alt v (Some (i, a)))
    \<and> Variant_in_place_index ops Ts (of_nat i) (\<lambda>_. Ret a) =
        Some (Ret (set_alt Variant_default (Some (i, a))))
    \<and> Variant_in_place_index_il ops Ts (of_nat i) (\<lambda>_. Ret a) =
        Some (Ret (), set_alt Variant_default (Some (i, a)))
    \<and> Variant_in_place_type_il ops Ts (type_of ops a) (\<lambda>_. Ret a) =
        Some (Ret (), set_alt Variant_default (Some (i, a)))
    \<and> Variant_in_place_type ops Ts (type_of ops a) (\<lambda>_. Ret a) =
        Some (Ret (set_alt Variant_default (Some (i, a))))
    \<and> Variant_converting_ctor ops conv Ts LValue a =
        Some (Ret (set_alt Variant_default (Some (i, a)), a))
    \<and> Variant_alt (set_alt v (Some (i, a))) = Some (i, a)
    \<and> (length Ts \<le> unat I \<longrightarrow> Variant_emplace_at_index ops Ts I mk v = None)"
proof -
  note len = variant_elems.types_bound' [OF elems]
  have i: "i < length Ts" "Ts ! i = type_of ops a"
    using T by (simp_all add: i_def first_index_less nth_first_index)
  have sel: "T_varType conv (type_of ops a) Ts = Some (Ts ! i)"
    "T_varIndex conv (type_of ops a) Ts = of_nat i"
    using direct_selection [OF len T, of conv] i by (simp_all add: i_def)
  have con: "construct_from ops LValue (Ts ! i) a = Ret (a, a)"
    using i regular_elems.construct_same [OF variant_elems.axioms(1) [OF elems], of a _ LValue] by simp
  have dwf: "Variant_wf ops Ts (Variant_default :: 'c variant)"
    by (simp add: Variant_wf_def)
  have le: "(of_nat i :: size_t) \<le> of_nat (length Ts)"
    using i(1) len by (simp add: word_le_nat_alt unat_of_nat_size_t)
  have at_i: "get_type_at_index 0 (of_nat i) Ts = Some (Ts ! i)"
    "get_index_of_type 0 (type_of ops a) Ts = Some (of_nat i)" "does_contain_type (type_of ops a) Ts"
    using get_type_at_index_nth [OF i(1) len] T by (simp_all add: i_def get_index_of_type_in does_contain_type_iff)
  have il: "Variant_emplace_type_il ops Ts (type_of ops a) (\<lambda>_. Ret a) w = Some (Ret (), set_alt w (Some (i, a)))"
      "Variant_emplace_index_il ops Ts (of_nat i) (\<lambda>_. Ret a) w = Some (Ret (), set_alt w (Some (i, a)))"
    if "Variant_wf ops Ts w" for w
    using variant_elems.destroy_then_construct_eq(1) [OF elems that, of i a] le at_i
    by (simp_all add: Variant_emplace_type_il_def Variant_emplace_index_il_def)
  show ?thesis
    using variant_elems.emplace_at_index_eq [OF elems dwf i(1), of "\<lambda>_. Ret a"] il
      variant_elems.emplace_type_eq [OF elems wf T, of "\<lambda>_. Ret a"]
      variant_elems.emplace_at_index_eq [OF elems wf i(1), of "\<lambda>_. Ret a"]
      variant_elems.converting_assign_eq [OF elems wf sel i(1) con i(2) [symmetric]]
      variant_elems.emplace_type_eq [OF elems dwf T, of "\<lambda>_. Ret a"]
      variant_elems.converting_ctor_eq [OF elems sel con]
      variant_elems.set_alt_alt [OF elems, of "Some (i, a)" v] i
      variant_elems.emplace_at_index_out_of_range [OF elems, of I mk v]
    by (simp add: i_def [symmetric] Variant_emplace_index_def Variant_in_place_type_def typed_alt_def
        wf dwf Variant_in_place_index_def Variant_in_place_index_il_def Variant_in_place_type_il_def)
qed


theorem Variant_emplace_agree_witness:
  "Variant_emplace_type ib_ops result_types Tag_E (\<lambda>_. Ret (PErr True)) (ib (HasV 3)) =
     Some (Ret (set_alt (ib (HasV 3)) (Some (1, PErr True))))"
  using Variant_emplace_agree [OF ib_elems ib_facts(1), of "PErr True" "HasV 3" no_conv 5 "\<lambda>_. Ret (PErr True)"]
  by simp

text \<open>
  C19. Access is type-safe: \<open>get\<close>, \<open>get_if\<close> and \<open>get_at_index\<close> give a pointer exactly when the
  alternative asked for is the one held, the null pointer (or the default) otherwise, and a
  pointer they give refers to a live object of that type, the one the variant holds.
\<close>

theorem Variant_access_type_safe:
  assumes elems: "variant_elems ops mo Ts" and wf: "Variant_wf ops Ts v" and T: "T \<in> set Ts"
  defines "i \<equiv> first_index T Ts"
  shows "Variant_get Ts T v =
      Some (if \<exists>x. Variant_alt v = Some (i, x) then Some (m_storage v) else None)
    \<and> holds_alternative Ts T v = Some (\<exists>x. Variant_alt v = Some (i, x))
    \<and> get_if Ts T v = Variant_get Ts T v
    \<and> Variant_get_if Ts T dflt v =
        Some (if \<exists>x. Variant_alt v = Some (i, x) then Some (m_storage v) else dflt)
    \<and> Variant_get_at_index Ts (of_nat i) v = Variant_get Ts T v
    \<and> Variant_get_at_index_const Ts (of_nat i) v = Variant_get_const Ts T v
    \<and> (\<forall>x. Variant_alt v = Some (i, x) \<longrightarrow> deref ops T (m_storage v) = Ret x)"
proof -
  have i: "i < length Ts" using T by (simp add: i_def first_index_less)
  show ?thesis
    using variant_elems.get_eq [OF elems wf T] variant_elems.bad_access_eq [OF elems wf T]
      variant_elems.get_at_index_eq [OF elems wf i] variant_elems.get_Some_deref [OF elems wf T]
    by (auto simp: i_def Variant_get_def holds_alternative_def get_if_def Variant_get_if_def
        Variant_get_if_const_def Variant_get_at_index_const_def)
qed

theorem Variant_access_type_safe_witness:
  "holds_alternative result_types Tag_E (ib (HasV 3)) = Some False
   \<and> deref ib_ops Tag_T (m_storage (ib (HasV 3))) = Ret (PVal 3)"
  using Variant_access_type_safe [OF ib_elems ib_facts(1), of Tag_E "HasV 3" None]
    Variant_access_type_safe [OF ib_elems ib_facts(1), of Tag_T "HasV 3" None]
  by (simp add: ib_facts(2))

section \<open>Lifetimes\<close>

text \<open>
  C26. Copying, assigning a copy and emplacing keep a variant clean (no object's bytes reused
  before its destructor ran), and the destructor of a clean variant leaves no live object.
\<close>

theorem Variant_clean_lifetimes:
  assumes elems: "variant_elems ops mo Ts" and wf: "Variant_wf ops Ts v" "Variant_wf ops Ts w"
    and clean: "Variant_clean v" and T: "type_of ops a \<in> set Ts"
  shows "\<exists>c d e.
      Variant_copy_ctor ops Ts w = Ret c \<and> Variant_clean c
    \<and> Variant_copy_assign ops Ts False v w = Ret d \<and> Variant_clean d
    \<and> Variant_emplace_type ops Ts (type_of ops a) (\<lambda>_. Ret a) v = Some (Ret e) \<and> Variant_clean e
    \<and> (\<exists>u. Variant_dtor ops Ts v = Ret u \<and> leftover u = [])"
proof -
  have t: "typed_alt ops Ts (Variant_alt w)" "typed_alt ops Ts (Some (first_index (type_of ops a) Ts, a))"
    using variant_elems.wf_typed_alt [OF elems wf(2)] T
    by (simp_all add: typed_alt_def first_index_less nth_first_index)
  note clean_set = variant_elems.set_alt_clean [OF elems]
  show ?thesis
    using clean_set [OF t(1) Variant_clean_default] clean_set [OF t(1) clean] clean_set [OF t(2) clean]
      variant_elems.clean_dtor_leftover [OF elems wf(1) clean]
    by (simp add: variant_elems.copy_ctor_eq [OF elems wf(2)] variant_elems.copy_assign_eq [OF elems wf]
        variant_elems.emplace_type_eq [OF elems wf(1) T] variant_elems.dtor_wf [OF elems wf(1)])
qed

theorem Variant_clean_lifetimes_witness:
  "\<exists>u. Variant_dtor ib_ops result_types (ib (HasV 3)) = Ret u \<and> leftover u = []"
  using Variant_clean_lifetimes [OF ib_elems ib_facts(1) [of "HasV 3"] ib_facts(1) [of "HasE True"]
      ib_facts(3), of "PVal 1"]
  by auto

text \<open>
  The source of a move is leaked: the move leaves its object alive in the storage but marks
  the variant valueless, so its destructor destroys nothing and the moved-out object is
  never destroyed.
\<close>

theorem Variant_move_leaks:
  assumes elems: "variant_elems ops mo Ts" and held: "holds ops Ts v i x"
  shows "\<exists>m s. Variant_move_ctor ops Ts v = Ret (m, s)
      \<and> Variant_dtor ops Ts s = Ret s \<and> leftover s = mo x # undestroyed (m_storage v)
      \<and> (\<forall>w. Variant_wf ops Ts w \<longrightarrow>
           (\<exists>t. Variant_move_assign ops Ts False w v = Ret (t, s)))"
proof -
  have wf: "Variant_wf ops Ts v" using held by (auto simp: Variant_wf_def)
  have s: "valueless (moved_from mo v)" by (rule variant_elems.moved_from_valueless [OF elems])
  have "Variant_dtor ops Ts (moved_from mo v) = Ret (moved_from mo v)"
    using s by (simp add: Variant_dtor_def variant_elems.destroy_valueless [OF elems])
  then show ?thesis
    using variant_elems.move_ctor_eq [OF elems wf] variant_elems.moved_from_leftover [OF elems held]
      variant_elems.move_assign_eq [OF elems _ wf]
    by auto
qed

theorem Variant_move_leaks_witness:
  "\<exists>m s. Variant_move_ctor ib_ops result_types (ib (HasV 3)) = Ret (m, s) \<and> PVal 3 \<in> set (leftover s)"
  using Variant_move_leaks [OF ib_elems ib_facts(4), of 3] by auto

text \<open>
  \<open>emplace\<close> with an initializer list is not exception safe: when the constructor throws, the
  exception leaves the call with the old alternative destroyed but its index kept, so the
  variant is no longer well-formed and its destructor is undefined behaviour. The other
  overloads are \<open>noexcept\<close>: there the exception terminates the program.
\<close>

theorem Variant_emplace_il_unsafe:
  assumes elems: "variant_elems ops mo Ts" and held: "holds ops Ts v i x" and T: "T \<in> set Ts"
    and throws: "mk T = Throws e"
  shows "\<exists>v'. Variant_emplace_type_il ops Ts T mk v = Some (Throws e, v')
      \<and> Variant_index v' = Variant_index v \<and> \<not> Variant_wf ops Ts v'
      \<and> Variant_dtor ops Ts v' = Undefined
      \<and> Variant_emplace_type ops Ts T mk v =
          Some (Terminates ''exception leaves a noexcept function'')"
proof -
  have wf: "Variant_wf ops Ts v" using held by (auto simp: Variant_wf_def)
  have "Variant_emplace_type_il ops Ts T mk v = Some (Throws e, destroyed v)"
    using variant_elems.destroy_then_construct_eq(2) [OF elems wf, of "first_index T Ts" e] T throws
    by (simp add: Variant_emplace_type_il_def get_index_of_type_in)
  moreover have "Variant_index (destroyed v) = Variant_index v"
    by (simp add: Variant_index_def destroyed_def)
  ultimately show ?thesis
    using variant_elems.destroyed_not_wf [OF elems held]
      variant_elems.emplace_type_eq [OF elems wf T, of mk] throws
    by simp
qed

theorem Variant_emplace_il_unsafe_witness:
  "\<exists>v'. Variant_emplace_type_il ib_ops result_types Tag_E (\<lambda>_. Throws ()) (ib (HasV 3)) = Some (Throws (), v')
     \<and> Variant_dtor ib_ops result_types v' = Undefined"
  using Variant_emplace_il_unsafe [OF ib_elems ib_facts(4), of Tag_E "\<lambda>_. Throws ()" "()" 3] by auto

end
