(* ===== verification/Error_Properties.thy ===== *)
theory Error_Properties
  imports Error_Code
begin

text \<open>The properties of \<open>StringView\<close>, the error domains, \<open>ErrorCode\<close> and the exceptions.\<close>

section \<open>StringView\<close>

text \<open>
  C38. A view made from a C string, of any length, has the string as its data and the low 32 bits
  of its length, read as a signed number, as its size. For strings shorter than 2 ^ 31 the view
  shows the string, the empty one included: its size is the length, iterating from \<open>begin\<close> to
  \<open>end\<close> reads its characters, from \<open>rbegin\<close> to \<open>rend\<close> the same backwards, indexing and \<open>at\<close> give the
  characters at their places and \<open>front\<close> and \<open>back\<close> the first and the last; \<open>empty\<close> holds exactly of
  the empty string, whose \<open>front\<close> reads the terminator and whose \<open>back\<close> reads before it. From
  2 ^ 31 to 2 ^ 32 the size is negative. The default view is empty and its loops read nothing.
\<close>

theorem StringView_shows_c_string:
  assumes nul: "CHR 0x00 \<notin> set s"
  shows "\<exists>sv. (StringView_from_ptr (c_str s) :: ('x, StringView) outcome) = Ret sv
      \<and> StringView_data sv = c_str s
      \<and> StringView_size sv = sint (of_nat (length s) :: int32_t) \<and> StringView_length sv = StringView_size sv
      \<and> (length s < 2 ^ 31 \<longrightarrow>
           StringView_size sv = int (length s)
           \<and> (StringView_chars sv :: ('x, string) outcome) = Ret s
           \<and> (StringView_rchars sv :: ('x, string) outcome) = Ret (rev s)
           \<and> (\<forall>pos. 0 \<le> sint pos \<and> sint pos < int (length s) \<longrightarrow>
                (StringView_index sv pos :: ('x, char) outcome) = Ret (s ! nat (sint pos))
                \<and> (StringView_at sv pos :: ('x, char) outcome) = Ret (s ! nat (sint pos)))
           \<and> (StringView_front sv :: ('x, char) outcome) = Ret (if s = [] then CHR 0x00 else hd s)
           \<and> (StringView_back sv :: ('x, char) outcome) = (if s = [] then Undefined else Ret (last s))
           \<and> (StringView_empty sv \<longleftrightarrow> s = []))
      \<and> (2 ^ 31 \<le> length s \<and> length s < 2 ^ 32 \<longrightarrow> StringView_size sv = int (length s) - 2 ^ 32)
      \<and> StringView_empty StringView_default
      \<and> (StringView_chars StringView_default :: ('x, string) outcome) = Ret []
      \<and> (StringView_rchars StringView_default :: ('x, string) outcome) = Ret []"
proof -
  let ?sv = "\<lparr>sv_value = c_str s, sv_size = of_nat (length s)\<rparr>"
  have short: "StringView_size ?sv = int (length s)
      \<and> (StringView_chars ?sv :: ('x, string) outcome) = Ret s
      \<and> (StringView_rchars ?sv :: ('x, string) outcome) = Ret (rev s)
      \<and> (\<forall>pos. 0 \<le> sint pos \<and> sint pos < int (length s) \<longrightarrow>
           (StringView_index ?sv pos :: ('x, char) outcome) = Ret (s ! nat (sint pos))
           \<and> (StringView_at ?sv pos :: ('x, char) outcome) = Ret (s ! nat (sint pos)))
      \<and> (StringView_front ?sv :: ('x, char) outcome) = Ret (if s = [] then CHR 0x00 else hd s)
      \<and> (StringView_back ?sv :: ('x, char) outcome) = (if s = [] then Undefined else Ret (last s))
      \<and> (StringView_empty ?sv \<longleftrightarrow> s = [])"
    if short: "length s < 2 ^ 31"
  proof -
    note wf = from_c_str_wf [OF short]
    have size: "sint (sv_size ?sv) = int (length s)" using sint_of_nat_int32 [OF short] by simp
    have "(StringView_index ?sv pos :: ('x, char) outcome) = Ret (s ! nat (sint pos))
        \<and> (StringView_at ?sv pos :: ('x, char) outcome) = Ret (s ! nat (sint pos))"
      if "0 \<le> sint pos" "sint pos < int (length s)" for pos
    proof -
      have "(StringView_at ?sv pos :: ('x, char) outcome) = StringView_index ?sv pos"
        using that size by (simp add: StringView_at_def StringView_index_def)
      then show ?thesis using index_in_range [OF wf(1) that(1)] that size wf(2) by simp
    qed
    moreover have "(StringView_front ?sv :: ('x, char) outcome) = Ret (if s = [] then CHR 0x00 else hd s)"
      by (cases s) (simp_all add: StringView_front_def read_mem_def c_str_def)
    moreover have "nat (int (length s) - 1) = length s - 1" by simp
    then have "(StringView_back ?sv :: ('x, char) outcome) = (if s = [] then Undefined else Ret (last s))"
      using size by (simp add: StringView_back_def read_mem_def c_str_def last_conv_nth nth_append)
    moreover have "StringView_empty ?sv \<longleftrightarrow> s = []"
      using size by (auto simp: StringView_empty_def)
    moreover have "StringView_size ?sv = int (length s)" using size by (simp only: StringView_size_def)
    moreover have "(StringView_chars ?sv :: ('x, string) outcome) = Ret s"
        "(StringView_rchars ?sv :: ('x, string) outcome) = Ret (rev s)"
      using chars_eq [OF wf(1)] rchars_eq [OF wf(1)] wf(2) by simp_all
    ultimately show ?thesis by blast
  qed
  have "StringView_empty StringView_default" "StringView_chars StringView_default = Ret []"
      "StringView_rchars StringView_default = Ret []"
    by (simp_all add: StringView_default_def StringView_empty_def StringView_chars_def StringView_rchars_def
        StringView_begin_def StringView_end_def StringView_rbegin_def StringView_rend_def)
  moreover have "StringView_size ?sv = int (length s) - 2 ^ 32" if "2 ^ 31 \<le> length s" "length s < 2 ^ 32"
    using sint_of_nat_wraps [OF that] by (simp add: StringView_size_def)
  ultimately show ?thesis
    using short
    by (intro exI [of _ ?sv])
      (simp add: StringView_data_def StringView_length_def from_c_str [OF nul], simp add: StringView_size_def)
qed

theorem StringView_shows_c_string_witness:
  "(\<exists>sv. StringView_from_ptr (c_str ''abc'') = (Ret sv :: (unit, StringView) outcome)
     \<and> StringView_rchars sv = (Ret ''cba'' :: (unit, string) outcome)
     \<and> StringView_at sv 1 = (Ret (CHR ''b'') :: (unit, char) outcome))
   \<and> (\<exists>sv. StringView_from_ptr (c_str '''') = (Ret sv :: (unit, StringView) outcome) \<and> StringView_empty sv)"
  using StringView_shows_c_string [where s = "''abc''" and 'x = unit]
    StringView_shows_c_string [where s = "''''" and 'x = unit]
  by (auto dest: spec [of _ "1 :: int32_t"])

text \<open>
  \<open>at\<close> checks its index only from above, and \<open>size_type\<close> is the signed \<open>int\<close>: a negative index
  passes the check and reads before the characters. An index past the end terminates.
\<close>

theorem StringView_at_negative:
  assumes wf: "StringView_wf sv"
  shows "StringView_at sv pos =
     (if sint pos < 0 then Undefined
      else if sint pos < StringView_size sv then Ret (view_text sv ! nat (sint pos))
      else Terminates '''')"
  using index_in_range [OF wf, of pos] wf
  by (auto simp: StringView_at_def StringView_size_def StringView_index_def read_mem_def
      StringView_wf_def split: option.splits)

theorem StringView_at_negative_witness:
  "StringView_at \<lparr>sv_value = c_str ''abc'', sv_size = 3\<rparr> (- 1) = (Undefined :: (unit, char) outcome)"
  using StringView_at_negative [where sv = "\<lparr>sv_value = c_str ''abc'', sv_size = 3\<rparr>" and pos = "- 1"]
  by (simp add: StringView_wf_def c_str_def)

section \<open>Error domains and error codes\<close>

text \<open>
  \<open>==\<close> on error codes is the equivalence that compares the identifier of the domain and the
  value, whatever the support data; \<open>!=\<close>, written separately, is its negation; and codes made
  from enumerators are equal exactly when the enumerators are.
\<close>

lemma ErrorCode_equality:
  shows "equivp ErrorCode_eq
     \<and> (ErrorCode_eq a b \<longleftrightarrow>
          ErrorDomain_Id (ErrorCode_Domain a) = ErrorDomain_Id (ErrorCode_Domain b)
          \<and> ErrorCode_Value a = ErrorCode_Value b)
     \<and> ErrorCode_neq a b = (\<not> ErrorCode_eq a b)
     \<and> ErrorCode_eq (a\<lparr>mSupportData := s\<rparr>) a
     \<and> (ErrorCode_eq (ErrorCode_of_enum MakeErrorCode_core c s) (ErrorCode_of_enum MakeErrorCode_core c' t) \<longleftrightarrow> c = c')
     \<and> (ErrorCode_eq (ErrorCode_of_enum MakeErrorCode_future f s) (ErrorCode_of_enum MakeErrorCode_future f' t) \<longleftrightarrow> f = f')
     \<and> \<not> ErrorCode_eq (MakeErrorCode_core c s) (MakeErrorCode_future f t)
     \<and> \<not> ErrorCode_eq (MakeErrorCode_core c s) (MakeErrorCode_optional p t)
     \<and> \<not> ErrorCode_eq (MakeErrorCode_future f s) (MakeErrorCode_optional p t)"
proof -
  have "equivp ErrorCode_eq"
    by (rule equivpI) (auto simp: reflp_def symp_def transp_def ErrorCode_eq_def ErrorDomain_eq_def)
  moreover have "GetCoreErrorDomain = CoreErrorDomain" "mId CoreErrorDomain \<noteq> mId FutureErrorDomain"
      "mId CoreErrorDomain \<noteq> mId OptionalErrorDomain" "mId FutureErrorDomain \<noteq> mId OptionalErrorDomain"
    using domain_ids_distinct
    by (simp_all add: GetCoreErrorDomain_def CoreErrorDomain_def FutureErrorDomain_def OptionalErrorDomain_def)
  ultimately show ?thesis
    using CoreErrc_code_inj future_errc_code_inj
    by (auto simp: ErrorCode_eq_def ErrorCode_neq_def ErrorDomain_eq_def ErrorDomain_neq_def
        ErrorDomain_Id_def ErrorCode_Domain_def ErrorCode_Value_def MakeErrorCode_core_def
        MakeErrorCode_future_def MakeErrorCode_optional_def ErrorCode_of_enum_def ErrorCode_ctor_def
        GetFutureErrorDomain_def GetOptionalDomain_def)
qed

text \<open>
  C36. In each of the three domains every enumerator has a message of its own, every other
  code the default message, and the message of an error code, as a view, reads as that
  text; the identifiers of the domains differ. \<open>==\<close> on error codes compares the domain's
  identifier and the value, \<open>!=\<close> is its negation, and codes made from enumerators are equal
  exactly when the enumerators are.
\<close>

theorem ErrorCode_messages:
  assumes d: "(d, errcs, dflt) \<in> {(GetCoreErrorDomain, CoreErrc_codes, ''Unknown error''),
      (GetFutureErrorDomain, future_errc_codes, ''unknown future error''),
      (GetOptionalDomain, optional_errc_codes, ''Unknown error'')}"
  shows "(ErrorDomain_Message d c = dflt \<longleftrightarrow> c \<notin> set errcs)
     \<and> (c \<in> set errcs \<and> ErrorDomain_Message d c' = ErrorDomain_Message d c \<longrightarrow> c' = c)
     \<and> (\<exists>sv. ErrorCode_Message (ErrorCode_ctor c d data) = Ret sv
          \<and> StringView_chars sv = Ret (ErrorDomain_Message d c))
     \<and> distinct (map ErrorDomain_Id [GetCoreErrorDomain, GetFutureErrorDomain, GetOptionalDomain])
     \<and> equivp ErrorCode_eq
     \<and> (ErrorCode_eq x y \<longleftrightarrow>
          ErrorDomain_Id (ErrorCode_Domain x) = ErrorDomain_Id (ErrorCode_Domain y)
          \<and> ErrorCode_Value x = ErrorCode_Value y)
     \<and> ErrorCode_neq x y = (\<not> ErrorCode_eq x y)
     \<and> (ErrorCode_eq (ErrorCode_of_enum MakeErrorCode_core k s) (ErrorCode_of_enum MakeErrorCode_core k' t) \<longleftrightarrow> k = k')
     \<and> (ErrorCode_eq (ErrorCode_of_enum MakeErrorCode_future f s) (ErrorCode_of_enum MakeErrorCode_future f' t) \<longleftrightarrow> f = f')
     \<and> \<not> ErrorCode_eq (MakeErrorCode_core k s) (MakeErrorCode_future f t)
     \<and> \<not> ErrorCode_eq (MakeErrorCode_core k s) (MakeErrorCode_optional p t)
     \<and> \<not> ErrorCode_eq (MakeErrorCode_future f s) (MakeErrorCode_optional p t)"
proof -
  have contract: "error_domain_contract d errcs dflt"
    using d core_domain.error_domain_contract_axioms future_domain.error_domain_contract_axioms
      optional_domain.error_domain_contract_axioms
    by (auto simp: GetCoreErrorDomain_def GetFutureErrorDomain_def GetOptionalDomain_def)
  let ?sv = "\<lparr>sv_value = c_str (ErrorDomain_Message d c),
      sv_size = of_nat (length (ErrorDomain_Message d c))\<rparr>"
  have "ErrorCode_Message (ErrorCode_ctor c d data) = Ret ?sv"
    using error_domain_contract.message_view [OF contract]
    by (simp add: ErrorCode_Message_def ErrorCode_ctor_def ErrorCode_Domain_def ErrorCode_Value_def)
  moreover have "StringView_chars ?sv = Ret (ErrorDomain_Message d c)"
    using chars_eq [OF from_c_str_wf(1) [OF error_domain_contract.messages_short [OF contract]], of c]
      error_domain_contract.message_view_text [OF contract, of c]
    by simp
  moreover have "distinct (map ErrorDomain_Id [GetCoreErrorDomain, GetFutureErrorDomain, GetOptionalDomain])"
    using domain_ids_distinct
    by (simp add: ErrorDomain_Id_def GetCoreErrorDomain_def GetFutureErrorDomain_def
        GetOptionalDomain_def CoreErrorDomain_def FutureErrorDomain_def OptionalErrorDomain_def)
  moreover have "ErrorDomain_Message d c = dflt \<longleftrightarrow> c \<notin> set errcs"
      "c \<in> set errcs \<and> ErrorDomain_Message d c' = ErrorDomain_Message d c \<longrightarrow> c' = c"
    using error_domain_contract.default_iff [OF contract] error_domain_contract.message_injective [OF contract]
    by metis+
  ultimately have texts: "(ErrorDomain_Message d c = dflt \<longleftrightarrow> c \<notin> set errcs)"
      "c \<in> set errcs \<and> ErrorDomain_Message d c' = ErrorDomain_Message d c \<longrightarrow> c' = c"
      "\<exists>sv. ErrorCode_Message (ErrorCode_ctor c d data) = Ret sv
        \<and> StringView_chars sv = Ret (ErrorDomain_Message d c)"
      "distinct (map ErrorDomain_Id [GetCoreErrorDomain, GetFutureErrorDomain, GetOptionalDomain])"
    by blast+
  note equality = ErrorCode_equality [of x y s k k' t f f' p]
  show ?thesis by (intro conjI texts) (use equality in blast)+
qed

theorem ErrorCode_messages_witness:
  "\<exists>sv. ErrorCode_Message (MakeErrorCode_future broken_promise 0) = (Ret sv :: (unit, StringView) outcome)
     \<and> StringView_chars sv = (Ret ''broken promise'' :: (unit, string) outcome)"
proof -
  have "(GetFutureErrorDomain, future_errc_codes, ''unknown future error'') \<in>
    {(GetCoreErrorDomain, CoreErrc_codes, ''Unknown error''),
      (GetFutureErrorDomain, future_errc_codes, ''unknown future error''),
      (GetOptionalDomain, optional_errc_codes, ''Unknown error'')}" by simp
  from ErrorCode_messages [OF this, of 101 101 0]
  have "\<exists>sv. ErrorCode_Message (ErrorCode_ctor 101 GetFutureErrorDomain 0) = (Ret sv :: (unit, StringView) outcome)
     \<and> StringView_chars sv = (Ret (ErrorDomain_Message GetFutureErrorDomain 101) :: (unit, string) outcome)"
    by blast
  then show ?thesis
    by (auto simp: MakeErrorCode_future_def ErrorDomain_Message_def GetFutureErrorDomain_def
      FutureErrorDomain_def FutureErrorDomain_Message_def)
qed

lemma append_sep_inject:
  "c \<notin> set a \<Longrightarrow> c \<notin> set b \<Longrightarrow> a @ [c] @ x = b @ [c] @ y \<longleftrightarrow> a = b \<and> x = y"
  by (induction a arbitrary: b) (auto simp: Cons_eq_append_conv, (case_tac b; auto)+)

text \<open>
  C37. The printed form of an error code can be read back: two codes of domains whose names have
  no colon print the same only when name, value and support data are the same. Exceptions of
  futures that carry such codes print the same exactly when their codes and messages do.
\<close>

theorem ErrorCode_print_injective:
  assumes names: "CHR '':'' \<notin> set (ErrorDomain_Name (mDomain a))"
      "CHR '':'' \<notin> set (ErrorDomain_Name (mDomain b))"
  shows "(ErrorCode_print a = ErrorCode_print b \<longleftrightarrow>
       ErrorDomain_Name (mDomain a) = ErrorDomain_Name (mDomain b)
       \<and> ErrorCode_Value a = ErrorCode_Value b \<and> ErrorCode_SupportData a = ErrorCode_SupportData b)
     \<and> (FutureException_print (Exception_ctor cls a) = FutureException_print (Exception_ctor cls' b) \<longleftrightarrow>
       ErrorCode_print a = ErrorCode_print b
       \<and> Exception_what (Exception_ctor cls a) = Exception_what (Exception_ctor cls' b))"
proof -
  have inj: "show_int i = show_int j \<longleftrightarrow> i = j" for i j
    by (metis read_show_int)
  have sint_inj: "sint x = sint y \<longleftrightarrow> x = y" for x y :: int32_t
    by (auto intro: signed_word_eqI)
  note parts = append_sep_inject [OF names] append_sep_inject [OF colon_not_in_show_int colon_not_in_show_int]
  have blank: "show_int i @ '' ('' @ m @ '')'' = show_int j @ '' ('' @ m' @ '')'' \<longleftrightarrow> i = j \<and> m = m'" for i j m m'
    using append_sep_inject [OF blank_not_in_show_int blank_not_in_show_int, of i "CHR ''('' # m @ '')''" j "CHR ''('' # m' @ '')''"]
    by (simp add: inj)
  have "ErrorCode_print a = ErrorCode_print b \<longleftrightarrow>
      ErrorDomain_Name (mDomain a) = ErrorDomain_Name (mDomain b)
      \<and> ErrorCode_Value a = ErrorCode_Value b \<and> ErrorCode_SupportData a = ErrorCode_SupportData b"
    unfolding ErrorCode_print_def parts inj
    by (simp add: ErrorCode_Value_def ErrorCode_SupportData_def sint_inj)
  moreover have "FutureException_print (Exception_ctor cls a) = FutureException_print (Exception_ctor cls' b) \<longleftrightarrow>
      ErrorDomain_Name (mDomain a) = ErrorDomain_Name (mDomain b)
      \<and> ErrorCode_Value a = ErrorCode_Value b \<and> ErrorCode_SupportData a = ErrorCode_SupportData b
      \<and> Exception_what (Exception_ctor cls a) = Exception_what (Exception_ctor cls' b)"
    unfolding FutureException_print_def same_append_eq Exception_Error_def Exception_ctor_def
      ara_exception.select_convs ErrorCode_print_def append_assoc parts blank inj
    by (simp add: ErrorCode_Value_def ErrorCode_SupportData_def sint_inj)
  ultimately show ?thesis by blast
qed

theorem ErrorCode_print_injective_witness:
  "ErrorCode_print (MakeErrorCode_core kInvalidArgument 0) \<noteq> ErrorCode_print (MakeErrorCode_future no_state 0)"
  using ErrorCode_print_injective [of "MakeErrorCode_core kInvalidArgument 0" "MakeErrorCode_future no_state 0" CoreException FutureException]
  by (simp add: MakeErrorCode_core_def MakeErrorCode_future_def ErrorCode_ctor_def ErrorDomain_Name_def
      GetCoreErrorDomain_def GetFutureErrorDomain_def CoreErrorDomain_def FutureErrorDomain_def
      CoreErrorDomain_Name_def FutureErrorDomain_Name_def)

text \<open>
  \<open>ThrowAsException\<close> never returns: it throws the exception class of the code's own domain,
  which carries the code and whose \<open>what\<close> is the message, or in a build without exceptions
  terminates. Assigning to an exception through the base class changes its code and message but
  not its class.
\<close>

theorem ErrorCode_throws_own_class:
  shows "ErrorCode_ThrowAsException noexc ec =
      (if noexc then Terminates ''''
       else Throws (AraException (Exception_ctor (vt_Exception (ErrorCode_Domain ec)) ec)))
    \<and> Exception_Error (Exception_ctor cls ec) = ec
    \<and> Exception_what (Exception_ctor cls ec) = ErrorDomain_Message (ErrorCode_Domain ec) (ErrorCode_Value ec)
    \<and> exn_type (Exception_copy_assign ex ex') = exn_type ex
    \<and> Exception_Error (Exception_copy_assign ex ex') = Exception_Error ex'
    \<and> Exception_what (Exception_copy_assign ex ex') = Exception_what ex'
    \<and> vt_Exception GetCoreErrorDomain = CoreException
    \<and> vt_Exception GetFutureErrorDomain = FutureException
    \<and> vt_Exception GetOptionalDomain = OptionalException"
  by (simp add: ErrorCode_ThrowAsException_def ErrorDomain_ThrowAsException_def ThrowOrTerminate_def
      Exception_ctor_def Exception_Error_def Exception_what_def Exception_copy_assign_def
      GetCoreErrorDomain_def GetFutureErrorDomain_def GetOptionalDomain_def CoreErrorDomain_def
      FutureErrorDomain_def OptionalErrorDomain_def)

end
