(* ===== verification/Optional.thy ===== *)
theory Optional
  imports Prelude
begin

text \<open>
  \<open>ara/core/optional.h\<close>: the class \<open>Optional<T>\<close>, a flag \<open>init\<close> and a \<open>unique_ptr\<close> to the
  value (\<open>None\<close> is the null pointer). An operation that can throw half-way returns the
  state it leaves next to its outcome.
\<close>

section \<open>State and construction\<close>

record 'v Optional =
  opt_init :: bool
  opt_val :: "'v option"

definition Optional_default :: "'v Optional" where
  "Optional_default = \<lparr>opt_init = False, opt_val = None\<rparr>"

definition Optional_nullopt :: "'v Optional" where
  "Optional_nullopt = \<lparr>opt_init = False, opt_val = None\<rparr>"

text \<open>\<open>*val\<close>; the null pointer must not be dereferenced.\<close>

definition deref_val :: "'v Optional \<Rightarrow> ('x, 'v) outcome" where
  "deref_val opt = (case opt_val opt of None \<Rightarrow> Undefined | Some v \<Rightarrow> Ret v)"

definition Optional_copy_ctor ::
  "('x, 't, 'v) elem_ops \<Rightarrow> 'v Optional \<Rightarrow> ('x, 'v Optional) outcome" where
  "Optional_copy_ctor ops other =
     (if opt_init other
      then obind (deref_val other) (\<lambda>v. obind (copy_ctor ops v)
             (\<lambda>n. Ret \<lparr>opt_init = opt_init other, opt_val = Some n\<rparr>))
      else Ret \<lparr>opt_init = opt_init other, opt_val = None\<rparr>)"

definition Optional_move_ctor :: "'v Optional \<Rightarrow> 'v Optional \<times> 'v Optional" where
  "Optional_move_ctor other =
     (\<lparr>opt_init = opt_init other, opt_val = opt_val other\<rparr>, other\<lparr>opt_val := None\<rparr>)"

definition Optional_from_lvalue ::
  "('x, 't, 'v) elem_ops \<Rightarrow> 'v \<Rightarrow> ('x, 'v Optional) outcome" where
  "Optional_from_lvalue ops v =
     obind (copy_ctor ops v) (\<lambda>n. Ret \<lparr>opt_init = True, opt_val = Some n\<rparr>)"

definition Optional_from_rvalue ::
  "('x, 't, 'v) elem_ops \<Rightarrow> 'v \<Rightarrow> ('x, 'v Optional \<times> 'v) outcome" where
  "Optional_from_rvalue ops v =
     obind (move_ctor ops v) (\<lambda>(n, v'). Ret (\<lparr>opt_init = True, opt_val = Some n\<rparr>, v'))"

section \<open>Assignment\<close>

definition Optional_assign_nullopt :: "'v Optional \<Rightarrow> 'v Optional" where
  "Optional_assign_nullopt this = this\<lparr>opt_init := False, opt_val := None\<rparr>"

definition Optional_copy_assign ::
  "('x, 't, 'v) elem_ops \<Rightarrow> 'v Optional \<Rightarrow> 'v Optional \<Rightarrow> ('x, unit) outcome \<times> 'v Optional" where
  "Optional_copy_assign ops this rhs =
     (let this1 = this\<lparr>opt_init := opt_init rhs\<rparr>
      in case (if opt_init rhs
               then obind (deref_val rhs) (\<lambda>v. obind (copy_ctor ops v) (\<lambda>n. Ret (Some n)))
               else Ret None) of
           Ret p \<Rightarrow> (Ret (), this1\<lparr>opt_val := p\<rparr>)
         | other \<Rightarrow> (obind other (\<lambda>_. Ret ()), this1))"

definition Optional_move_assign ::
  "('x, 't, 'v) elem_ops \<Rightarrow> 'v Optional \<Rightarrow> 'v Optional \<Rightarrow>
   ('x, unit) outcome \<times> 'v Optional \<times> 'v Optional" where
  "Optional_move_assign ops this rhs =
     (let this1 = this\<lparr>opt_init := opt_init rhs\<rparr>
      in case (if opt_init rhs
               then obind (deref_val rhs) (\<lambda>v. obind (move_ctor ops v)
                      (\<lambda>(n, v'). Ret (Some n, rhs\<lparr>opt_val := Some v'\<rparr>)))
               else Ret (None, rhs)) of
           Ret (p, rhs') \<Rightarrow> (Ret (), this1\<lparr>opt_val := p\<rparr>, rhs')
         | other \<Rightarrow> (obind other (\<lambda>_. Ret ()), this1, rhs))"

text \<open>
  Assignment from a value: \<open>new T(std::move(rhs))\<close> whatever the value category of the
  argument; only a \<open>const\<close> argument is copied. The last component is what the
  argument holds afterwards.
\<close>

definition Optional_assign_value ::
  "('x, 't, 'v) elem_ops \<Rightarrow> 't \<Rightarrow> bool \<Rightarrow> 'v Optional \<Rightarrow> 'v \<Rightarrow>
   ('x, unit) outcome \<times> 'v Optional \<times> 'v" where
  "Optional_assign_value ops T is_const this rhs =
     (let this1 = this\<lparr>opt_init := True\<rparr>
      in case construct_from ops (if is_const then LValue else RValue) T rhs of
           Ret (n, rhs') \<Rightarrow> (Ret (), this1\<lparr>opt_val := Some n\<rparr>, rhs')
         | other \<Rightarrow> (obind other (\<lambda>_. Ret ()), this1, rhs))"

text \<open>\<open>mk\<close> is the constructor of \<open>T\<close> applied to the forwarded arguments.\<close>

definition Optional_emplace ::
  "('x, 'v) outcome \<Rightarrow> 'v Optional \<Rightarrow> ('x, unit) outcome \<times> 'v Optional" where
  "Optional_emplace mk this =
     (let this1 = Optional_assign_nullopt this;
          this2 = this1\<lparr>opt_init := True\<rparr>
      in case mk of
           Ret n \<Rightarrow> (Ret (), this2\<lparr>opt_val := Some n\<rparr>)
         | other \<Rightarrow> (obind other (\<lambda>_. Ret ()), this2))"

definition Optional_emplace_il ::
  "('x, 'v) outcome \<Rightarrow> 'v Optional \<Rightarrow> ('x, unit) outcome \<times> 'v Optional" where
  "Optional_emplace_il mk this =
     (let this1 = Optional_assign_nullopt this;
          this2 = this1\<lparr>opt_init := True\<rparr>
      in case mk of
           Ret n \<Rightarrow> (Ret (), this2\<lparr>opt_val := Some n\<rparr>)
         | other \<Rightarrow> (obind other (\<lambda>_. Ret ()), this2))"

definition Optional_reset :: "'v Optional \<Rightarrow> 'v Optional" where
  "Optional_reset this = this\<lparr>opt_init := False, opt_val := None\<rparr>"

definition Optional_swap :: "'v Optional \<Rightarrow> 'v Optional \<Rightarrow> 'v Optional \<times> 'v Optional" where
  "Optional_swap this rhs =
     (let (this1, rhs1) = (this\<lparr>opt_val := opt_val rhs\<rparr>, rhs\<lparr>opt_val := opt_val this\<rparr>)
      in (this1\<lparr>opt_init := opt_init rhs1\<rparr>, rhs1\<lparr>opt_init := opt_init this1\<rparr>))"

section \<open>Observers\<close>

definition Optional_arrow :: "'v Optional \<Rightarrow> 'v option" where
  "Optional_arrow opt = opt_val opt"

definition Optional_deref :: "'v Optional \<Rightarrow> ('x, 'v) outcome" where
  "Optional_deref opt = deref_val opt"

definition Optional_has_value :: "'v Optional \<Rightarrow> bool" where
  "Optional_has_value opt = opt_init opt"

definition Optional_bool :: "'v Optional \<Rightarrow> bool" where
  "Optional_bool opt = opt_init opt"

definition Optional_value_or ::
  "('x, 't, 'v) elem_ops \<Rightarrow> 'v Optional \<Rightarrow> ('x, 'v) outcome \<Rightarrow> ('x, 'v) outcome" where
  "Optional_value_or ops this v =
     (if Optional_bool this then obind (Optional_deref this) (copy_ctor ops) else v)"

definition Optional_value_or_rvalue ::
  "('x, 't, 'v) elem_ops \<Rightarrow> 'v Optional \<Rightarrow> ('x, 'v) outcome \<Rightarrow> ('x, 'v \<times> 'v Optional) outcome" where
  "Optional_value_or_rvalue ops this v =
     (if Optional_bool this
      then obind (Optional_deref this) (\<lambda>x. obind (move_ctor ops x)
             (\<lambda>(n, x'). Ret (n, this\<lparr>opt_val := Some x'\<rparr>)))
      else obind v (\<lambda>n. Ret (n, this)))"

section \<open>Relational operators\<close>

text \<open>\<open>eq\<close> and \<open>lt\<close> are \<open>operator==\<close> and \<open>std::less\<close> of \<open>T\<close>.\<close>

definition onot :: "('x, bool) outcome \<Rightarrow> ('x, bool) outcome" where
  "onot r = obind r (\<lambda>b. Ret (\<not> b))"

definition oand :: "('x, bool) outcome \<Rightarrow> ('x, bool) outcome \<Rightarrow> ('x, bool) outcome" where
  "oand r s = obind r (\<lambda>b. if b then s else Ret False)"

definition oor :: "('x, bool) outcome \<Rightarrow> ('x, bool) outcome \<Rightarrow> ('x, bool) outcome" where
  "oor r s = obind r (\<lambda>b. if b then Ret True else s)"

definition Optional_eq ::
  "('v \<Rightarrow> 'v \<Rightarrow> bool) \<Rightarrow> 'v Optional \<Rightarrow> 'v Optional \<Rightarrow> ('x, bool) outcome" where
  "Optional_eq eq x y =
     (if Optional_bool x \<noteq> Optional_bool y then Ret False
      else if \<not> Optional_bool x then Ret True
      else obind (Optional_deref x) (\<lambda>a. obind (Optional_deref y) (\<lambda>b. Ret (eq a b))))"

definition Optional_neq ::
  "('v \<Rightarrow> 'v \<Rightarrow> bool) \<Rightarrow> 'v Optional \<Rightarrow> 'v Optional \<Rightarrow> ('x, bool) outcome" where
  "Optional_neq eq x y = onot (Optional_eq eq x y)"

definition Optional_less ::
  "('v \<Rightarrow> 'v \<Rightarrow> bool) \<Rightarrow> 'v Optional \<Rightarrow> 'v Optional \<Rightarrow> ('x, bool) outcome" where
  "Optional_less lt x y =
     (if \<not> Optional_bool y then Ret False
      else if \<not> Optional_bool x then Ret True
      else obind (Optional_deref x) (\<lambda>a. obind (Optional_deref y) (\<lambda>b. Ret (lt a b))))"

definition Optional_greater ::
  "('v \<Rightarrow> 'v \<Rightarrow> bool) \<Rightarrow> ('v \<Rightarrow> 'v \<Rightarrow> bool) \<Rightarrow> 'v Optional \<Rightarrow> 'v Optional \<Rightarrow> ('x, bool) outcome" where
  "Optional_greater eq lt x y =
     oand (onot (Optional_less lt x y)) (onot (Optional_eq eq x y))"

definition Optional_le ::
  "('v \<Rightarrow> 'v \<Rightarrow> bool) \<Rightarrow> ('v \<Rightarrow> 'v \<Rightarrow> bool) \<Rightarrow> 'v Optional \<Rightarrow> 'v Optional \<Rightarrow> ('x, bool) outcome" where
  "Optional_le eq lt x y = oor (Optional_less lt x y) (Optional_eq eq x y)"

definition Optional_ge ::
  "('v \<Rightarrow> 'v \<Rightarrow> bool) \<Rightarrow> 'v Optional \<Rightarrow> 'v Optional \<Rightarrow> ('x, bool) outcome" where
  "Optional_ge lt x y = onot (Optional_less lt x y)"

subsection \<open>Comparison with \<open>nullopt\<close>\<close>

definition eq_nullopt :: "'v Optional \<Rightarrow> bool" where
  "eq_nullopt x \<longleftrightarrow> \<not> Optional_bool x"

definition nullopt_eq :: "'v Optional \<Rightarrow> bool" where
  "nullopt_eq x \<longleftrightarrow> \<not> Optional_bool x"

definition neq_nullopt :: "'v Optional \<Rightarrow> bool" where
  "neq_nullopt x \<longleftrightarrow> \<not> eq_nullopt x"

definition nullopt_neq :: "'v Optional \<Rightarrow> bool" where
  "nullopt_neq x \<longleftrightarrow> \<not> nullopt_eq x"

definition less_nullopt :: "'v Optional \<Rightarrow> bool" where
  "less_nullopt x \<longleftrightarrow> False"

definition nullopt_less :: "'v Optional \<Rightarrow> bool" where
  "nullopt_less x \<longleftrightarrow> Optional_bool x"

definition le_nullopt :: "'v Optional \<Rightarrow> bool" where
  "le_nullopt x \<longleftrightarrow> less_nullopt x \<or> eq_nullopt x"

definition nullopt_le :: "'v Optional \<Rightarrow> bool" where
  "nullopt_le x \<longleftrightarrow> nullopt_less x \<or> nullopt_eq x"

definition greater_nullopt :: "'v Optional \<Rightarrow> bool" where
  "greater_nullopt x \<longleftrightarrow> \<not> less_nullopt x \<and> \<not> eq_nullopt x"

definition nullopt_greater :: "'v Optional \<Rightarrow> bool" where
  "nullopt_greater x \<longleftrightarrow> \<not> nullopt_less x \<and> \<not> nullopt_eq x"

definition ge_nullopt :: "'v Optional \<Rightarrow> bool" where
  "ge_nullopt x \<longleftrightarrow> \<not> less_nullopt x"

definition nullopt_ge :: "'v Optional \<Rightarrow> bool" where
  "nullopt_ge x \<longleftrightarrow> \<not> nullopt_less x"

subsection \<open>Comparison with a value of \<open>T\<close>\<close>

definition eq_value :: "('v \<Rightarrow> 'v \<Rightarrow> bool) \<Rightarrow> 'v Optional \<Rightarrow> 'v \<Rightarrow> ('x, bool) outcome" where
  "eq_value eq x v =
     (if Optional_bool x then obind (Optional_deref x) (\<lambda>a. Ret (eq a v)) else Ret False)"

definition value_eq :: "('v \<Rightarrow> 'v \<Rightarrow> bool) \<Rightarrow> 'v \<Rightarrow> 'v Optional \<Rightarrow> ('x, bool) outcome" where
  "value_eq eq v x =
     (if Optional_bool x then obind (Optional_deref x) (\<lambda>a. Ret (eq v a)) else Ret False)"

definition neq_value :: "('v \<Rightarrow> 'v \<Rightarrow> bool) \<Rightarrow> 'v Optional \<Rightarrow> 'v \<Rightarrow> ('x, bool) outcome" where
  "neq_value eq x v = onot (eq_value eq x v)"

definition value_neq :: "('v \<Rightarrow> 'v \<Rightarrow> bool) \<Rightarrow> 'v \<Rightarrow> 'v Optional \<Rightarrow> ('x, bool) outcome" where
  "value_neq eq v x = onot (value_eq eq v x)"

definition less_value :: "('v \<Rightarrow> 'v \<Rightarrow> bool) \<Rightarrow> 'v Optional \<Rightarrow> 'v \<Rightarrow> ('x, bool) outcome" where
  "less_value lt x v =
     (if Optional_bool x then obind (Optional_deref x) (\<lambda>a. Ret (lt a v)) else Ret True)"

definition value_less :: "('v \<Rightarrow> 'v \<Rightarrow> bool) \<Rightarrow> 'v \<Rightarrow> 'v Optional \<Rightarrow> ('x, bool) outcome" where
  "value_less lt v x =
     (if Optional_bool x then obind (Optional_deref x) (\<lambda>a. Ret (lt v a)) else Ret False)"

definition le_value ::
  "('v \<Rightarrow> 'v \<Rightarrow> bool) \<Rightarrow> ('v \<Rightarrow> 'v \<Rightarrow> bool) \<Rightarrow> 'v Optional \<Rightarrow> 'v \<Rightarrow> ('x, bool) outcome" where
  "le_value eq lt x v = oor (less_value lt x v) (eq_value eq x v)"

definition value_le ::
  "('v \<Rightarrow> 'v \<Rightarrow> bool) \<Rightarrow> ('v \<Rightarrow> 'v \<Rightarrow> bool) \<Rightarrow> 'v \<Rightarrow> 'v Optional \<Rightarrow> ('x, bool) outcome" where
  "value_le eq lt v x = oor (value_less lt v x) (value_eq eq v x)"

definition greater_value ::
  "('v \<Rightarrow> 'v \<Rightarrow> bool) \<Rightarrow> ('v \<Rightarrow> 'v \<Rightarrow> bool) \<Rightarrow> 'v Optional \<Rightarrow> 'v \<Rightarrow> ('x, bool) outcome" where
  "greater_value eq lt x v = oand (onot (less_value lt x v)) (onot (eq_value eq x v))"

definition value_greater ::
  "('v \<Rightarrow> 'v \<Rightarrow> bool) \<Rightarrow> ('v \<Rightarrow> 'v \<Rightarrow> bool) \<Rightarrow> 'v \<Rightarrow> 'v Optional \<Rightarrow> ('x, bool) outcome" where
  "value_greater eq lt v x = oand (onot (value_less lt v x)) (onot (value_eq eq v x))"

definition ge_value :: "('v \<Rightarrow> 'v \<Rightarrow> bool) \<Rightarrow> 'v Optional \<Rightarrow> 'v \<Rightarrow> ('x, bool) outcome" where
  "ge_value lt x v = onot (less_value lt x v)"

definition value_ge :: "('v \<Rightarrow> 'v \<Rightarrow> bool) \<Rightarrow> 'v \<Rightarrow> 'v Optional \<Rightarrow> ('x, bool) outcome" where
  "value_ge lt v x = onot (value_less lt v x)"

section \<open>Specialised algorithms\<close>

definition Optional_swap_free :: "'v Optional \<Rightarrow> 'v Optional \<Rightarrow> 'v Optional \<times> 'v Optional" where
  "Optional_swap_free x y = Optional_swap x y"

definition make_optional ::
  "('x, 't, 'v) elem_ops \<Rightarrow> 'v \<Rightarrow> ('x, 'v Optional \<times> 'v) outcome" where
  "make_optional ops v = Optional_from_rvalue ops v"

definition hash_Optional :: "('v \<Rightarrow> size_t) \<Rightarrow> 'v Optional \<Rightarrow> ('x, size_t) outcome" where
  "hash_Optional hash_T opt =
     (if Optional_bool opt then obind (Optional_deref opt) (\<lambda>a. Ret (hash_T a)) else Ret 0)"

end
