(* ===== verification/Optional_Correct.thy ===== *)
theory Optional_Correct
  imports Optional Element_Types "HOL-Library.Option_ord"
begin

text \<open>
  Correctness of \<open>Optional<T>\<close>. The abstract value of an \<open>Optional\<close> is a HOL option; the
  representation invariant is that the flag says whether the pointer is set. The
  operators are the order of options with \<open>None\<close> least; constructors, assignments, swap and
  observers refine the operations on options. The invariant is lost by a move, and by
  an allocation that throws.
\<close>

section \<open>Invariant and abstraction\<close>

definition Optional_wf :: "'v Optional \<Rightarrow> bool" where
  "Optional_wf x \<longleftrightarrow> opt_init x = (opt_val x \<noteq> None)"

definition Optional_rep :: "'v option \<Rightarrow> 'v Optional" where
  "Optional_rep a = \<lparr>opt_init = (a \<noteq> None), opt_val = a\<rparr>"

lemma Optional_rep_wf [simp]: "Optional_wf (Optional_rep a)"
  by (simp add: Optional_wf_def Optional_rep_def)

lemma Optional_rep_sel [simp]: "opt_init (Optional_rep a) = (a \<noteq> None)" "opt_val (Optional_rep a) = a"
  by (simp_all add: Optional_rep_def)

lemma Optional_wf_cases [consumes 1]:
  assumes "Optional_wf x"
  obtains a where "x = Optional_rep a"
  using assms by (cases x) (auto simp: Optional_wf_def Optional_rep_def)

lemma Optional_wf_rep: "Optional_wf x \<longleftrightarrow> x = Optional_rep (opt_val x)"
  by (cases x) (auto simp: Optional_wf_def Optional_rep_def)

lemma Optional_rep_inject [simp]: "Optional_rep a = Optional_rep b \<longleftrightarrow> a = b"
  by (auto simp: Optional_rep_def)

named_theorems optional_defs "the definitions of the operations of Optional"

lemmas [optional_defs] =
  Optional_default_def Optional_nullopt_def deref_val_def Optional_copy_ctor_def
  Optional_move_ctor_def Optional_from_lvalue_def Optional_from_rvalue_def
  Optional_assign_nullopt_def Optional_copy_assign_def Optional_move_assign_def
  Optional_assign_value_def Optional_emplace_def Optional_emplace_il_def Optional_reset_def
  Optional_swap_def Optional_swap_free_def Optional_arrow_def Optional_deref_def
  Optional_has_value_def Optional_bool_def Optional_value_or_def Optional_value_or_rvalue_def
  make_optional_def hash_Optional_def

named_theorems optional_rel "the definitions of the relational operators of Optional"

lemmas [optional_rel] =
  onot_def oand_def oor_def Optional_eq_def Optional_neq_def Optional_less_def
  Optional_greater_def Optional_le_def Optional_ge_def Optional_bool_def Optional_deref_def
  deref_val_def eq_nullopt_def nullopt_eq_def neq_nullopt_def nullopt_neq_def less_nullopt_def
  nullopt_less_def le_nullopt_def nullopt_le_def greater_nullopt_def nullopt_greater_def
  ge_nullopt_def nullopt_ge_def eq_value_def value_eq_def neq_value_def value_neq_def
  less_value_def value_less_def le_value_def value_le_def greater_value_def value_greater_def
  ge_value_def value_ge_def

section \<open>Operations on well-formed optionals\<close>

lemma Optional_default_rep: "Optional_default = Optional_rep None"
  and Optional_nullopt_rep: "Optional_nullopt = Optional_rep None"
  and Optional_assign_nullopt_rep: "Optional_assign_nullopt this = Optional_rep None"
  and Optional_reset_rep: "Optional_reset this = Optional_rep None"
  by (simp_all add: optional_defs Optional_rep_def)

lemma Optional_swap_eq: "Optional_swap x y = (y, x)"
  by (simp add: optional_defs)

lemma Optional_emplace_eq:
  "Optional_emplace mk this =
     (case mk of Ret n \<Rightarrow> (Ret (), Optional_rep (Some n))
      | e \<Rightarrow> (obind e (\<lambda>_. Ret ()), \<lparr>opt_init = True, opt_val = None\<rparr>))"
  by (simp add: optional_defs Optional_rep_def split: outcome.split)

lemma Optional_emplace_il_eq: "Optional_emplace_il = Optional_emplace"
  by (intro ext) (simp add: optional_defs)

lemma fst_Optional_move_ctor: "fst (Optional_move_ctor x) = x"
  by (simp add: optional_defs)

lemma snd_Optional_move_ctor:
  "Optional_wf (snd (Optional_move_ctor (Optional_rep a))) \<longleftrightarrow> a = None"
  "snd (Optional_move_ctor (Optional_rep None)) = Optional_rep None"
  by (simp_all add: optional_defs Optional_rep_def Optional_wf_def)

lemma assign_converted:
  "type_of ops u \<noteq> T \<Longrightarrow> conv_ctor ops T u = Ret n \<Longrightarrow>
   Optional_assign_value ops T c this u = (Ret (), Optional_rep (Some n), u)"
  by (simp add: optional_defs construct_from_def Optional_rep_def)

lemma hash_Optional_rep:
  "hash_Optional h (Optional_rep a) = Ret (case a of None \<Rightarrow> 0 | Some u \<Rightarrow> h u)"
  by (cases a) (simp_all add: optional_defs)

context regular_elems
begin

lemma Optional_copy_ctor_eq [simp]:
  "Optional_copy_ctor ops (Optional_rep a) = Ret (Optional_rep a)"
  by (cases a) (simp_all add: optional_defs Optional_rep_def)

lemma Optional_from_lvalue_eq [simp]:
  "Optional_from_lvalue ops v = Ret (Optional_rep (Some v))"
  by (simp add: optional_defs Optional_rep_def)

lemma Optional_from_rvalue_eq [simp]:
  "Optional_from_rvalue ops v = Ret (Optional_rep (Some v), moved_out v)"
  by (simp add: optional_defs Optional_rep_def)

lemma Optional_copy_assign_eq [simp]:
  "Optional_copy_assign ops this (Optional_rep a) = (Ret (), Optional_rep a)"
  by (cases a) (simp_all add: optional_defs Optional_rep_def)

lemma Optional_move_assign_eq [simp]:
  "Optional_move_assign ops this (Optional_rep a) =
     (Ret (), Optional_rep a, Optional_rep (map_option moved_out a))"
  by (cases a) (simp_all add: optional_defs Optional_rep_def)

lemma Optional_assign_value_eq:
  "type_of ops v = T \<Longrightarrow>
   Optional_assign_value ops T c this v =
     (Ret (), Optional_rep (Some v), if c then v else moved_out v)"
  by (simp add: optional_defs construct_same Optional_rep_def)

lemma Optional_value_or_eq [simp]:
  "Optional_value_or ops (Optional_rep a) (Ret d) = Ret (case a of None \<Rightarrow> d | Some v \<Rightarrow> v)"
  by (cases a) (simp_all add: optional_defs Optional_rep_def)

lemma Optional_value_or_rvalue_eq [simp]:
  "Optional_value_or_rvalue ops (Optional_rep a) (Ret d) =
     Ret (case a of None \<Rightarrow> d | Some v \<Rightarrow> v, Optional_rep (map_option moved_out a))"
  by (cases a) (simp_all add: optional_defs Optional_rep_def)

end

section \<open>The properties of \<open>Optional\<close>\<close>

lemma Optional_less_rep:
  fixes a b :: "'v :: linorder option"
  shows "Optional_less (<) (Optional_rep a) (Optional_rep b) = Ret (a < b)"
  by (cases a; cases b) (simp_all add: optional_rel)

lemma Optional_eq_rep: "Optional_eq (=) (Optional_rep a) (Optional_rep b) = Ret (a = b)"
  by (cases a; cases b) (simp_all add: optional_rel)

text \<open>
  Comparing an optional with \<open>nullopt\<close>, from either side, is comparing it with an empty
  optional, and comparing it with a value of \<open>T\<close> is comparing it with an optional that
  holds the value: the 24 mixed operators agree with the six homogeneous ones.
\<close>

theorem Optional_mixed_comparisons:
  fixes x :: "'v Optional" and v :: 'v and lt :: "'v \<Rightarrow> 'v \<Rightarrow> bool"
  defines "n \<equiv> Optional_nullopt" and "j \<equiv> Optional_rep (Some v)"
  assumes wf: "Optional_wf x"
  shows "Ret (eq_nullopt x) = Optional_eq eq x n \<and> Ret (nullopt_eq x) = Optional_eq eq n x
       \<and> Ret (neq_nullopt x) = Optional_neq eq x n \<and> Ret (nullopt_neq x) = Optional_neq eq n x
       \<and> Ret (less_nullopt x) = Optional_less lt x n \<and> Ret (nullopt_less x) = Optional_less lt n x
       \<and> Ret (le_nullopt x) = Optional_le eq lt x n \<and> Ret (nullopt_le x) = Optional_le eq lt n x
       \<and> Ret (greater_nullopt x) = Optional_greater eq lt x n
       \<and> Ret (nullopt_greater x) = Optional_greater eq lt n x
       \<and> Ret (ge_nullopt x) = Optional_ge lt x n \<and> Ret (nullopt_ge x) = Optional_ge lt n x
       \<and> eq_value eq x v = Optional_eq eq x j \<and> value_eq eq v x = Optional_eq eq j x
       \<and> neq_value eq x v = Optional_neq eq x j \<and> value_neq eq v x = Optional_neq eq j x
       \<and> less_value lt x v = Optional_less lt x j \<and> value_less lt v x = Optional_less lt j x
       \<and> le_value eq lt x v = Optional_le eq lt x j \<and> value_le eq lt v x = Optional_le eq lt j x
       \<and> greater_value eq lt x v = Optional_greater eq lt x j
       \<and> value_greater eq lt v x = Optional_greater eq lt j x
       \<and> ge_value lt x v = Optional_ge lt x j \<and> value_ge lt v x = Optional_ge lt j x"
proof -
  obtain a where x: "x = Optional_rep a" using wf by (rule Optional_wf_cases)
  have n: "n = Optional_rep None" by (simp add: n_def Optional_nullopt_rep)
  show ?thesis
    unfolding x n j_def by (cases a) (simp_all add: optional_rel)
qed

theorem Optional_mixed_comparisons_witness:
  "less_nullopt (Optional_rep (Some (1 :: int))) = False
   \<and> value_less (<) (0 :: int) (Optional_rep (Some 1)) = (Ret True :: (unit, bool) outcome)"
  using Optional_mixed_comparisons [of "Optional_rep (Some (1 :: int))" "(=)" "(<)" 0]
  by (simp add: optional_rel)

lemma Optional_rel_rep:
  fixes a b :: "'v :: linorder option"
  shows "Optional_eq (=) (Optional_rep a) (Optional_rep b) = (Ret (a = b) :: ('x, bool) outcome)"
    "Optional_neq (=) (Optional_rep a) (Optional_rep b) = (Ret (a \<noteq> b) :: ('x, bool) outcome)"
    "Optional_less (<) (Optional_rep a) (Optional_rep b) = (Ret (a < b) :: ('x, bool) outcome)"
    "Optional_greater (=) (<) (Optional_rep a) (Optional_rep b) = (Ret (a > b) :: ('x, bool) outcome)"
    "Optional_le (=) (<) (Optional_rep a) (Optional_rep b) = (Ret (a \<le> b) :: ('x, bool) outcome)"
    "Optional_ge (<) (Optional_rep a) (Optional_rep b) = (Ret (a \<ge> b) :: ('x, bool) outcome)"
  using less_linear [of a b]
  by (auto simp: Optional_less_rep Optional_eq_rep Optional_neq_def Optional_greater_def
      Optional_le_def Optional_ge_def onot_def oand_def oor_def)

text \<open>
  C33. The six operators of two well-formed optionals are the linear order of options
  in which the empty one is least; they return and never dereference a null pointer. The 24
  operators that take \<open>nullopt\<close> or a value on one side are the same order with the empty
  option, or the one that holds the value, on that side.
\<close>

theorem Optional_order:
  fixes x y :: "'v :: linorder Optional"
  assumes "Optional_wf x" "Optional_wf y"
  shows "Optional_eq (=) x y = (Ret (opt_val x = opt_val y) :: ('x, bool) outcome)
       \<and> Optional_neq (=) x y = (Ret (opt_val x \<noteq> opt_val y) :: ('x, bool) outcome)
       \<and> Optional_less (<) x y = (Ret (opt_val x < opt_val y) :: ('x, bool) outcome)
       \<and> Optional_greater (=) (<) x y = (Ret (opt_val x > opt_val y) :: ('x, bool) outcome)
       \<and> Optional_le (=) (<) x y = (Ret (opt_val x \<le> opt_val y) :: ('x, bool) outcome)
       \<and> Optional_ge (<) x y = (Ret (opt_val x \<ge> opt_val y) :: ('x, bool) outcome)
       \<and> eq_nullopt x = (opt_val x = None) \<and> nullopt_eq x = (None = opt_val x)
       \<and> neq_nullopt x = (opt_val x \<noteq> None) \<and> nullopt_neq x = (None \<noteq> opt_val x)
       \<and> less_nullopt x = (opt_val x < None) \<and> nullopt_less x = (None < opt_val x)
       \<and> le_nullopt x = (opt_val x \<le> None) \<and> nullopt_le x = (None \<le> opt_val x)
       \<and> greater_nullopt x = (opt_val x > None) \<and> nullopt_greater x = (None > opt_val x)
       \<and> ge_nullopt x = (opt_val x \<ge> None) \<and> nullopt_ge x = (None \<ge> opt_val x)
       \<and> eq_value (=) x v = (Ret (opt_val x = Some v) :: ('x, bool) outcome)
       \<and> value_eq (=) v x = (Ret (Some v = opt_val x) :: ('x, bool) outcome)
       \<and> neq_value (=) x v = (Ret (opt_val x \<noteq> Some v) :: ('x, bool) outcome)
       \<and> value_neq (=) v x = (Ret (Some v \<noteq> opt_val x) :: ('x, bool) outcome)
       \<and> less_value (<) x v = (Ret (opt_val x < Some v) :: ('x, bool) outcome)
       \<and> value_less (<) v x = (Ret (Some v < opt_val x) :: ('x, bool) outcome)
       \<and> le_value (=) (<) x v = (Ret (opt_val x \<le> Some v) :: ('x, bool) outcome)
       \<and> value_le (=) (<) v x = (Ret (Some v \<le> opt_val x) :: ('x, bool) outcome)
       \<and> greater_value (=) (<) x v = (Ret (opt_val x > Some v) :: ('x, bool) outcome)
       \<and> value_greater (=) (<) v x = (Ret (Some v > opt_val x) :: ('x, bool) outcome)
       \<and> ge_value (<) x v = (Ret (opt_val x \<ge> Some v) :: ('x, bool) outcome)
       \<and> value_ge (<) v x = (Ret (Some v \<ge> opt_val x) :: ('x, bool) outcome)"
proof -
  obtain a b where ab: "x = Optional_rep a" "y = Optional_rep b"
    using assms by (metis Optional_wf_cases)
  have val: "opt_val x = a" "opt_val y = b" by (simp_all add: ab Optional_rep_def)
  have n: "Optional_nullopt = (Optional_rep None :: 'v Optional)" by (rule Optional_nullopt_rep)
  note mixed = Optional_mixed_comparisons [where 'a = 'x, of x "(=)" "(<)" v, OF assms(1), unfolded n]
  show ?thesis
    unfolding val using mixed unfolding ab Optional_rel_rep by (simp only: outcome.inject simp_thms)
qed

theorem Optional_order_witness:
  "Optional_less (<) (Optional_rep None) (Optional_rep (Some (3 :: nat))) = (Ret True :: (unit, bool) outcome)
   \<and> Optional_ge (<) (Optional_rep (Some (5 :: nat))) (Optional_rep (Some 3)) = (Ret True :: (unit, bool) outcome)"
  using Optional_order [where 'x = unit, of "Optional_rep None" "Optional_rep (Some (3 :: nat))"]
    Optional_order [where 'x = unit, of "Optional_rep (Some (5 :: nat))" "Optional_rep (Some 3)"]
  by simp

text \<open>
  C25. On element types that keep the contract, every constructor, assignment, swap and
  observer of a well-formed optional refines the operation on options: copies and moves
  carry the value, assignments overwrite, \<open>swap\<close> exchanges, \<open>value_or\<close> is the value or the
  default, and the hash is that of the value (0 when empty). What is left of the sources is
  stated too, and is not always what an option would be: the move constructor leaves an engaged
  source ill-formed, and the assignment from a value moves from every argument that is not
  \<open>const\<close>, lvalues included; an argument of another type is converted.
\<close>

theorem Optional_refines_option:
  fixes ops :: "('x, 't, 'v) elem_ops" and x y :: "'v Optional"
  assumes elems: "regular_elems ops mo"
    and wf: "Optional_wf x" "Optional_wf y" and T: "type_of ops v = T"
  shows "(Optional_default :: 'v Optional) = Optional_rep None
       \<and> (Optional_nullopt :: 'v Optional) = Optional_rep None
       \<and> Optional_from_lvalue ops v = Ret (Optional_rep (Some v))
       \<and> Optional_from_rvalue ops v = Ret (Optional_rep (Some v), mo v)
       \<and> make_optional ops v = Ret (Optional_rep (Some v), mo v)
       \<and> Optional_copy_ctor ops x = Ret x
       \<and> fst (Optional_move_ctor x) = x
       \<and> (Optional_wf (snd (Optional_move_ctor x)) \<longleftrightarrow> opt_val x = None)
       \<and> (opt_val x = None \<longrightarrow> snd (Optional_move_ctor x) = x)
       \<and> Optional_copy_assign ops x y = (Ret (), y)
       \<and> Optional_move_assign ops x y = (Ret (), y, Optional_rep (map_option mo (opt_val y)))
       \<and> Optional_assign_value ops T is_const x v = (Ret (), Optional_rep (Some v), if is_const then v else mo v)
       \<and> (\<forall>u n. type_of ops u \<noteq> T \<and> conv_ctor ops T u = Ret n \<longrightarrow>
            Optional_assign_value ops T is_const x u = (Ret (), Optional_rep (Some n), u))
       \<and> Optional_emplace (copy_ctor ops v) x = (Ret (), Optional_rep (Some v))
       \<and> Optional_emplace_il (copy_ctor ops v) x = (Ret (), Optional_rep (Some v))
       \<and> Optional_assign_nullopt x = Optional_rep None \<and> Optional_reset x = Optional_rep None
       \<and> Optional_swap x y = (y, x) \<and> Optional_swap_free x y = (y, x)
       \<and> Optional_has_value x = (opt_val x \<noteq> None) \<and> Optional_arrow x = opt_val x
       \<and> (Optional_deref x :: ('x, 'v) outcome) = (case opt_val x of None \<Rightarrow> Undefined | Some u \<Rightarrow> Ret u)
       \<and> Optional_value_or ops x (Ret d) = Ret (case opt_val x of None \<Rightarrow> d | Some u \<Rightarrow> u)
       \<and> Optional_value_or_rvalue ops x (Ret d) =
           Ret (case opt_val x of None \<Rightarrow> d | Some u \<Rightarrow> u, Optional_rep (map_option mo (opt_val x)))
       \<and> hash_Optional h x = Ret (case opt_val x of None \<Rightarrow> 0 | Some u \<Rightarrow> h u)"
proof -
  obtain a b where xy: "x = Optional_rep a" "y = Optional_rep b"
    using wf by (metis Optional_wf_cases)
  show ?thesis
    unfolding xy
    using regular_elems.Optional_copy_ctor_eq [OF elems] regular_elems.Optional_copy_assign_eq [OF elems]
      regular_elems.Optional_move_assign_eq [OF elems] regular_elems.Optional_assign_value_eq [OF elems T]
      assign_converted [of ops _ T] regular_elems.Optional_value_or_eq [OF elems] regular_elems.Optional_value_or_rvalue_eq [OF elems]
      regular_elems.copy_ctor_law [OF elems] regular_elems.move_ctor_law [OF elems]
    by (cases a; cases b)
      (simp_all add: Optional_default_rep Optional_nullopt_rep Optional_from_lvalue_def Optional_from_rvalue_def
        make_optional_def Optional_emplace_il_def Optional_arrow_def Optional_deref_def deref_val_def
        Optional_rep_def [of "Some v"] Optional_emplace_eq Optional_assign_nullopt_rep Optional_reset_rep
        Optional_swap_free_def Optional_swap_eq Optional_has_value_def fst_Optional_move_ctor
        snd_Optional_move_ctor hash_Optional_rep)
qed

theorem Optional_refines_option_witness:
  "Optional_move_assign String_ops Optional_default (Optional_rep (Some ''ab'')) =
     (Ret () :: (unit, unit) outcome, Optional_rep (Some ''ab''), Optional_rep (Some ''''))"
  using Optional_refines_option
    [where 'a = unit, OF String.regular_elems_axioms, of Optional_default "Optional_rep (Some ''ab'')" "''c''" "()"]
  by (simp add: Optional_default_rep)

text \<open>
  Moving from an engaged optional leaves it claiming a value it no longer has:
  \<open>has_value\<close> is true, the pointer is null, and \<open>*\<close>, \<open>value_or\<close>, a copy, a comparison and
  the hash of it are undefined behaviour. A moved-from empty optional stays well-formed.
\<close>

theorem Optional_moved_from_is_hollow:
  assumes wf: "Optional_wf x"
  defines "s \<equiv> snd (Optional_move_ctor x)"
  shows "Optional_has_value s = Optional_has_value x
       \<and> Optional_arrow s = None
       \<and> (Optional_wf s \<longleftrightarrow> \<not> Optional_has_value x)
       \<and> (Optional_has_value x \<longrightarrow>
            Optional_deref s = (Undefined :: ('x, 'v) outcome)
          \<and> Optional_copy_ctor ops s = (Undefined :: ('x, 'v Optional) outcome)
          \<and> Optional_value_or ops s d = Undefined
          \<and> Optional_eq eq s s = (Undefined :: ('x, bool) outcome)
          \<and> Optional_less lt s s = (Undefined :: ('x, bool) outcome)
          \<and> hash_Optional h s = (Undefined :: ('x, size_t) outcome))"
proof -
  obtain a where x: "x = Optional_rep a" using wf by (rule Optional_wf_cases)
  show ?thesis
    by (cases a) (simp_all add: s_def x optional_defs optional_rel Optional_wf_def)
qed

theorem Optional_moved_from_is_hollow_witness:
  "Optional_has_value (snd (Optional_move_ctor (Optional_rep (Some (7 :: int)))))
   \<and> Optional_deref (snd (Optional_move_ctor (Optional_rep (Some (7 :: int))))) = (Undefined :: (unit, int) outcome)"
  using Optional_moved_from_is_hollow [where 'x = unit and ops = scalar_ops and d = "Ret 0" and eq = "(=)" and lt = "(<)"
      and h = "\<lambda>_. 0", of "Optional_rep (Some (7 :: int))"]
  by (simp add: Optional_has_value_def)

text \<open>
  \<open>emplace\<close>, an assignment from a value and a copy assignment set the flag before they
  allocate: when the constructor of \<open>T\<close> throws, the exception leaves the optional with the
  flag set; \<open>emplace\<close> has already dropped the old value, so the invariant is lost and a later
  \<open>*\<close> is undefined. The assignments keep the invariant exactly when a value was there.
\<close>

theorem Optional_throwing_constructor:
  fixes e :: 'x
  assumes wf: "Optional_wf x" "Optional_wf y" and y: "Optional_has_value y"
  shows "Optional_emplace (Throws e) x = (Throws e, \<lparr>opt_init = True, opt_val = None\<rparr>)
       \<and> Optional_assign_value (throwing_ops e) () True x v =
           (Throws e, \<lparr>opt_init = True, opt_val = opt_val x\<rparr>, v)
       \<and> Optional_copy_assign (throwing_ops e) x y = (Throws e, \<lparr>opt_init = True, opt_val = opt_val x\<rparr>)
       \<and> \<not> Optional_wf (snd (Optional_emplace (Throws e) x))
       \<and> Optional_deref (snd (Optional_emplace (Throws e) x)) = (Undefined :: ('x, 'v) outcome)
       \<and> (Optional_wf (snd (Optional_copy_assign (throwing_ops e) x y)) \<longleftrightarrow> Optional_has_value x)"
proof -
  obtain a b where xy: "x = Optional_rep a" "y = Optional_rep b"
    using wf by (metis Optional_wf_cases)
  obtain w where b: "b = Some w" using y by (auto simp: xy Optional_has_value_def)
  show ?thesis
    by (simp add: xy b optional_defs construct_from_def throwing_ops_def Optional_wf_def Optional_rep_def)
qed

theorem Optional_throwing_constructor_witness:
  "Optional_emplace (Throws ''bad_alloc'') (Optional_rep (Some (1 :: int))) =
     (Throws ''bad_alloc'', \<lparr>opt_init = True, opt_val = None\<rparr>)
   \<and> \<not> Optional_wf (snd (Optional_emplace (Throws ''bad_alloc'') (Optional_rep (Some (1 :: int)))))"
  using Optional_throwing_constructor
    [of "Optional_rep (Some (1 :: int))" "Optional_rep (Some 2)" "''bad_alloc''"]
  by (simp add: Optional_has_value_def Optional_wf_def)

end
