(* ===== verification/Result_Void.thy ===== *)
theory Result_Void
  imports Result_Correct
begin

text \<open>
  The specialisation \<open>Result<void, E>\<close> of \<open>ara/core/result.h\<close>: the same data member, with an
  empty class \<open>dummy\<close> in the place of \<open>T\<close> and a body of its own for every member. The
  last section proves that each member agrees with the one of the primary template at
  \<open>T = dummy\<close>.
\<close>

section \<open>State and construction\<close>

text \<open>\<open>struct dummy { }\<close> has one value and the implicit copy and move operations.\<close>

type_synonym dummy_type = unit

definition dummy_ops :: "('x, unit, dummy_type) elem_ops" where
  "dummy_ops = scalar_ops"

record 'e Result_void =
  v_mData :: "(dummy_type, 'e) payload variant"

definition RV_default ::
  "('x, unit, 'e) elem_ops \<Rightarrow> ('x, 'e Result_void) outcome" where
  "RV_default eops =
     noexcept (obind (compiled (Variant_converting_ctor (result_ops dummy_ops eops) no_conv result_types RValue (PVal ())))
       (\<lambda>(d, _). Ret \<lparr>v_mData = d\<rparr>))"

definition RV_of_error_lvalue ::
  "('x, unit, 'e) elem_ops \<Rightarrow> 'e \<Rightarrow> ('x, 'e Result_void) outcome" where
  "RV_of_error_lvalue eops e =
     obind (compiled (Variant_converting_ctor (result_ops dummy_ops eops) no_conv result_types LValue (PErr e)))
       (\<lambda>(d, _). Ret \<lparr>v_mData = d\<rparr>)"

definition RV_of_error_rvalue ::
  "('x, unit, 'e) elem_ops \<Rightarrow> 'e \<Rightarrow> ('x, 'e Result_void \<times> 'e) outcome" where
  "RV_of_error_rvalue eops e =
     obind (compiled (Variant_converting_ctor (result_ops dummy_ops eops) no_conv result_types RValue (PErr e)))
       (\<lambda>(d, p). obind (as_E p) (\<lambda>e'. Ret (\<lparr>v_mData = d\<rparr>, e')))"

definition RV_FromValue ::
  "('x, unit, 'e) elem_ops \<Rightarrow> ('x, 'e Result_void) outcome" where
  "RV_FromValue eops = RV_default eops"

definition RV_FromError_lvalue ::
  "('x, unit, 'e) elem_ops \<Rightarrow> 'e \<Rightarrow> ('x, 'e Result_void) outcome" where
  "RV_FromError_lvalue eops e = RV_of_error_lvalue eops e"

definition RV_FromError_rvalue ::
  "('x, unit, 'e) elem_ops \<Rightarrow> 'e \<Rightarrow> ('x, 'e Result_void \<times> 'e) outcome" where
  "RV_FromError_rvalue eops e = RV_of_error_rvalue eops e"

definition RV_FromError_args ::
  "('x, unit, 'e) elem_ops \<Rightarrow> ('x, 'e) outcome \<Rightarrow> ('x, 'e Result_void) outcome" where
  "RV_FromError_args eops mk =
     obind mk (\<lambda>e. obind (RV_of_error_rvalue eops e) (\<lambda>(r, _). Ret r))"

section \<open>Copy, move, destruction\<close>

definition RV_copy_ctor ::
  "('x, unit, 'e) elem_ops \<Rightarrow> 'e Result_void \<Rightarrow> ('x, 'e Result_void) outcome" where
  "RV_copy_ctor eops other =
     obind (Variant_copy_ctor (result_ops dummy_ops eops) result_types (v_mData other)) (\<lambda>d. Ret \<lparr>v_mData = d\<rparr>)"

definition RV_move_ctor ::
  "('x, unit, 'e) elem_ops \<Rightarrow> 'e Result_void \<Rightarrow> ('x, 'e Result_void \<times> 'e Result_void) outcome" where
  "RV_move_ctor eops other =
     obind (Variant_move_ctor (result_ops dummy_ops eops) result_types (v_mData other))
       (\<lambda>(d, o'). Ret (\<lparr>v_mData = d\<rparr>, other\<lparr>v_mData := o'\<rparr>))"

definition RV_dtor ::
  "('x, unit, 'e) elem_ops \<Rightarrow> 'e Result_void \<Rightarrow> ('x, 'e Result_void) outcome" where
  "RV_dtor eops this =
     obind (Variant_dtor (result_ops dummy_ops eops) result_types (v_mData this)) (\<lambda>d. Ret (this\<lparr>v_mData := d\<rparr>))"

definition RV_copy_assign ::
  "('x, unit, 'e) elem_ops \<Rightarrow> bool \<Rightarrow> 'e Result_void \<Rightarrow> 'e Result_void \<Rightarrow> ('x, 'e Result_void) outcome" where
  "RV_copy_assign eops self this other =
     obind (Variant_copy_assign (result_ops dummy_ops eops) result_types self (v_mData this) (v_mData other))
       (\<lambda>d. Ret (this\<lparr>v_mData := d\<rparr>))"

definition RV_move_assign ::
  "('x, unit, 'e) elem_ops \<Rightarrow> bool \<Rightarrow> 'e Result_void \<Rightarrow> 'e Result_void \<Rightarrow> ('x, 'e Result_void \<times> 'e Result_void) outcome" where
  "RV_move_assign eops self this other =
     obind (Variant_move_assign (result_ops dummy_ops eops) result_types self (v_mData this) (v_mData other))
       (\<lambda>(d, o'). Ret (this\<lparr>v_mData := d\<rparr>, other\<lparr>v_mData := o'\<rparr>))"

definition RV_EmplaceValue ::
  "('x, unit, 'e) elem_ops \<Rightarrow> ('x, dummy_type) outcome \<Rightarrow> 'e Result_void \<Rightarrow> ('x, 'e Result_void) outcome" where
  "RV_EmplaceValue eops mk this =
     noexcept (obind (compiled (Variant_emplace_type (result_ops dummy_ops eops) result_types Tag_T
              (\<lambda>_. obind mk (\<lambda>n. Ret (PVal n))) (v_mData this)))
       (\<lambda>d. Ret (this\<lparr>v_mData := d\<rparr>)))"

definition RV_EmplaceError ::
  "('x, unit, 'e) elem_ops \<Rightarrow> ('x, 'e) outcome \<Rightarrow> 'e Result_void \<Rightarrow> ('x, 'e Result_void) outcome" where
  "RV_EmplaceError eops mk this =
     obind (compiled (Variant_emplace_type (result_ops dummy_ops eops) result_types Tag_E
              (\<lambda>_. obind mk (\<lambda>n. Ret (PErr n))) (v_mData this)))
       (\<lambda>d. Ret (this\<lparr>v_mData := d\<rparr>))"

definition RV_Swap ::
  "('x, unit, 'e) elem_ops \<Rightarrow> bool \<Rightarrow> 'e Result_void \<Rightarrow> 'e Result_void \<Rightarrow> ('x, 'e Result_void \<times> 'e Result_void) outcome" where
  "RV_Swap eops self this other =
     obind (std_swap_variant (result_ops dummy_ops eops) result_types self (v_mData this) (v_mData other))
       (\<lambda>(d, o'). Ret (this\<lparr>v_mData := d\<rparr>, other\<lparr>v_mData := o'\<rparr>))"

section \<open>Observers\<close>

definition RV_HasValue :: "'e Result_void \<Rightarrow> bool" where
  "RV_HasValue this = (Variant_index (v_mData this) = 0)"

definition RV_bool :: "'e Result_void \<Rightarrow> bool" where
  "RV_bool this = RV_HasValue this"

definition RV_Value :: "'e Result_void \<Rightarrow> ('x, unit) outcome" where
  "RV_Value this =
     (case the_ptr (get_if_const result_types Tag_T (v_mData this)) of
        Some _ \<Rightarrow> Ret ()
      | None \<Rightarrow> Terminates ''__ value() called but NOT a (void) value!'')"

definition RV_deref :: "'e Result_void \<Rightarrow> ('x, unit) outcome" where
  "RV_deref this = RV_Value this"

definition RV_Error_const ::
  "('x, unit, 'e) elem_ops \<Rightarrow> 'e Result_void \<Rightarrow> ('x, 'e) outcome" where
  "RV_Error_const eops this =
     (case the_ptr (get_if_const result_types Tag_E (v_mData this)) of
        Some ptr \<Rightarrow> load_E dummy_ops eops ptr
      | None \<Rightarrow> Terminates ''__ error() called but NOT an error!'')"

definition RV_Error_rvalue ::
  "('x, unit, 'e) elem_ops \<Rightarrow> 'e Result_void \<Rightarrow> ('x, 'e) outcome" where
  "RV_Error_rvalue eops this =
     (case the_ptr (get_if result_types Tag_E (v_mData this)) of
        Some ptr \<Rightarrow> load_E dummy_ops eops ptr
      | None \<Rightarrow> Terminates ''__ error() called but NOT an error!'')"

definition RV_ValueOr :: "('x, unit) outcome \<Rightarrow> 'e Result_void \<Rightarrow> ('x, unit) outcome" where
  "RV_ValueOr dflt this =
     (if RV_HasValue this then RV_Value this else dflt)"

definition RV_ErrorOr ::
  "('x, unit, 'e) elem_ops \<Rightarrow> ('x, 'e) outcome \<Rightarrow> 'e Result_void \<Rightarrow> ('x, 'e) outcome" where
  "RV_ErrorOr eops dflt this =
     (if RV_HasValue this then dflt else obind (RV_Error_const eops this) (copy_ctor eops))"

definition RV_CheckError ::
  "('x, unit, 'e) elem_ops \<Rightarrow> ('e \<Rightarrow> 'e \<Rightarrow> bool) \<Rightarrow> ('x, 'e) outcome \<Rightarrow> 'e Result_void \<Rightarrow> ('x, bool) outcome" where
  "RV_CheckError eops eq_E e this =
     (if RV_HasValue this then Ret False
      else obind (RV_Error_const eops this) (\<lambda>err. obind e (\<lambda>g. Ret (eq_E err g))))"

definition RV_ValueOrThrow ::
  "('x, unit, 'e) elem_ops \<Rightarrow> ('e \<Rightarrow> ('x, unit) outcome) \<Rightarrow> 'e Result_void \<Rightarrow> ('x, unit) outcome" where
  "RV_ValueOrThrow eops throw_E this =
     (case the_ptr (get_if_const result_types Tag_T (v_mData this)) of
        Some _ \<Rightarrow> Ret ()
      | None \<Rightarrow>
          (case the_ptr (get_if_const result_types Tag_E (v_mData this)) of
             Some e \<Rightarrow> obind (load_E dummy_ops eops e) throw_E
           | None \<Rightarrow> Undefined))"

definition RV_Resolve ::
  "('x, unit, 'e) elem_ops \<Rightarrow> ('e \<Rightarrow> ('x, unit) outcome) \<Rightarrow> 'e Result_void \<Rightarrow> ('x, unit) outcome" where
  "RV_Resolve eops f this =
     (if RV_HasValue this then RV_Value this else obind (RV_Error_const eops this) f)"

definition RV_Bind_result ::
  "('x, unit, 'e) elem_ops \<Rightarrow> ('x, unit, 'u) elem_ops \<Rightarrow> ('x, ('u, 'e) Result) outcome \<Rightarrow> 'e Result_void \<Rightarrow>
   ('x, ('u, 'e) Result) outcome" where
  "RV_Bind_result eops uops f this =
     (if RV_HasValue this then f
      else obind (RV_Error_const eops this) (Result_of_error_lvalue uops eops))"

definition RV_Bind_value ::
  "('x, unit, 'e) elem_ops \<Rightarrow> ('x, unit, 'u) elem_ops \<Rightarrow> ('x, 'u) outcome \<Rightarrow> 'e Result_void \<Rightarrow> ('x, ('u, 'e) Result) outcome" where
  "RV_Bind_value eops uops f this =
     (if RV_HasValue this
      then obind f (\<lambda>u. obind (Result_of_value_rvalue uops eops u) (\<lambda>(r, _). Ret r))
      else obind (RV_Error_const eops this) (Result_of_error_lvalue uops eops))"

section \<open>Agreement with the primary template\<close>

text \<open>\<open>prim\<close> reads a \<open>Result<void, E>\<close> as a \<open>Result<dummy_type, E>\<close>.\<close>

definition prim :: "'e Result_void \<Rightarrow> (dummy_type, 'e) Result" where
  "prim r = \<lparr>mData = v_mData r\<rparr>"

definition omap :: "('a \<Rightarrow> 'b) \<Rightarrow> ('x, 'a) outcome \<Rightarrow> ('x, 'b) outcome" where
  "omap f r = obind r (\<lambda>a. Ret (f a))"

lemma prim_update: "prim (this\<lparr>v_mData := d\<rparr>) = (prim this)\<lparr>mData := d\<rparr>"
  and prim_sel [simp]: "mData (prim r) = v_mData r"
  and prim_make: "prim \<lparr>v_mData = d\<rparr> = \<lparr>mData = d\<rparr>"
  by (simp_all add: prim_def)

interpretation void_result: result_elems dummy_ops "\<lambda>v. v" scalar_ops "\<lambda>e. e"
  unfolding dummy_ops_def by unfold_locales

lemma prim_void [simp]: "prim \<lparr>v_mData = mData r\<rparr> = r"
  by (simp add: prim_def)

lemma RV_state_eq:
  "omap prim (RV_copy_ctor eops r) = Result_copy_ctor dummy_ops eops (prim r)"
  "omap (map_prod prim prim) (RV_move_ctor eops r) = Result_move_ctor dummy_ops eops (prim r)"
  "omap prim (RV_copy_assign eops self r s) =
     Result_copy_assign dummy_ops eops self (prim r) (prim s)"
  "omap (map_prod prim prim) (RV_move_assign eops self r s) =
     Result_move_assign dummy_ops eops self (prim r) (prim s)"
  "omap (map_prod prim prim) (RV_Swap eops self r s) =
     Result_Swap dummy_ops eops self (prim r) (prim s)"
  "omap prim (RV_EmplaceError eops m r) = EmplaceError dummy_ops eops m (prim r)"
  "omap prim (RV_dtor eops r) = Result_dtor dummy_ops eops (prim r)"
  "omap prim (RV_FromError_lvalue eops e) = FromError_lvalue dummy_ops eops e"
  "omap prim (RV_FromError_args eops m) = FromError_args dummy_ops eops m"
  "omap (map_prod prim id) (RV_FromError_rvalue eops e) = FromError_rvalue dummy_ops eops e"
  by (simp_all add: RV_FromError_rvalue_def FromError_rvalue_def RV_copy_ctor_def Result_copy_ctor_def RV_move_ctor_def Result_move_ctor_def
      RV_copy_assign_def Result_copy_assign_def RV_move_assign_def Result_move_assign_def
      RV_Swap_def Result_Swap_def RV_EmplaceError_def EmplaceError_def RV_dtor_def Result_dtor_def
      RV_FromError_lvalue_def FromError_lvalue_def RV_of_error_lvalue_def Result_of_error_lvalue_def
      RV_FromError_args_def FromError_args_def RV_of_error_rvalue_def Result_of_error_rvalue_def
      omap_def obind_assoc split_def prim_update prim_make)

lemma omap_noexcept: "omap f (noexcept m) = noexcept (omap f m)"
  by (cases m) (simp_all add: omap_def)

lemma RV_state_eq2:
  "omap prim (RV_EmplaceValue eops n r) = noexcept (EmplaceValue dummy_ops eops n (prim r))"
  "omap prim (RV_FromValue eops) = FromValue_args dummy_ops eops (Ret ())"
proof -
  show "omap prim (RV_EmplaceValue eops n r) = noexcept (EmplaceValue dummy_ops eops n (prim r))"
    unfolding RV_EmplaceValue_def omap_noexcept
    by (simp add: omap_def EmplaceValue_def obind_assoc prim_update)
  show "omap prim (RV_FromValue eops) = FromValue_args dummy_ops eops (Ret ())"
    by (simp add: omap_def RV_FromValue_def RV_default_def FromValue_args_def
        Result_of_value_rvalue_def Variant_converting_ctor_def construct_from_def result_ops_def
        dummy_ops_def scalar_ops_def prim_make)
qed

lemma RV_HasValue_eq: "RV_HasValue r = HasValue (prim r)"
  by (simp add: RV_HasValue_def HasValue_def)

lemma RV_Error_const_eq: "RV_Error_const eops r = Error_const dummy_ops eops (prim r)"
    "RV_Error_rvalue eops r = Error_rvalue dummy_ops eops (prim r)"
  by (simp_all add: RV_Error_const_def Error_const_def RV_Error_rvalue_def Error_rvalue_def)

lemma RV_Value_eq:
  assumes "Result_wf (prim r)"
  shows "RV_Value r = (if HasValue (prim r) then Ret ()
    else Terminates ''__ value() called but NOT a (void) value!'')"
  using get_if_T [OF assms]
  by (simp add: RV_Value_def HasValue_abs [OF assms] split: rslt.split)

lemma RV_observer_eq:
  assumes wf: "Result_wf (prim r)"
  shows "RV_HasValue r = HasValue (prim r)"
    and "RV_Error_const eops r = Error_const dummy_ops eops (prim r)"
    and "RV_ErrorOr eops g r = ErrorOr dummy_ops eops g (prim r)"
    and "RV_CheckError eops eq_E g r = CheckError dummy_ops eops eq_E g (prim r)"
    and "RV_Resolve eops f r = Resolve dummy_ops eops f (prim r)"
    and "RV_ValueOrThrow eops thr r =
      (if HasValue (prim r) then Ret ()
       else if Result_abs (prim r) = Empty then Undefined
       else obind (Error_const dummy_ops eops (prim r)) thr)"
    and "RV_Bind_result eops uops h r = Bind_result dummy_ops eops uops (\<lambda>_. h) (prim r)"
    and "RV_Bind_value eops uops k r = Bind_value dummy_ops eops uops (\<lambda>_. k) (prim r)"
  using get_if_T [OF wf] get_if_E [OF wf]
  by (auto simp: RV_HasValue_eq RV_Error_const_eq RV_ErrorOr_def ErrorOr_def RV_CheckError_def
      CheckError_def RV_Resolve_def Resolve_def RV_Value_eq [OF wf] RV_ValueOrThrow_def
      RV_Bind_result_def Bind_result_def RV_Bind_value_def Bind_value_def result_access [OF wf]
      load_abs [OF wf, unfolded prim_sel] void_result.V.copy_ctor_law split: rslt.splits)

text \<open>
  C35. Every member of \<open>Result<void, E>\<close> does what the member of the primary template does at
  \<open>T = dummy\<close>, although the code repeats the bodies: the constructors and operations that
  change state step for step, for every element type, and the observers on well-formed
  results, where \<open>Value\<close> of a result without value terminates with a message of its own.
\<close>

theorem Result_void_agrees:
  fixes eops :: "('x, unit, 'e) elem_ops"
  assumes wf: "Result_wf (prim r)"
  shows "omap prim (RV_copy_ctor eops r) = Result_copy_ctor dummy_ops eops (prim r)
       \<and> omap (map_prod prim prim) (RV_move_ctor eops r) = Result_move_ctor dummy_ops eops (prim r)
       \<and> omap prim (RV_copy_assign eops self r s) =
           Result_copy_assign dummy_ops eops self (prim r) (prim s)
       \<and> omap (map_prod prim prim) (RV_move_assign eops self r s) =
           Result_move_assign dummy_ops eops self (prim r) (prim s)
       \<and> omap (map_prod prim prim) (RV_Swap eops self r s) =
           Result_Swap dummy_ops eops self (prim r) (prim s)
       \<and> omap prim (RV_EmplaceError eops m r) = EmplaceError dummy_ops eops m (prim r)
       \<and> omap prim (RV_EmplaceValue eops n r) = noexcept (EmplaceValue dummy_ops eops n (prim r))
       \<and> omap prim (RV_dtor eops r) = Result_dtor dummy_ops eops (prim r)
       \<and> omap prim (RV_FromValue eops) = FromValue_args dummy_ops eops (Ret ())
       \<and> omap prim (RV_FromError_lvalue eops e) = FromError_lvalue dummy_ops eops e
       \<and> omap prim (RV_FromError_args eops m) = FromError_args dummy_ops eops m
       \<and> omap (map_prod prim id) (RV_FromError_rvalue eops e) = FromError_rvalue dummy_ops eops e
       \<and> RV_HasValue r = HasValue (prim r) \<and> RV_bool r = Result_bool (prim r)
       \<and> RV_deref r = (if HasValue (prim r) then Ret ()
           else (Terminates ''__ value() called but NOT a (void) value!'' :: ('x, unit) outcome))
       \<and> RV_ValueOr u r = (if HasValue (prim r) then (Ret () :: ('x, unit) outcome) else u)
       \<and> RV_Error_rvalue eops r = Error_rvalue dummy_ops eops (prim r)
       \<and> RV_Error_const eops r = Error_const dummy_ops eops (prim r)
       \<and> RV_ErrorOr eops g r = ErrorOr dummy_ops eops g (prim r)
       \<and> RV_CheckError eops eq_E g r = CheckError dummy_ops eops eq_E g (prim r)
       \<and> RV_Resolve eops f r = Resolve dummy_ops eops f (prim r)
       \<and> RV_ValueOrThrow eops (throw_E :: 'e \<Rightarrow> ('x, unit) outcome) r =
           (if HasValue (prim r) then Ret ()
            else if Result_abs (prim r) = Empty then Undefined
            else obind (Error_const dummy_ops eops (prim r)) throw_E)
       \<and> RV_Bind_result eops uops h r = Bind_result dummy_ops eops uops (\<lambda>_. h) (prim r)
       \<and> RV_Bind_value eops uops k r = Bind_value dummy_ops eops uops (\<lambda>_. k) (prim r)"
  by (simp add: RV_state_eq RV_state_eq2 RV_observer_eq [OF wf] RV_Error_const_eq RV_Value_eq [OF wf]
      RV_bool_def Result_bool_def RV_deref_def RV_ValueOr_def)

theorem Result_void_agrees_witness:
  "RV_Error_const scalar_ops \<lparr>v_mData = mData (Result_rep (HasE (5 :: int)))\<rparr> = (Ret 5 :: (unit, int) outcome)"
  using Result_void_agrees [where r = "\<lparr>v_mData = mData (Result_rep (HasE (5 :: int)))\<rparr>"
      and eops = "scalar_ops :: (unit, unit, int) elem_ops" and uops = "scalar_ops :: (unit, unit, int) elem_ops"
      and h = Undefined and k = Undefined and self = False
      and s = "\<lparr>v_mData = mData (Result_rep (HasE (5 :: int)))\<rparr>" and m = Undefined and n = Undefined and e = 0
      and g = Undefined and u = Undefined and eq_E = "(=)" and f = "\<lambda>_. Undefined" and throw_E = "\<lambda>_. Undefined"]
    Error_const_abs [where vops = "dummy_ops :: (unit, unit, dummy_type) elem_ops"
      and eops = scalar_ops and r = "Result_rep (HasE (5 :: int))"]
  by simp

end
