(* ===== verification/Std_Future.thy ===== *)
theory Std_Future
  imports Result_Correct
begin

text \<open>
  What \<open>ara::core::Future\<close> and \<open>Promise\<close> delegate to: the shared states, promises and futures
  of the standard library, on a heap that also holds the objects of \<open>ara::core\<close>. A program
  is a function from heaps to an outcome and a heap. A result that is handed over is
  its abstract value (\<open>rslt\<close>); the value of \<open>void\<close> is \<open>Void\<close>.
\<close>

section \<open>Heap\<close>

datatype 'v val = Void | Val 'v

type_synonym 'v res = "('v val, ErrorCode) rslt"

datatype 'v content = Pending | Stored "'v res" | StoredException cxx_exn

text \<open>A shared state, and whether its future was retrieved.\<close>

record 'v shared_state =
  content :: "'v content"
  retrieved :: bool

text \<open>
  \<open>std::future\<close> and \<open>std::promise\<close> are handles: the address of their shared state, or \<open>None\<close>.
  An \<open>ara::core::Future\<close> is a pair of handles; a \<open>Promise\<close> lives at an address, because its
  mutex stays locked while a continuation runs.
\<close>

type_synonym addr = nat
type_synonym std_future = "addr option"

record Future =
  delegate_future_of :: std_future
  extra_state_of :: "addr option"

record Promise =
  delegate_promise :: "addr option"
  extra_state :: "addr option"
  mutex_held :: bool

text \<open>
  The closures the code stores: \<open>Continuation k void f p\<close> is the lambda of \<open>then\<close> of kind \<open>k\<close>
  (with \<open>void\<close> for \<open>Future<void>\<close>) that captures the callable \<open>f\<close> and the promise at \<open>p\<close>, and
  \<open>InnerContinuation void inner_void p\<close> the lambda of \<open>fulfill_promise_future\<close>.
\<close>

datatype then_kind = KFuture | KFutureVoid | KResult | KResultVoid | KValue | KVoid

datatype 'f closure =
    Continuation then_kind bool 'f addr
  | InnerContinuation bool bool addr

record 'f State =
  unique_continuation :: "'f closure option"
  delegate_future :: std_future

record ('v, 'f) heap =
  shared :: "'v shared_state list"
  states :: "'f State list"
  promises :: "Promise list"

type_synonym ('v, 'f, 'a) proc = "('v, 'f) heap \<Rightarrow> (cxx_exn, 'a) outcome \<times> ('v, 'f) heap"

definition pret :: "'a \<Rightarrow> ('v, 'f, 'a) proc" where
  "pret a h = (Ret a, h)"

definition pfail :: "(cxx_exn, 'a) outcome \<Rightarrow> ('v, 'f, 'a) proc" where
  "pfail r h = (r, h)"

definition pbind :: "('v, 'f, 'a) proc \<Rightarrow> ('a \<Rightarrow> ('v, 'f, 'b) proc) \<Rightarrow> ('v, 'f, 'b) proc" where
  "pbind m f h =
     (case m h of
        (Ret a, h') \<Rightarrow> f a h'
      | (Throws e, h') \<Rightarrow> (Throws e, h')
      | (Terminates t, h') \<Rightarrow> (Terminates t, h')
      | (Undefined, h') \<Rightarrow> (Undefined, h')
      | (Blocks, h') \<Rightarrow> (Blocks, h'))"

text \<open>\<open>try { m } catch\<close>: the handler says which exceptions it catches.\<close>

definition pcatch ::
  "('v, 'f, 'a) proc \<Rightarrow> (cxx_exn \<Rightarrow> ('v, 'f, 'a) proc option) \<Rightarrow> ('v, 'f, 'a) proc" where
  "pcatch m handler h =
     (case m h of
        (Throws e, h') \<Rightarrow> (case handler e of Some k \<Rightarrow> k h' | None \<Rightarrow> (Throws e, h'))
      | r \<Rightarrow> r)"

lemma pbind_Ret: "m h = (Ret a, h') \<Longrightarrow> pbind m f h = f a h'"
  by (simp add: pbind_def)

lemma pbind_pret [simp]: "pbind (pret a) f h = f a h"
  by (simp add: pbind_def pret_def)

lemma pcatch_Ret: "m h = (Ret a, h') \<Longrightarrow> pcatch m k h = (Ret a, h')"
  by (simp add: pcatch_def)

section \<open>Promises and futures of the standard library\<close>

definition future_errc_broken_promise :: int where "future_errc_broken_promise = 4"

definition future_errc_already_retrieved :: int where "future_errc_already_retrieved = 1"

definition future_errc_already_satisfied :: int where "future_errc_already_satisfied = 2"

definition future_errc_no_state :: int where "future_errc_no_state = 3"

lemmas future_errc_defs =
  future_errc_broken_promise_def future_errc_already_retrieved_def
  future_errc_already_satisfied_def future_errc_no_state_def

definition new_shared :: "('v, 'f, addr) proc" where
  "new_shared h =
     (Ret (length (shared h)), h\<lparr>shared := shared h @ [\<lparr>content = Pending, retrieved = False\<rparr>]\<rparr>)"

text \<open>\<open>std::promise::get_future\<close>.\<close>

definition std_get_future :: "addr option \<Rightarrow> ('v, 'f, std_future) proc" where
  "std_get_future pr h =
     (case pr of
        None \<Rightarrow> (Throws (StdFutureError future_errc_no_state), h)
      | Some a \<Rightarrow>
          if retrieved (shared h ! a)
          then (Throws (StdFutureError future_errc_already_retrieved), h)
          else (Ret (Some a), h\<lparr>shared := (shared h)[a := (shared h ! a)\<lparr>retrieved := True\<rparr>]\<rparr>))"

text \<open>\<open>std::promise::set_value\<close> and \<open>set_exception\<close>.\<close>

definition std_set :: "addr option \<Rightarrow> 'v content \<Rightarrow> ('v, 'f, unit) proc" where
  "std_set pr c h =
     (case pr of
        None \<Rightarrow> (Throws (StdFutureError future_errc_no_state), h)
      | Some a \<Rightarrow>
          if content (shared h ! a) \<noteq> Pending
          then (Throws (StdFutureError future_errc_already_satisfied), h)
          else (Ret (), h\<lparr>shared := (shared h)[a := (shared h ! a)\<lparr>content := c\<rparr>]\<rparr>))"

text \<open>The destructor of \<open>std::promise\<close>: an unsatisfied shared state gets \<open>broken_promise\<close>.\<close>

definition std_abandon :: "addr option \<Rightarrow> ('v, 'f) heap \<Rightarrow> ('v, 'f) heap" where
  "std_abandon pr h =
     (case pr of
        None \<Rightarrow> h
      | Some a \<Rightarrow>
          if content (shared h ! a) \<noteq> Pending then h
          else h\<lparr>shared := (shared h)[a := (shared h ! a)
                   \<lparr>content := StoredException (StdFutureError future_errc_broken_promise)\<rparr>]\<rparr>)"

text \<open>\<open>std::future::get\<close> gives up the handle, whatever happens.\<close>

definition std_get ::
  "std_future \<Rightarrow> ('v, 'f) heap \<Rightarrow> (cxx_exn, 'v res) outcome \<times> std_future" where
  "std_get fut h =
     (case fut of
        None \<Rightarrow> (Throws (StdFutureError future_errc_no_state), None)
      | Some a \<Rightarrow>
          (case content (shared h ! a) of
             Pending \<Rightarrow> (Blocks, fut)
           | Stored r \<Rightarrow> (Ret r, None)
           | StoredException e \<Rightarrow> (Throws e, None)))"

definition std_wait :: "std_future \<Rightarrow> ('v, 'f) heap \<Rightarrow> (cxx_exn, unit) outcome" where
  "std_wait fut h =
     (case fut of
        None \<Rightarrow> Throws (StdFutureError future_errc_no_state)
      | Some a \<Rightarrow> if content (shared h ! a) = Pending then Blocks else Ret ())"

datatype std_future_status = Std_ready | Std_timeout | Std_deferred

text \<open>
  \<open>wait_for\<close> and \<open>wait_until\<close> report the state of the heap at the end of the wait. A state made
  by a promise is never deferred.
\<close>

definition std_wait_status :: "std_future \<Rightarrow> ('v, 'f) heap \<Rightarrow> (cxx_exn, std_future_status) outcome" where
  "std_wait_status fut h =
     (case fut of
        None \<Rightarrow> Throws (StdFutureError future_errc_no_state)
      | Some a \<Rightarrow> Ret (if content (shared h ! a) = Pending then Std_timeout else Std_ready))"

end
