(* ===== verification/Promise.thy ===== *)
theory Promise
  imports Std_Future
begin

text \<open>
  The class \<open>internal::State\<close> of \<open>ara/core/future.h\<close>, the special member functions of \<open>Future\<close>,
  and \<open>Promise<T, E>\<close> and \<open>Promise<void, E>\<close> of \<open>ara/core/promise.h\<close>. A promise that is made
  ready runs the continuation stored in the state it shares with its future; what
  running that continuation does is the argument \<open>fire\<close> here (\<open>extra_state_->FireContinuation()\<close>),
  which the theory \<open>Future\<close> supplies.
\<close>

section \<open>State\<close>

definition State_ctor :: "('v, 'f, addr) proc" where
  "State_ctor h =
     (Ret (length (states h)),
      h\<lparr>states := states h @ [\<lparr>unique_continuation = None, delegate_future = None\<rparr>]\<rparr>)"

definition HasContinuation :: "addr \<Rightarrow> ('v, 'f) heap \<Rightarrow> bool" where
  "HasContinuation s h \<longleftrightarrow> unique_continuation (states h ! s) \<noteq> None"

definition Future_ctor :: "std_future \<Rightarrow> addr option \<Rightarrow> Future" where
  "Future_ctor df es = \<lparr>delegate_future_of = df, extra_state_of = es\<rparr>"

definition State_get_future :: "addr \<Rightarrow> ('v, 'f, Future) proc" where
  "State_get_future s h =
     (Ret (Future_ctor (delegate_future (states h ! s)) (Some s)),
      h\<lparr>states := (states h)[s := (states h ! s)\<lparr>delegate_future := None\<rparr>]\<rparr>)"

text \<open>\<open>run\<close> calls the stored closure. The closure stays stored.\<close>

definition FireContinuation ::
  "('f closure \<Rightarrow> Future \<Rightarrow> ('v, 'f, unit) proc) \<Rightarrow> addr option \<Rightarrow> ('v, 'f, unit) proc" where
  "FireContinuation run this h =
     (case this of
        None \<Rightarrow> (Undefined, h)
      | Some s \<Rightarrow>
          if HasContinuation s h
          then pbind (State_get_future s) (run (the (unique_continuation (states h ! s)))) h
          else (Ret (), h))"

lemma FireContinuation_eq:
  "FireContinuation run this h =
     (case this of
        None \<Rightarrow> (Undefined, h)
      | Some s \<Rightarrow>
          (case unique_continuation (states h ! s) of
             Some k \<Rightarrow> pbind (State_get_future s) (run k) h
           | None \<Rightarrow> (Ret (), h)))"
  by (auto simp: FireContinuation_def HasContinuation_def split: option.split)

text \<open>The result is the predecessor future after its handle was moved out.\<close>

definition SetContinuation :: "addr \<Rightarrow> 'f closure \<Rightarrow> Future \<Rightarrow> ('v, 'f, Future) proc" where
  "SetContinuation s func predecessor_future h =
     (Ret (predecessor_future\<lparr>delegate_future_of := None\<rparr>),
      h\<lparr>states := (states h)[s := \<lparr>unique_continuation = Some func,
                                   delegate_future = delegate_future_of predecessor_future\<rparr>]\<rparr>)"

section \<open>Future: construction and moves\<close>

definition Future_default :: Future where
  "Future_default = \<lparr>delegate_future_of = None, extra_state_of = None\<rparr>"

text \<open>
  What a move does to the members of the new future and of its source. The uses inside the library
  move a future no other thread knows: the mutex is free and nothing else happens.
\<close>

definition Future_moved :: "Future \<Rightarrow> Future \<times> Future" where
  "Future_moved other =
     (\<lparr>delegate_future_of = delegate_future_of other, extra_state_of = extra_state_of other\<rparr>,
      other\<lparr>delegate_future_of := None, extra_state_of := None\<rparr>)"

definition Future_assigned :: "bool \<Rightarrow> Future \<Rightarrow> Future \<Rightarrow> Future \<times> Future" where
  "Future_assigned self this other =
     (if \<not> self
      then (this\<lparr>delegate_future_of := delegate_future_of other, extra_state_of := extra_state_of other\<rparr>,
            other\<lparr>delegate_future_of := None, extra_state_of := None\<rparr>)
      else (this, other))"

text \<open>
  The constructor and the assignment with their mutexes, \<open>other_held\<close> and \<open>this_held\<close> saying whether a
  thread holds them. The result is the outcome and what is left of the source. In \<open>Future<T, E>\<close> the
  lock is the member declared last: the others have moved when it is taken.
\<close>

definition Future_move_ctor :: "bool \<Rightarrow> Future \<Rightarrow> (cxx_exn, Future) outcome \<times> Future" where
  "Future_move_ctor other_held other =
     (let (this, left) = Future_moved other
      in if other_held then (Blocks, left) else (Ret this, left))"

definition Future_move_assign ::
  "bool \<Rightarrow> bool \<Rightarrow> bool \<Rightarrow> Future \<Rightarrow> Future \<Rightarrow> (cxx_exn, Future) outcome \<times> Future" where
  "Future_move_assign self this_held other_held this other =
     (if \<not> self \<and> (this_held \<or> other_held) then (Blocks, other)
      else let (this, left) = Future_assigned self this other in (Ret this, left))"

definition FV_ctor :: "std_future \<Rightarrow> addr option \<Rightarrow> Future" where
  "FV_ctor df es = \<lparr>delegate_future_of = df, extra_state_of = es\<rparr>"

definition FV_default :: Future where
  "FV_default = \<lparr>delegate_future_of = None, extra_state_of = None\<rparr>"

definition FV_moved :: "Future \<Rightarrow> Future \<times> Future" where
  "FV_moved other =
     (\<lparr>delegate_future_of = delegate_future_of other, extra_state_of = extra_state_of other\<rparr>,
      other\<lparr>delegate_future_of := None, extra_state_of := None\<rparr>)"

definition FV_assigned :: "bool \<Rightarrow> Future \<Rightarrow> Future \<Rightarrow> Future \<times> Future" where
  "FV_assigned self this other =
     (if \<not> self
      then (this\<lparr>delegate_future_of := delegate_future_of other, extra_state_of := extra_state_of other\<rparr>,
            other\<lparr>delegate_future_of := None, extra_state_of := None\<rparr>)
      else (this, other))"

text \<open>In \<open>Future<void, E>\<close> the lock is declared before the members that move.\<close>

definition FV_move_ctor :: "bool \<Rightarrow> Future \<Rightarrow> (cxx_exn, Future) outcome \<times> Future" where
  "FV_move_ctor other_held other =
     (if other_held then (Blocks, other)
      else let (this, left) = FV_moved other in (Ret this, left))"

definition FV_move_assign ::
  "bool \<Rightarrow> bool \<Rightarrow> bool \<Rightarrow> Future \<Rightarrow> Future \<Rightarrow> (cxx_exn, Future) outcome \<times> Future" where
  "FV_move_assign self this_held other_held this other =
     (if \<not> self \<and> (this_held \<or> other_held) then (Blocks, other)
      else let (this, left) = FV_assigned self this other in (Ret this, left))"

section \<open>Promise objects\<close>

definition promise_at :: "('v, 'f) heap \<Rightarrow> addr \<Rightarrow> Promise" where
  "promise_at h p = promises h ! p"

definition set_promise :: "addr \<Rightarrow> Promise \<Rightarrow> ('v, 'f) heap \<Rightarrow> ('v, 'f) heap" where
  "set_promise p pr h = h\<lparr>promises := (promises h)[p := pr]\<rparr>"

definition new_promise :: "Promise \<Rightarrow> ('v, 'f, addr) proc" where
  "new_promise pr h = (Ret (length (promises h)), h\<lparr>promises := promises h @ [pr]\<rparr>)"

text \<open>
  \<open>Lock lock(mutex_)\<close> around \<open>m\<close>, released on every exit. A thread that already holds the
  mutex blocks for good.
\<close>

definition with_lock :: "addr \<Rightarrow> ('v, 'f, 'a) proc \<Rightarrow> ('v, 'f, 'a) proc" where
  "with_lock p m h =
     (if mutex_held (promise_at h p) then (Blocks, h)
      else let (r, h') = m (set_promise p ((promise_at h p)\<lparr>mutex_held := True\<rparr>) h)
           in (r, set_promise p ((promise_at h' p)\<lparr>mutex_held := False\<rparr>) h'))"

text \<open>
  \<open>std::lock\<close> on both mutexes of a move assignment or a swap. It never succeeds on one mutex
  twice.
\<close>

definition with_locks :: "addr \<Rightarrow> addr \<Rightarrow> ('v, 'f, 'a) proc \<Rightarrow> ('v, 'f, 'a) proc" where
  "with_locks p q m h =
     (if p = q \<or> mutex_held (promise_at h p) \<or> mutex_held (promise_at h q) then (Blocks, h)
      else m h)"

section \<open>Promise<T, E>\<close>

definition Promise_ctor :: "('v, 'f, addr) proc" where
  "Promise_ctor =
     pbind new_shared (\<lambda>a. pbind State_ctor (\<lambda>s.
       new_promise \<lparr>delegate_promise = Some a, extra_state = Some s, mutex_held = False\<rparr>))"

definition Promise_dtor :: "addr \<Rightarrow> ('v, 'f) heap \<Rightarrow> ('v, 'f) heap" where
  "Promise_dtor p h =
     set_promise p \<lparr>delegate_promise = None, extra_state = None, mutex_held = False\<rparr>
       (std_abandon (delegate_promise (promise_at h p)) h)"

text \<open>The members are initialised in the order of their declaration: the lock comes first.\<close>

definition Promise_move_ctor :: "addr \<Rightarrow> ('v, 'f, addr) proc" where
  "Promise_move_ctor other h =
     (if mutex_held (promise_at h other) then (Blocks, h)
      else new_promise ((promise_at h other)\<lparr>mutex_held := False\<rparr>)
             (set_promise other ((promise_at h other)\<lparr>delegate_promise := None, extra_state := None\<rparr>) h))"

definition Promise_move_assign :: "addr \<Rightarrow> addr \<Rightarrow> ('v, 'f, unit) proc" where
  "Promise_move_assign this other h =
     (if this \<noteq> other
      then with_locks this other (\<lambda>h.
        (Ret (), set_promise other ((promise_at h other)\<lparr>delegate_promise := None, extra_state := None\<rparr>)
           (set_promise this ((promise_at h this)\<lparr>delegate_promise := delegate_promise (promise_at h other),
                                                  extra_state := extra_state (promise_at h other)\<rparr>)
             (std_abandon (delegate_promise (promise_at h this)) h)))) h
      else (Ret (), h))"

definition Promise_swap :: "addr \<Rightarrow> addr \<Rightarrow> ('v, 'f, unit) proc" where
  "Promise_swap this other =
     with_locks this other (\<lambda>h.
       (Ret (), set_promise other ((promise_at h other)\<lparr>delegate_promise := delegate_promise (promise_at h this),
                                                     extra_state := extra_state (promise_at h this)\<rparr>)
          (set_promise this ((promise_at h this)\<lparr>delegate_promise := delegate_promise (promise_at h other),
                                                 extra_state := extra_state (promise_at h other)\<rparr>) h)))"

definition Promise_get_future :: "addr \<Rightarrow> ('v, 'f, Future) proc" where
  "Promise_get_future this h =
     pbind (std_get_future (delegate_promise (promise_at h this)))
       (\<lambda>df h. pret (Future_ctor df (extra_state (promise_at h this))) h) h"

definition Promise_SetError_rvalue :: "(addr option \<Rightarrow> ('v, 'f, unit) proc) \<Rightarrow> addr \<Rightarrow> ErrorCode \<Rightarrow> ('v, 'f, unit) proc" where
  "Promise_SetError_rvalue fire this err =
     with_lock this (\<lambda>h.
       pbind (std_set (delegate_promise (promise_at h this)) (Stored (HasE err)))
         (\<lambda>_ h. fire (extra_state (promise_at h this)) h) h)"

definition Promise_SetError_lvalue :: "(addr option \<Rightarrow> ('v, 'f, unit) proc) \<Rightarrow> addr \<Rightarrow> ErrorCode \<Rightarrow> ('v, 'f, unit) proc" where
  "Promise_SetError_lvalue fire this err =
     with_lock this (\<lambda>h.
       pbind (std_set (delegate_promise (promise_at h this)) (Stored (HasE err)))
         (\<lambda>_ h. fire (extra_state (promise_at h this)) h) h)"

definition Promise_set_exception :: "(addr option \<Rightarrow> ('v, 'f, unit) proc) \<Rightarrow> addr \<Rightarrow> cxx_exn \<Rightarrow> ('v, 'f, unit) proc" where
  "Promise_set_exception fire this e =
     with_lock this (\<lambda>h.
       pbind (std_set (delegate_promise (promise_at h this)) (StoredException e))
         (\<lambda>_ h. fire (extra_state (promise_at h this)) h) h)"

definition Promise_set_value_rvalue :: "(addr option \<Rightarrow> ('v, 'f, unit) proc) \<Rightarrow> addr \<Rightarrow> 'v val \<Rightarrow> ('v, 'f, unit) proc" where
  "Promise_set_value_rvalue fire this v =
     with_lock this (\<lambda>h.
       pbind (std_set (delegate_promise (promise_at h this)) (Stored (HasV v)))
         (\<lambda>_ h. fire (extra_state (promise_at h this)) h) h)"

definition Promise_set_value_lvalue :: "(addr option \<Rightarrow> ('v, 'f, unit) proc) \<Rightarrow> addr \<Rightarrow> 'v val \<Rightarrow> ('v, 'f, unit) proc" where
  "Promise_set_value_lvalue fire this v =
     with_lock this (\<lambda>h.
       pbind (std_set (delegate_promise (promise_at h this)) (Stored (HasV v)))
         (\<lambda>_ h. fire (extra_state (promise_at h this)) h) h)"

section \<open>Promise<void, E>\<close>

definition PV_ctor :: "('v, 'f, addr) proc" where
  "PV_ctor =
     pbind new_shared (\<lambda>a. pbind State_ctor (\<lambda>s.
       new_promise \<lparr>delegate_promise = Some a, extra_state = Some s, mutex_held = False\<rparr>))"

definition PV_dtor :: "addr \<Rightarrow> ('v, 'f) heap \<Rightarrow> ('v, 'f) heap" where
  "PV_dtor p h =
     set_promise p \<lparr>delegate_promise = None, extra_state = None, mutex_held = False\<rparr>
       (std_abandon (delegate_promise (promise_at h p)) h)"

text \<open>Here the lock is declared last: the members have moved when it is taken.\<close>

definition PV_move_ctor :: "addr \<Rightarrow> ('v, 'f, addr) proc" where
  "PV_move_ctor other h =
     (let h1 = set_promise other ((promise_at h other)\<lparr>delegate_promise := None, extra_state := None\<rparr>) h
      in if mutex_held (promise_at h other) then (Blocks, h1)
         else new_promise ((promise_at h other)\<lparr>mutex_held := False\<rparr>) h1)"

definition PV_move_assign :: "addr \<Rightarrow> addr \<Rightarrow> ('v, 'f, unit) proc" where
  "PV_move_assign this other h =
     (if this \<noteq> other
      then with_locks this other (\<lambda>h.
        (Ret (), set_promise other ((promise_at h other)\<lparr>delegate_promise := None, extra_state := None\<rparr>)
           (set_promise this ((promise_at h this)\<lparr>delegate_promise := delegate_promise (promise_at h other),
                                                  extra_state := extra_state (promise_at h other)\<rparr>)
             (std_abandon (delegate_promise (promise_at h this)) h)))) h
      else (Ret (), h))"

definition PV_swap :: "addr \<Rightarrow> addr \<Rightarrow> ('v, 'f, unit) proc" where
  "PV_swap this other =
     with_locks this other (\<lambda>h.
       (Ret (), set_promise other ((promise_at h other)\<lparr>delegate_promise := delegate_promise (promise_at h this),
                                                     extra_state := extra_state (promise_at h this)\<rparr>)
          (set_promise this ((promise_at h this)\<lparr>delegate_promise := delegate_promise (promise_at h other),
                                                 extra_state := extra_state (promise_at h other)\<rparr>) h)))"

definition PV_get_future :: "addr \<Rightarrow> ('v, 'f, Future) proc" where
  "PV_get_future this h =
     pbind (std_get_future (delegate_promise (promise_at h this)))
       (\<lambda>df h. pret (FV_ctor df (extra_state (promise_at h this))) h) h"

definition PV_SetError_rvalue :: "(addr option \<Rightarrow> ('v, 'f, unit) proc) \<Rightarrow> addr \<Rightarrow> ErrorCode \<Rightarrow> ('v, 'f, unit) proc" where
  "PV_SetError_rvalue fire this err =
     with_lock this (\<lambda>h.
       pbind (std_set (delegate_promise (promise_at h this)) (Stored (HasE err)))
         (\<lambda>_ h. fire (extra_state (promise_at h this)) h) h)"

definition PV_SetError_lvalue :: "(addr option \<Rightarrow> ('v, 'f, unit) proc) \<Rightarrow> addr \<Rightarrow> ErrorCode \<Rightarrow> ('v, 'f, unit) proc" where
  "PV_SetError_lvalue fire this err =
     with_lock this (\<lambda>h.
       pbind (std_set (delegate_promise (promise_at h this)) (Stored (HasE err)))
         (\<lambda>_ h. fire (extra_state (promise_at h this)) h) h)"

definition PV_set_exception :: "(addr option \<Rightarrow> ('v, 'f, unit) proc) \<Rightarrow> addr \<Rightarrow> cxx_exn \<Rightarrow> ('v, 'f, unit) proc" where
  "PV_set_exception fire this e =
     with_lock this (\<lambda>h.
       pbind (std_set (delegate_promise (promise_at h this)) (StoredException e))
         (\<lambda>_ h. fire (extra_state (promise_at h this)) h) h)"

definition PV_set_value :: "(addr option \<Rightarrow> ('v, 'f, unit) proc) \<Rightarrow> addr \<Rightarrow> ('v, 'f, unit) proc" where
  "PV_set_value fire this =
     with_lock this (\<lambda>h.
       pbind (std_set (delegate_promise (promise_at h this)) (Stored (HasV Void)))
         (\<lambda>_ h. fire (extra_state (promise_at h this)) h) h)"

end
