(* ===== verification/Future.thy ===== *)
theory Future
  imports Promise
begin

text \<open>
  \<open>Future<T, E>\<close> and \<open>Future<void, E>\<close> of \<open>ara/core/future.h\<close>: retrieval of the result, the
  waits, and continuations: the overloads of \<open>then\<close>, of \<open>fulfill_promise_...\<close> that run a callable
  and pass its outcome on, and the recursion by which making one promise ready runs
  the continuation that makes the next one ready. The build is the one with exceptions.
\<close>

section \<open>Results of callables\<close>

text \<open>
  The callables are the user's code: each takes the predecessor future and may do anything
  to the heap. The field that applies is the one of the callable's return type.
\<close>

record ('v, 'f) callables =
  on_future :: "'f \<Rightarrow> Future \<Rightarrow> ('v, 'f, Future) proc"
  on_result :: "'f \<Rightarrow> Future \<Rightarrow> ('v, 'f, 'v res) proc"
  on_value :: "'f \<Rightarrow> Future \<Rightarrow> ('v, 'f, 'v val) proc"
  on_void :: "'f \<Rightarrow> Future \<Rightarrow> ('v, 'f, unit) proc"

datatype future_status = kReady | kTimeout

fun future_status_code :: "future_status \<Rightarrow> nat" where
  "future_status_code kReady = 1"
| "future_status_code kTimeout = 2"

text \<open>\<open>result.Error()\<close> on a result that was moved from.\<close>

definition no_error :: string where
  "no_error = ''__ error() called but NOT an error!''"

type_synonym ('v, 'f) fire = "addr option \<Rightarrow> ('v, 'f, unit) proc"

section \<open>Future<T, E>: the result\<close>

definition Future_GetResult :: "Future \<Rightarrow> ('v, 'f) heap \<Rightarrow> (cxx_exn, 'v res) outcome \<times> Future" where
  "Future_GetResult this h =
     (let (r, df) = std_get (delegate_future_of this) h
      in (noexcept
            (case r of
               Throws ex \<Rightarrow>
                 (case ex of
                    StdFutureError ec \<Rightarrow>
                      if ec = future_errc_broken_promise
                      then Ret (HasE (MakeErrorCode_future broken_promise 0))
                      else if ec = future_errc_already_retrieved
                      then Ret (HasE (MakeErrorCode_future future_already_retrieved 0))
                      else if ec = future_errc_already_satisfied
                      then Ret (HasE (MakeErrorCode_future promise_already_satisfied 0))
                      else if ec = future_errc_no_state
                      then Ret (HasE (MakeErrorCode_future no_state 0))
                      else Ret (HasE (MakeErrorCode_core kInvalidArgument 0))
                  | AraException _ \<Rightarrow> Ret (HasE (MakeErrorCode_future broken_promise 0))
                  | StdException _ \<Rightarrow> Ret (HasE (MakeErrorCode_future broken_promise 0))
                  | NonStdException \<Rightarrow> Throws ex)
             | other \<Rightarrow> other),
          this\<lparr>delegate_future_of := df\<rparr>))"

text \<open>
  The body for \<open>ARA_NO_EXCEPTIONS\<close>. The standard library ends the process where it would throw.
\<close>

definition Future_GetResult_no_exceptions ::
  "Future \<Rightarrow> ('v, 'f) heap \<Rightarrow> (cxx_exn, 'v res) outcome \<times> Future" where
  "Future_GetResult_no_exceptions this h =
     (let (r, df) = std_get (delegate_future_of this) h
      in (noexcept r, this\<lparr>delegate_future_of := df\<rparr>))"

text \<open>\<open>ValueOrThrow\<close> on the abstract value of the result.\<close>

fun ValueOrThrow_res :: "'v res \<Rightarrow> (cxx_exn, 'v val) outcome" where
  "ValueOrThrow_res (HasV v) = Ret v"
| "ValueOrThrow_res (HasE e) = ErrorCode_ThrowAsException False e"
| "ValueOrThrow_res Empty = Undefined"

definition Future_get :: "Future \<Rightarrow> ('v, 'f) heap \<Rightarrow> (cxx_exn, 'v val) outcome \<times> Future" where
  "Future_get this h =
     (let (r, this') = Future_GetResult this h in (obind r ValueOrThrow_res, this'))"

definition Future_valid :: "Future \<Rightarrow> bool" where
  "Future_valid this \<longleftrightarrow> delegate_future_of this \<noteq> None"

definition Future_wait :: "Future \<Rightarrow> ('v, 'f) heap \<Rightarrow> (cxx_exn, unit) outcome" where
  "Future_wait this h = std_wait (delegate_future_of this) h"

definition Future_wait_for :: "Future \<Rightarrow> ('v, 'f) heap \<Rightarrow> (cxx_exn, future_status) outcome" where
  "Future_wait_for this h =
     obind (std_wait_status (delegate_future_of this) h)
       (\<lambda>s. case s of
          Std_ready \<Rightarrow> Ret kReady
        | Std_timeout \<Rightarrow> Ret kTimeout
        | Std_deferred \<Rightarrow> Terminates ''this std::future_status should not occur in our setup'')"

definition Future_wait_until :: "Future \<Rightarrow> ('v, 'f) heap \<Rightarrow> (cxx_exn, future_status) outcome" where
  "Future_wait_until this h =
     obind (std_wait_status (delegate_future_of this) h)
       (\<lambda>s. case s of
          Std_ready \<Rightarrow> Ret kReady
        | Std_timeout \<Rightarrow> Ret kTimeout
        | Std_deferred \<Rightarrow> Terminates ''this std::future_status should not occur in our setup'')"

definition Future_is_ready :: "Future \<Rightarrow> ('v, 'f, bool) proc" where
  "Future_is_ready this h = (obind (std_wait_status (delegate_future_of this) h) (\<lambda>s. Ret (s = Std_ready)), h)"

section \<open>Future<void, E>: the result\<close>

definition FV_GetResult :: "Future \<Rightarrow> ('v, 'f) heap \<Rightarrow> (cxx_exn, 'v res) outcome \<times> Future" where
  "FV_GetResult this h =
     (let (r, df) = std_get (delegate_future_of this) h
      in (noexcept
            (case r of
               Throws ex \<Rightarrow>
                 (case ex of
                    StdFutureError ec \<Rightarrow>
                      if ec = future_errc_broken_promise
                      then Ret (HasE (MakeErrorCode_future broken_promise 0))
                      else if ec = future_errc_already_retrieved
                      then Ret (HasE (MakeErrorCode_future future_already_retrieved 0))
                      else if ec = future_errc_already_satisfied
                      then Ret (HasE (MakeErrorCode_future promise_already_satisfied 0))
                      else if ec = future_errc_no_state
                      then Ret (HasE (MakeErrorCode_future no_state 0))
                      else Ret (HasE (MakeErrorCode_core kInvalidArgument 0))
                  | AraException _ \<Rightarrow> Ret (HasE (MakeErrorCode_future broken_promise 0))
                  | StdException _ \<Rightarrow> Ret (HasE (MakeErrorCode_future broken_promise 0))
                  | NonStdException \<Rightarrow> Throws ex)
             | other \<Rightarrow> other),
          this\<lparr>delegate_future_of := df\<rparr>))"

definition FV_GetResult_no_exceptions ::
  "Future \<Rightarrow> ('v, 'f) heap \<Rightarrow> (cxx_exn, 'v res) outcome \<times> Future" where
  "FV_GetResult_no_exceptions this h =
     (let (r, df) = std_get (delegate_future_of this) h
      in (noexcept r, this\<lparr>delegate_future_of := df\<rparr>))"

definition FV_get :: "Future \<Rightarrow> ('v, 'f) heap \<Rightarrow> (cxx_exn, unit) outcome \<times> Future" where
  "FV_get this h =
     (let (r, this') = FV_GetResult this h
      in (obind r (\<lambda>x :: 'v res. obind (ValueOrThrow_res x) (\<lambda>_. Ret ())), this'))"

definition FV_valid :: "Future \<Rightarrow> bool" where
  "FV_valid this \<longleftrightarrow> delegate_future_of this \<noteq> None"

definition FV_wait :: "Future \<Rightarrow> ('v, 'f) heap \<Rightarrow> (cxx_exn, unit) outcome" where
  "FV_wait this h = std_wait (delegate_future_of this) h"

definition FV_wait_for :: "Future \<Rightarrow> ('v, 'f) heap \<Rightarrow> (cxx_exn, future_status) outcome" where
  "FV_wait_for this h =
     obind (std_wait_status (delegate_future_of this) h)
       (\<lambda>s. case s of
          Std_ready \<Rightarrow> Ret kReady
        | Std_timeout \<Rightarrow> Ret kTimeout
        | Std_deferred \<Rightarrow> Terminates ''this std::future_status should not occur in our setup'')"

definition FV_wait_until :: "Future \<Rightarrow> ('v, 'f) heap \<Rightarrow> (cxx_exn, future_status) outcome" where
  "FV_wait_until this h =
     obind (std_wait_status (delegate_future_of this) h)
       (\<lambda>s. case s of
          Std_ready \<Rightarrow> Ret kReady
        | Std_timeout \<Rightarrow> Ret kTimeout
        | Std_deferred \<Rightarrow> Terminates ''this std::future_status should not occur in our setup'')"

definition FV_is_ready :: "Future \<Rightarrow> ('v, 'f, bool) proc" where
  "FV_is_ready this h = (obind (std_wait_status (delegate_future_of this) h) (\<lambda>s. Ret (s = Std_ready)), h)"

section \<open>Future<T, E>: passing the outcome of a callable on\<close>

text \<open>\<open>SetError\<close> is that of the successor promise, \<open>Promise_SetError_rvalue\<close> or \<open>PV_SetError_rvalue\<close>.\<close>

definition Future_handle_future_error :: "(ErrorCode \<Rightarrow> ('v, 'f, unit) proc) \<Rightarrow> int \<Rightarrow> ('v, 'f, unit) proc" where
  "Future_handle_future_error SetError ec =
     (if ec = future_errc_broken_promise then SetError (MakeErrorCode_future broken_promise 0)
      else if ec = future_errc_already_retrieved then SetError (MakeErrorCode_future future_already_retrieved 0)
      else if ec = future_errc_already_satisfied then SetError (MakeErrorCode_future promise_already_satisfied 0)
      else if ec = future_errc_no_state then SetError (MakeErrorCode_future no_state 0)
      else SetError (MakeErrorCode_core kInvalidArgument 0))"

definition Future_handle_exception :: "(ErrorCode \<Rightarrow> ('v, 'f, unit) proc) \<Rightarrow> ('v, 'f, unit) proc" where
  "Future_handle_exception SetError = SetError (MakeErrorCode_future broken_promise 0)"

text \<open>The two \<open>catch\<close> clauses; an object outside the \<open>std::exception\<close> hierarchy passes through.\<close>

fun Future_catch :: "(ErrorCode \<Rightarrow> ('v, 'f, unit) proc) \<Rightarrow> cxx_exn \<Rightarrow> ('v, 'f, unit) proc option" where
  "Future_catch SetError (StdFutureError ec) = Some (Future_handle_future_error SetError ec)"
| "Future_catch SetError (StdException _) = Some (Future_handle_exception SetError)"
| "Future_catch SetError (AraException _) = Some (Future_handle_exception SetError)"
| "Future_catch SetError NonStdException = None"

text \<open>The lambda: the result of the inner future goes to the outer promise.\<close>

definition Future_inner_continuation :: "('v, 'f) fire \<Rightarrow> addr \<Rightarrow> Future \<Rightarrow> ('v, 'f, unit) proc" where
  "Future_inner_continuation fire outer_promise inner_future h =
     (case fst (Future_GetResult inner_future h) of
        Ret result \<Rightarrow>
          (case result of
             HasV v \<Rightarrow> Promise_set_value_lvalue fire outer_promise v h
           | HasE e \<Rightarrow> Promise_SetError_lvalue fire outer_promise e h
           | Empty \<Rightarrow> (Terminates no_error, h))
      | other \<Rightarrow> (obind other (\<lambda>_. Ret ()), h))"

definition Future_fulfill_promise_future ::
  "('v, 'f) callables \<Rightarrow> ('v, 'f) fire \<Rightarrow> 'f \<Rightarrow> addr \<Rightarrow> Future \<Rightarrow> ('v, 'f, unit) proc" where
  "Future_fulfill_promise_future cbs fire func successor predecessor_future =
     pcatch
       (pbind (on_future cbs func predecessor_future) (\<lambda>inner_future.
          if \<not> Future_valid inner_future
          then Promise_SetError_rvalue fire successor (MakeErrorCode_future broken_promise 0)
          else (case extra_state_of inner_future of
              None \<Rightarrow> pfail Undefined
            | Some s \<Rightarrow>
                pbind (Promise_move_ctor successor) (\<lambda>outer.
                pbind (Future_is_ready inner_future) (\<lambda>ready.
                  if ready
                  then Future_inner_continuation fire outer (fst (Future_moved inner_future))
                  else pbind (SetContinuation s
                          (InnerContinuation False False outer) inner_future)
                        (\<lambda>_. pret ()))))))
       (Future_catch (Promise_SetError_rvalue fire successor))"

definition Future_inner_continuation_void :: "('v, 'f) fire \<Rightarrow> addr \<Rightarrow> Future \<Rightarrow> ('v, 'f, unit) proc" where
  "Future_inner_continuation_void fire outer_promise inner_future h =
     (case fst (FV_GetResult inner_future h) of
        Ret result \<Rightarrow>
          (case result of
             HasV v \<Rightarrow> PV_set_value fire outer_promise h
           | HasE e \<Rightarrow> PV_SetError_lvalue fire outer_promise e h
           | Empty \<Rightarrow> (Terminates no_error, h))
      | other \<Rightarrow> (obind other (\<lambda>_. Ret ()), h))"

definition Future_fulfill_promise_future_void ::
  "('v, 'f) callables \<Rightarrow> ('v, 'f) fire \<Rightarrow> 'f \<Rightarrow> addr \<Rightarrow> Future \<Rightarrow> ('v, 'f, unit) proc" where
  "Future_fulfill_promise_future_void cbs fire func successor predecessor_future =
     pcatch
       (pbind (on_future cbs func predecessor_future) (\<lambda>inner_future.
          if \<not> FV_valid inner_future
          then PV_SetError_rvalue fire successor (MakeErrorCode_future broken_promise 0)
          else (case extra_state_of inner_future of
              None \<Rightarrow> pfail Undefined
            | Some s \<Rightarrow>
                pbind (PV_move_ctor successor) (\<lambda>outer.
                pbind (FV_is_ready inner_future) (\<lambda>ready.
                  if ready
                  then Future_inner_continuation_void fire outer (fst (FV_moved inner_future))
                  else pbind (SetContinuation s
                          (InnerContinuation False True outer) inner_future)
                        (\<lambda>_. pret ()))))))
       (Future_catch (PV_SetError_rvalue fire successor))"

definition Future_fulfill_promise_result ::
  "('v, 'f) callables \<Rightarrow> ('v, 'f) fire \<Rightarrow> 'f \<Rightarrow> addr \<Rightarrow> Future \<Rightarrow> ('v, 'f, unit) proc" where
  "Future_fulfill_promise_result cbs fire func successor predecessor_future =
     pcatch
       (pbind (on_result cbs func predecessor_future) (\<lambda>result.
          case result of
            HasV v \<Rightarrow> Promise_set_value_lvalue fire successor v
          | HasE e \<Rightarrow> Promise_SetError_lvalue fire successor e
          | Empty \<Rightarrow> pfail (Terminates no_error)))
       (Future_catch (Promise_SetError_rvalue fire successor))"

definition Future_fulfill_promise_result_void ::
  "('v, 'f) callables \<Rightarrow> ('v, 'f) fire \<Rightarrow> 'f \<Rightarrow> addr \<Rightarrow> Future \<Rightarrow> ('v, 'f, unit) proc" where
  "Future_fulfill_promise_result_void cbs fire func successor predecessor_future =
     pcatch
       (pbind (on_result cbs func predecessor_future) (\<lambda>result.
          case result of
            HasV v \<Rightarrow> PV_set_value fire successor
          | HasE e \<Rightarrow> PV_SetError_lvalue fire successor e
          | Empty \<Rightarrow> pfail (Terminates no_error)))
       (Future_catch (PV_SetError_rvalue fire successor))"

definition Future_fulfill_promise_valuetype ::
  "('v, 'f) callables \<Rightarrow> ('v, 'f) fire \<Rightarrow> 'f \<Rightarrow> addr \<Rightarrow> Future \<Rightarrow> ('v, 'f, unit) proc" where
  "Future_fulfill_promise_valuetype cbs fire func successor predecessor_future =
     pcatch
       (pbind (on_value cbs func predecessor_future) (\<lambda>result.
          Promise_set_value_lvalue fire successor result))
       (Future_catch (Promise_SetError_rvalue fire successor))"

definition Future_fulfill_promise_void ::
  "('v, 'f) callables \<Rightarrow> ('v, 'f) fire \<Rightarrow> 'f \<Rightarrow> addr \<Rightarrow> Future \<Rightarrow> ('v, 'f, unit) proc" where
  "Future_fulfill_promise_void cbs fire func successor predecessor_future =
     pcatch
       (pbind (on_void cbs func predecessor_future) (\<lambda>_. PV_set_value fire successor))
       (Future_catch (PV_SetError_rvalue fire successor))"

section \<open>Future<void, E>: passing the outcome of a callable on\<close>

definition FV_handle_future_error :: "(ErrorCode \<Rightarrow> ('v, 'f, unit) proc) \<Rightarrow> int \<Rightarrow> ('v, 'f, unit) proc" where
  "FV_handle_future_error SetError ec =
     (if ec = future_errc_broken_promise then SetError (MakeErrorCode_future broken_promise 0)
      else if ec = future_errc_already_retrieved then SetError (MakeErrorCode_future future_already_retrieved 0)
      else if ec = future_errc_already_satisfied then SetError (MakeErrorCode_future promise_already_satisfied 0)
      else if ec = future_errc_no_state then SetError (MakeErrorCode_future no_state 0)
      else SetError (MakeErrorCode_core kInvalidArgument 0))"

definition FV_handle_exception :: "(ErrorCode \<Rightarrow> ('v, 'f, unit) proc) \<Rightarrow> ('v, 'f, unit) proc" where
  "FV_handle_exception SetError = SetError (MakeErrorCode_future broken_promise 0)"

text \<open>The two \<open>catch\<close> clauses; an object outside the \<open>std::exception\<close> hierarchy passes through.\<close>

fun FV_catch :: "(ErrorCode \<Rightarrow> ('v, 'f, unit) proc) \<Rightarrow> cxx_exn \<Rightarrow> ('v, 'f, unit) proc option" where
  "FV_catch SetError (StdFutureError ec) = Some (FV_handle_future_error SetError ec)"
| "FV_catch SetError (StdException _) = Some (FV_handle_exception SetError)"
| "FV_catch SetError (AraException _) = Some (FV_handle_exception SetError)"
| "FV_catch SetError NonStdException = None"

text \<open>The lambda: the result of the inner future goes to the outer promise.\<close>

definition FV_inner_continuation :: "('v, 'f) fire \<Rightarrow> addr \<Rightarrow> Future \<Rightarrow> ('v, 'f, unit) proc" where
  "FV_inner_continuation fire outer_promise inner_future h =
     (case fst (Future_GetResult inner_future h) of
        Ret result \<Rightarrow>
          (case result of
             HasV v \<Rightarrow> Promise_set_value_lvalue fire outer_promise v h
           | HasE e \<Rightarrow> Promise_SetError_lvalue fire outer_promise e h
           | Empty \<Rightarrow> (Terminates no_error, h))
      | other \<Rightarrow> (obind other (\<lambda>_. Ret ()), h))"

definition FV_fulfill_promise_future ::
  "('v, 'f) callables \<Rightarrow> ('v, 'f) fire \<Rightarrow> 'f \<Rightarrow> addr \<Rightarrow> Future \<Rightarrow> ('v, 'f, unit) proc" where
  "FV_fulfill_promise_future cbs fire func successor predecessor_future =
     pcatch
       (pbind (on_future cbs func predecessor_future) (\<lambda>inner_future.
          if \<not> Future_valid inner_future
          then Promise_SetError_rvalue fire successor (MakeErrorCode_future broken_promise 0)
          else (case extra_state_of inner_future of
              None \<Rightarrow> pfail Undefined
            | Some s \<Rightarrow>
                pbind (Promise_move_ctor successor) (\<lambda>outer.
                pbind (Future_is_ready inner_future) (\<lambda>ready.
                  if ready
                  then FV_inner_continuation fire outer (fst (Future_moved inner_future))
                  else pbind (SetContinuation s
                          (InnerContinuation True False outer) inner_future)
                        (\<lambda>_. pret ()))))))
       (FV_catch (Promise_SetError_rvalue fire successor))"

definition FV_inner_continuation_void :: "('v, 'f) fire \<Rightarrow> addr \<Rightarrow> Future \<Rightarrow> ('v, 'f, unit) proc" where
  "FV_inner_continuation_void fire outer_promise inner_future h =
     (case fst (FV_GetResult inner_future h) of
        Ret result \<Rightarrow>
          (case result of
             HasV v \<Rightarrow> PV_set_value fire outer_promise h
           | HasE e \<Rightarrow> PV_SetError_lvalue fire outer_promise e h
           | Empty \<Rightarrow> (Terminates no_error, h))
      | other \<Rightarrow> (obind other (\<lambda>_. Ret ()), h))"

definition FV_fulfill_promise_future_void ::
  "('v, 'f) callables \<Rightarrow> ('v, 'f) fire \<Rightarrow> 'f \<Rightarrow> addr \<Rightarrow> Future \<Rightarrow> ('v, 'f, unit) proc" where
  "FV_fulfill_promise_future_void cbs fire func successor predecessor_future =
     pcatch
       (pbind (on_future cbs func predecessor_future) (\<lambda>inner_future.
          if \<not> FV_valid inner_future
          then PV_SetError_rvalue fire successor (MakeErrorCode_future broken_promise 0)
          else (case extra_state_of inner_future of
              None \<Rightarrow> pfail Undefined
            | Some s \<Rightarrow>
                pbind (PV_move_ctor successor) (\<lambda>outer.
                pbind (FV_is_ready inner_future) (\<lambda>ready.
                  if ready
                  then FV_inner_continuation_void fire outer (fst (FV_moved inner_future))
                  else pbind (SetContinuation s
                          (InnerContinuation True True outer) inner_future)
                        (\<lambda>_. pret ()))))))
       (FV_catch (PV_SetError_rvalue fire successor))"

definition FV_fulfill_promise_result ::
  "('v, 'f) callables \<Rightarrow> ('v, 'f) fire \<Rightarrow> 'f \<Rightarrow> addr \<Rightarrow> Future \<Rightarrow> ('v, 'f, unit) proc" where
  "FV_fulfill_promise_result cbs fire func successor predecessor_future =
     pcatch
       (pbind (on_result cbs func predecessor_future) (\<lambda>result.
          case result of
            HasV v \<Rightarrow> Promise_set_value_lvalue fire successor v
          | HasE e \<Rightarrow> Promise_SetError_lvalue fire successor e
          | Empty \<Rightarrow> pfail (Terminates no_error)))
       (FV_catch (Promise_SetError_rvalue fire successor))"

definition FV_fulfill_promise_result_void ::
  "('v, 'f) callables \<Rightarrow> ('v, 'f) fire \<Rightarrow> 'f \<Rightarrow> addr \<Rightarrow> Future \<Rightarrow> ('v, 'f, unit) proc" where
  "FV_fulfill_promise_result_void cbs fire func successor predecessor_future =
     pcatch
       (pbind (on_result cbs func predecessor_future) (\<lambda>result.
          case result of
            HasV v \<Rightarrow> PV_set_value fire successor
          | HasE e \<Rightarrow> PV_SetError_lvalue fire successor e
          | Empty \<Rightarrow> pfail (Terminates no_error)))
       (FV_catch (PV_SetError_rvalue fire successor))"

definition FV_fulfill_promise_valuetype ::
  "('v, 'f) callables \<Rightarrow> ('v, 'f) fire \<Rightarrow> 'f \<Rightarrow> addr \<Rightarrow> Future \<Rightarrow> ('v, 'f, unit) proc" where
  "FV_fulfill_promise_valuetype cbs fire func successor predecessor_future =
     pcatch
       (pbind (on_value cbs func predecessor_future) (\<lambda>result.
          Promise_set_value_lvalue fire successor result))
       (FV_catch (Promise_SetError_rvalue fire successor))"

definition FV_fulfill_promise_void ::
  "('v, 'f) callables \<Rightarrow> ('v, 'f) fire \<Rightarrow> 'f \<Rightarrow> addr \<Rightarrow> Future \<Rightarrow> ('v, 'f, unit) proc" where
  "FV_fulfill_promise_void cbs fire func successor predecessor_future =
     pcatch
       (pbind (on_void cbs func predecessor_future) (\<lambda>_. PV_set_value fire successor))
       (FV_catch (PV_SetError_rvalue fire successor))"

section \<open>Running a stored closure\<close>

fun run_closure ::
  "('v, 'f) callables \<Rightarrow> ('v, 'f) fire \<Rightarrow> 'f closure \<Rightarrow> Future \<Rightarrow> ('v, 'f, unit) proc" where
  "run_closure cbs fire (Continuation KFuture False func promise) predecessor =
     Future_fulfill_promise_future cbs fire func promise predecessor"
| "run_closure cbs fire (Continuation KFutureVoid False func promise) predecessor =
     Future_fulfill_promise_future_void cbs fire func promise predecessor"
| "run_closure cbs fire (Continuation KResult False func promise) predecessor =
     Future_fulfill_promise_result cbs fire func promise predecessor"
| "run_closure cbs fire (Continuation KResultVoid False func promise) predecessor =
     Future_fulfill_promise_result_void cbs fire func promise predecessor"
| "run_closure cbs fire (Continuation KValue False func promise) predecessor =
     Future_fulfill_promise_valuetype cbs fire func promise predecessor"
| "run_closure cbs fire (Continuation KVoid False func promise) predecessor =
     Future_fulfill_promise_void cbs fire func promise predecessor"
| "run_closure cbs fire (Continuation KFuture True func promise) predecessor =
     FV_fulfill_promise_future cbs fire func promise predecessor"
| "run_closure cbs fire (Continuation KFutureVoid True func promise) predecessor =
     FV_fulfill_promise_future_void cbs fire func promise predecessor"
| "run_closure cbs fire (Continuation KResult True func promise) predecessor =
     FV_fulfill_promise_result cbs fire func promise predecessor"
| "run_closure cbs fire (Continuation KResultVoid True func promise) predecessor =
     FV_fulfill_promise_result_void cbs fire func promise predecessor"
| "run_closure cbs fire (Continuation KValue True func promise) predecessor =
     FV_fulfill_promise_valuetype cbs fire func promise predecessor"
| "run_closure cbs fire (Continuation KVoid True func promise) predecessor =
     FV_fulfill_promise_void cbs fire func promise predecessor"
| "run_closure cbs fire (InnerContinuation False False outer) inner =
     Future_inner_continuation fire outer inner"
| "run_closure cbs fire (InnerContinuation False True outer) inner =
     Future_inner_continuation_void fire outer inner"
| "run_closure cbs fire (InnerContinuation True False outer) inner =
     FV_inner_continuation fire outer inner"
| "run_closure cbs fire (InnerContinuation True True outer) inner =
     FV_inner_continuation_void fire outer inner"

text \<open>
  A continuation may make the next promise ready, which fires its continuation in turn.
  \<open>n\<close> is the number of nested activations the stack has room for: the overflow of the
  stack is undefined behaviour.
\<close>

fun fire_within :: "('v, 'f) callables \<Rightarrow> nat \<Rightarrow> ('v, 'f) fire" where
  "fire_within cbs 0 s = pfail Undefined"
| "fire_within cbs (Suc n) s = FireContinuation (run_closure cbs (fire_within cbs n)) s"

section \<open>then\<close>

text \<open>
  \<open>then\<close> returns the next future and what is left of the future it is called on. \<open>void_T2\<close> says
  whether the value type of the callable's future or result is \<open>void\<close>.
\<close>

definition Future_then_future ::
  "('v, 'f) callables \<Rightarrow> ('v, 'f) fire \<Rightarrow> bool \<Rightarrow> 'f \<Rightarrow> Future \<Rightarrow> ('v, 'f, Future \<times> Future) proc" where
  "Future_then_future cbs fire void_T2 func this =
     (case extra_state_of this of
        None \<Rightarrow> pfail Undefined
      | Some s \<Rightarrow>
          pbind (if void_T2 then PV_ctor else Promise_ctor) (\<lambda>next_promise.
          pbind ((if void_T2 then PV_get_future else Promise_get_future) next_promise) (\<lambda>next_future.
          pbind ((if void_T2 then PV_move_ctor else Promise_move_ctor) next_promise) (\<lambda>promise.
          pbind (Future_is_ready this) (\<lambda>ready.
            if ready
            then pbind (run_closure cbs fire (Continuation (if void_T2 then KFutureVoid else KFuture) False func promise)
                          (fst (Future_moved this)))
                   (\<lambda>_. pret (next_future, snd (Future_moved this)))
            else pbind (SetContinuation s (Continuation (if void_T2 then KFutureVoid else KFuture) False func promise) this)
                   (\<lambda>this'. pret (next_future, this')))))))"

definition Future_then_result ::
  "('v, 'f) callables \<Rightarrow> ('v, 'f) fire \<Rightarrow> bool \<Rightarrow> 'f \<Rightarrow> Future \<Rightarrow> ('v, 'f, Future \<times> Future) proc" where
  "Future_then_result cbs fire void_T2 func this =
     (case extra_state_of this of
        None \<Rightarrow> pfail Undefined
      | Some s \<Rightarrow>
          pbind (if void_T2 then PV_ctor else Promise_ctor) (\<lambda>next_promise.
          pbind ((if void_T2 then PV_get_future else Promise_get_future) next_promise) (\<lambda>next_future.
          pbind ((if void_T2 then PV_move_ctor else Promise_move_ctor) next_promise) (\<lambda>promise.
          pbind (Future_is_ready this) (\<lambda>ready.
            if ready
            then pbind (run_closure cbs fire (Continuation (if void_T2 then KResultVoid else KResult) False func promise)
                          (fst (Future_moved this)))
                   (\<lambda>_. pret (next_future, snd (Future_moved this)))
            else pbind (SetContinuation s (Continuation (if void_T2 then KResultVoid else KResult) False func promise) this)
                   (\<lambda>this'. pret (next_future, this')))))))"

definition Future_then_value ::
  "('v, 'f) callables \<Rightarrow> ('v, 'f) fire \<Rightarrow> 'f \<Rightarrow> Future \<Rightarrow> ('v, 'f, Future \<times> Future) proc" where
  "Future_then_value cbs fire func this =
     (case extra_state_of this of
        None \<Rightarrow> pfail Undefined
      | Some s \<Rightarrow>
          pbind Promise_ctor (\<lambda>next_promise.
          pbind (Promise_get_future next_promise) (\<lambda>next_future.
          pbind (Promise_move_ctor next_promise) (\<lambda>promise.
          pbind (Future_is_ready this) (\<lambda>ready.
            if ready
            then pbind (run_closure cbs fire (Continuation KValue False func promise)
                          (fst (Future_moved this)))
                   (\<lambda>_. pret (next_future, snd (Future_moved this)))
            else pbind (SetContinuation s (Continuation KValue False func promise) this)
                   (\<lambda>this'. pret (next_future, this')))))))"

definition Future_then_void ::
  "('v, 'f) callables \<Rightarrow> ('v, 'f) fire \<Rightarrow> 'f \<Rightarrow> Future \<Rightarrow> ('v, 'f, Future \<times> Future) proc" where
  "Future_then_void cbs fire func this =
     (case extra_state_of this of
        None \<Rightarrow> pfail Undefined
      | Some s \<Rightarrow>
          pbind PV_ctor (\<lambda>next_promise.
          pbind (PV_get_future next_promise) (\<lambda>next_future.
          pbind (PV_move_ctor next_promise) (\<lambda>promise.
          pbind (Future_is_ready this) (\<lambda>ready.
            if ready
            then pbind (run_closure cbs fire (Continuation KVoid False func promise)
                          (fst (Future_moved this)))
                   (\<lambda>_. pret (next_future, snd (Future_moved this)))
            else pbind (SetContinuation s (Continuation KVoid False func promise) this)
                   (\<lambda>this'. pret (next_future, this')))))))"

definition FV_then_future ::
  "('v, 'f) callables \<Rightarrow> ('v, 'f) fire \<Rightarrow> bool \<Rightarrow> 'f \<Rightarrow> Future \<Rightarrow> ('v, 'f, Future \<times> Future) proc" where
  "FV_then_future cbs fire void_T2 func this =
     (case extra_state_of this of
        None \<Rightarrow> pfail Undefined
      | Some s \<Rightarrow>
          pbind (if void_T2 then PV_ctor else Promise_ctor) (\<lambda>next_promise.
          pbind ((if void_T2 then PV_get_future else Promise_get_future) next_promise) (\<lambda>next_future.
          pbind ((if void_T2 then PV_move_ctor else Promise_move_ctor) next_promise) (\<lambda>promise.
          pbind (FV_is_ready this) (\<lambda>ready.
            if ready
            then pbind (run_closure cbs fire (Continuation (if void_T2 then KFutureVoid else KFuture) True func promise)
                          (fst (FV_moved this)))
                   (\<lambda>_. pret (next_future, snd (FV_moved this)))
            else pbind (SetContinuation s (Continuation (if void_T2 then KFutureVoid else KFuture) True func promise) this)
                   (\<lambda>this'. pret (next_future, this')))))))"

definition FV_then_result ::
  "('v, 'f) callables \<Rightarrow> ('v, 'f) fire \<Rightarrow> bool \<Rightarrow> 'f \<Rightarrow> Future \<Rightarrow> ('v, 'f, Future \<times> Future) proc" where
  "FV_then_result cbs fire void_T2 func this =
     (case extra_state_of this of
        None \<Rightarrow> pfail Undefined
      | Some s \<Rightarrow>
          pbind (if void_T2 then PV_ctor else Promise_ctor) (\<lambda>next_promise.
          pbind ((if void_T2 then PV_get_future else Promise_get_future) next_promise) (\<lambda>next_future.
          pbind ((if void_T2 then PV_move_ctor else Promise_move_ctor) next_promise) (\<lambda>promise.
          pbind (FV_is_ready this) (\<lambda>ready.
            if ready
            then pbind (run_closure cbs fire (Continuation (if void_T2 then KResultVoid else KResult) True func promise)
                          (fst (FV_moved this)))
                   (\<lambda>_. pret (next_future, snd (FV_moved this)))
            else pbind (SetContinuation s (Continuation (if void_T2 then KResultVoid else KResult) True func promise) this)
                   (\<lambda>this'. pret (next_future, this')))))))"

definition FV_then_value ::
  "('v, 'f) callables \<Rightarrow> ('v, 'f) fire \<Rightarrow> 'f \<Rightarrow> Future \<Rightarrow> ('v, 'f, Future \<times> Future) proc" where
  "FV_then_value cbs fire func this =
     (case extra_state_of this of
        None \<Rightarrow> pfail Undefined
      | Some s \<Rightarrow>
          pbind Promise_ctor (\<lambda>next_promise.
          pbind (Promise_get_future next_promise) (\<lambda>next_future.
          pbind (Promise_move_ctor next_promise) (\<lambda>promise.
          pbind (FV_is_ready this) (\<lambda>ready.
            if ready
            then pbind (run_closure cbs fire (Continuation KValue True func promise)
                          (fst (FV_moved this)))
                   (\<lambda>_. pret (next_future, snd (FV_moved this)))
            else pbind (SetContinuation s (Continuation KValue True func promise) this)
                   (\<lambda>this'. pret (next_future, this')))))))"

definition FV_then_void ::
  "('v, 'f) callables \<Rightarrow> ('v, 'f) fire \<Rightarrow> 'f \<Rightarrow> Future \<Rightarrow> ('v, 'f, Future \<times> Future) proc" where
  "FV_then_void cbs fire func this =
     (case extra_state_of this of
        None \<Rightarrow> pfail Undefined
      | Some s \<Rightarrow>
          pbind PV_ctor (\<lambda>next_promise.
          pbind (PV_get_future next_promise) (\<lambda>next_future.
          pbind (PV_move_ctor next_promise) (\<lambda>promise.
          pbind (FV_is_ready this) (\<lambda>ready.
            if ready
            then pbind (run_closure cbs fire (Continuation KVoid True func promise)
                          (fst (FV_moved this)))
                   (\<lambda>_. pret (next_future, snd (FV_moved this)))
            else pbind (SetContinuation s (Continuation KVoid True func promise) this)
                   (\<lambda>this'. pret (next_future, this')))))))"

text \<open>
  Overload resolution: the overload of \<open>then\<close> that takes part is the one of the callable's return
  type (the traits \<open>is_future\<close>, \<open>is_result\<close> and \<open>CallableReturns...\<close> of the class).
\<close>

fun Future_then ::
  "('v, 'f) callables \<Rightarrow> ('v, 'f) fire \<Rightarrow> then_kind \<Rightarrow> 'f \<Rightarrow> Future \<Rightarrow> ('v, 'f, Future \<times> Future) proc" where
  "Future_then cbs fire KFuture = Future_then_future cbs fire False"
| "Future_then cbs fire KFutureVoid = Future_then_future cbs fire True"
| "Future_then cbs fire KResult = Future_then_result cbs fire False"
| "Future_then cbs fire KResultVoid = Future_then_result cbs fire True"
| "Future_then cbs fire KValue = Future_then_value cbs fire"
| "Future_then cbs fire KVoid = Future_then_void cbs fire"

fun FV_then ::
  "('v, 'f) callables \<Rightarrow> ('v, 'f) fire \<Rightarrow> then_kind \<Rightarrow> 'f \<Rightarrow> Future \<Rightarrow> ('v, 'f, Future \<times> Future) proc" where
  "FV_then cbs fire KFuture = FV_then_future cbs fire False"
| "FV_then cbs fire KFutureVoid = FV_then_future cbs fire True"
| "FV_then cbs fire KResult = FV_then_result cbs fire False"
| "FV_then cbs fire KResultVoid = FV_then_result cbs fire True"
| "FV_then cbs fire KValue = FV_then_value cbs fire"
| "FV_then cbs fire KVoid = FV_then_void cbs fire"

end
