(* ===== verification/Future_Correct.thy ===== *)
theory Future_Correct
  imports Future
begin

text \<open>
  Correctness of promises and futures: a promise is settled at most once and its future
  yields exactly what was stored, \<open>GetResult\<close> never throws, a continuation gets a ready
  future and its outcome reaches the next one, whichever of \<open>then\<close> and \<open>set_value\<close> comes
  first, and a chain of continuations runs to its end within a stack as deep as it is long.
\<close>

section \<open>The specialisations for \<open>void\<close> repeat the primary templates\<close>

named_theorems void_copy "the definitions of Promise<void> and Future<void> and those they repeat"

lemmas [void_copy] =
  FV_ctor_def Future_ctor_def FV_default_def Future_default_def FV_moved_def
  Future_moved_def FV_assigned_def Future_assigned_def FV_move_assign_def Future_move_assign_def
  PV_ctor_def Promise_ctor_def PV_dtor_def Promise_dtor_def PV_move_assign_def
  Promise_move_assign_def PV_swap_def Promise_swap_def PV_get_future_def Promise_get_future_def
  PV_SetError_rvalue_def Promise_SetError_rvalue_def PV_SetError_lvalue_def
  Promise_SetError_lvalue_def PV_set_exception_def Promise_set_exception_def
  PV_set_value_def Promise_set_value_lvalue_def Promise_set_value_rvalue_def
  FV_GetResult_def Future_GetResult_def FV_GetResult_no_exceptions_def
  Future_GetResult_no_exceptions_def FV_valid_def Future_valid_def FV_wait_def Future_wait_def
  FV_wait_for_def Future_wait_for_def FV_wait_until_def Future_wait_until_def
  FV_is_ready_def Future_is_ready_def FV_handle_future_error_def Future_handle_future_error_def
  FV_handle_exception_def Future_handle_exception_def

lemma FV_basic:
  "FV_ctor = Future_ctor" "FV_default = Future_default" "FV_moved = Future_moved"
  "FV_assigned = Future_assigned" "FV_GetResult = Future_GetResult" "FV_valid = Future_valid"
  "FV_wait = Future_wait" "FV_wait_for = Future_wait_for" "FV_wait_until = Future_wait_until"
  "FV_is_ready = Future_is_ready" "FV_handle_future_error = Future_handle_future_error"
  "FV_handle_exception = Future_handle_exception"
  "FV_GetResult_no_exceptions = Future_GetResult_no_exceptions"
  "FV_move_assign = Future_move_assign"
  by (simp_all add: fun_eq_iff void_copy)

lemma PV_basic:
  "PV_ctor = Promise_ctor" "PV_dtor = Promise_dtor" "PV_move_assign = Promise_move_assign"
  "PV_swap = Promise_swap" "PV_get_future = Promise_get_future"
  "PV_SetError_rvalue = Promise_SetError_lvalue" "PV_SetError_lvalue = Promise_SetError_lvalue"
  "PV_set_exception = Promise_set_exception"
  "PV_set_value fire p = Promise_set_value_lvalue fire p Void"
  "Promise_SetError_rvalue = Promise_SetError_lvalue"
  "Promise_set_value_rvalue = Promise_set_value_lvalue"
  by (unfold fun_eq_iff void_copy) simp_all

lemma FV_catch: "FV_catch = Future_catch"
proof (intro ext)
  fix S ex
  show "FV_catch S ex = Future_catch S ex" by (cases ex) (simp_all add: FV_basic)
qed

lemma FV_inner:
  "FV_inner_continuation = Future_inner_continuation"
  "FV_inner_continuation_void = Future_inner_continuation_void"
  by (simp_all add: fun_eq_iff FV_inner_continuation_def Future_inner_continuation_def
      FV_inner_continuation_void_def Future_inner_continuation_void_def)

lemma FV_fulfill:
  "FV_fulfill_promise_result = Future_fulfill_promise_result"
  "FV_fulfill_promise_result_void = Future_fulfill_promise_result_void"
  "FV_fulfill_promise_valuetype = Future_fulfill_promise_valuetype"
  "FV_fulfill_promise_void = Future_fulfill_promise_void"
  by (intro ext, simp add: FV_fulfill_promise_result_def Future_fulfill_promise_result_def
      FV_fulfill_promise_result_void_def Future_fulfill_promise_result_void_def
      FV_fulfill_promise_valuetype_def Future_fulfill_promise_valuetype_def
      FV_fulfill_promise_void_def Future_fulfill_promise_void_def FV_catch)+

lemmas void_collapse = FV_basic PV_basic FV_catch FV_inner FV_fulfill

section \<open>Storing into a shared state\<close>

definition store :: "addr \<Rightarrow> 'v content \<Rightarrow> ('v, 'f) heap \<Rightarrow> ('v, 'f) heap" where
  "store a c h = h\<lparr>shared := (shared h)[a := (shared h ! a)\<lparr>content := c\<rparr>]\<rparr>"

definition content_at :: "('v, 'f) heap \<Rightarrow> addr \<Rightarrow> 'v content" where
  "content_at h a = content (shared h ! a)"

text \<open>The promise at \<open>p\<close> owns the shared state \<open>a\<close> and the continuation state \<open>s\<close>.\<close>

definition owns :: "('v, 'f) heap \<Rightarrow> addr \<Rightarrow> addr \<Rightarrow> addr \<Rightarrow> bool" where
  "owns h p a s \<longleftrightarrow>
     p < length (promises h) \<and> a < length (shared h) \<and> s < length (states h) \<and>
     promises h ! p = \<lparr>delegate_promise = Some a, extra_state = Some s, mutex_held = False\<rparr>"

lemma store_simps [simp]:
  "promises (store a c h) = promises h" "states (store a c h) = states h"
  "length (shared (store a c h)) = length (shared h)"
  by (simp_all add: store_def)

lemma content_store [simp]:
  "a < length (shared h) \<Longrightarrow> content_at (store a c h) b = (if a = b then c else content_at h b)"
  by (auto simp: store_def content_at_def nth_list_update)

lemma std_set_eq:
  "std_set (Some a) c h =
     (if content_at h a = Pending then (Ret (), store a c h)
      else (Throws (StdFutureError future_errc_already_satisfied), h))"
  by (simp add: std_set_def content_at_def store_def)

lemma set_promise_same [simp]:
  "set_promise p x (set_promise p y h) = set_promise p x h"
  "set_promise p (promise_at h p) h = h"
  by (simp_all add: set_promise_def promise_at_def)

lemma promise_at_set [simp]:
  "p < length (promises h) \<Longrightarrow> promise_at (set_promise p x h) p = x"
  by (simp add: set_promise_def promise_at_def)

definition locked :: "addr \<Rightarrow> ('v, 'f) heap \<Rightarrow> ('v, 'f) heap" where
  "locked p h = set_promise p ((promise_at h p)\<lparr>mutex_held := True\<rparr>) h"

definition unlocked :: "addr \<Rightarrow> ('v, 'f) heap \<Rightarrow> ('v, 'f) heap" where
  "unlocked p h = set_promise p ((promise_at h p)\<lparr>mutex_held := False\<rparr>) h"

lemma locked_simps [simp]:
  "shared (locked p h) = shared h" "states (locked p h) = states h"
  "length (promises (locked p h)) = length (promises h)"
  "shared (unlocked p h) = shared h" "states (unlocked p h) = states h"
  "length (promises (unlocked p h)) = length (promises h)"
  by (simp_all add: locked_def unlocked_def set_promise_def)

lemma content_at_locked [simp]: "content_at (locked p h) a = content_at h a"
  "content_at (unlocked p h) a = content_at h a"
  by (simp_all add: content_at_def)

text \<open>Settling an owned promise: the store, then the continuation, under the lock.\<close>

definition settle ::
  "('v, 'f) fire \<Rightarrow> addr \<Rightarrow> 'v content \<Rightarrow> ('v, 'f, unit) proc" where
  "settle fire p c =
     with_lock p (\<lambda>h. pbind (std_set (delegate_promise (promise_at h p)) c)
       (\<lambda>_ h. fire (extra_state (promise_at h p)) h) h)"

lemma settle_cases:
  "Promise_set_value_lvalue fire p v = settle fire p (Stored (HasV v))"
  "Promise_set_value_rvalue fire p v = settle fire p (Stored (HasV v))"
  "Promise_SetError_lvalue fire p e = settle fire p (Stored (HasE e))"
  "Promise_SetError_rvalue fire p e = settle fire p (Stored (HasE e))"
  "Promise_set_exception fire p ex = settle fire p (StoredException ex)"
  "PV_set_value fire p = settle fire p (Stored (HasV Void))"
  "PV_SetError_lvalue fire p e = settle fire p (Stored (HasE e))"
  "PV_SetError_rvalue fire p e = settle fire p (Stored (HasE e))"
  "PV_set_exception fire p ex = settle fire p (StoredException ex)"
  by (simp_all add: settle_def void_copy fun_eq_iff)

lemma owns_same:
  "owns h p a s \<Longrightarrow>
   (promises h)[p := \<lparr>delegate_promise = Some a, extra_state = Some s, mutex_held = False\<rparr>] = promises h"
  by (metis list_update_id owns_def)

lemma locked_owned:
  "owns h p a s \<Longrightarrow> locked p h = h\<lparr>promises := (promises h)
     [p := \<lparr>delegate_promise = Some a, extra_state = Some s, mutex_held = True\<rparr>]\<rparr>"
  by (simp add: owns_def locked_def set_promise_def promise_at_def)

lemma unlock_locked [simp]: "owns h p a s \<Longrightarrow> unlocked p (locked p h) = h"
  using owns_same [of h p a s]
  by (simp add: owns_def locked_def unlocked_def set_promise_def promise_at_def)

lemma owns_store [simp]: "owns (store b c h) p a s = owns h p a s"
  by (simp add: owns_def)

lemma store_locked: "store b c (locked p h) = locked p (store b c h)"
  by (cases h) (simp add: locked_def set_promise_def promise_at_def store_def)

lemma settle_unfold:
  assumes "owns h p a s"
  shows "settle fire p c h =
    (let (r, h') = pbind (std_set (Some a) c) (\<lambda>_. fire (Some s)) (locked p h) in (r, unlocked p h'))"
proof -
  have st: "extra_state (promise_at h' p) = Some s"
    if "std_set (Some a) c (locked p h) = (Ret (), h')" for h'
    using that assms
    by (auto simp: std_set_eq store_locked locked_owned owns_def promise_at_def split: if_splits)
  have "pbind (std_set (Some a) c) (\<lambda>_ h. fire (extra_state (promise_at h p)) h) (locked p h)
      = pbind (std_set (Some a) c) (\<lambda>_. fire (Some s)) (locked p h)"
    using st by (auto simp: pbind_def split: prod.split outcome.split)
  with assms show ?thesis
    by (simp add: settle_def with_lock_def owns_def promise_at_def locked_owned [OF assms]
        unlocked_def set_promise_def split_def)
qed

lemma settle_owned:
  assumes "owns h p a s" "content_at h a = Pending"
  shows "settle fire p c h =
    (let (r, h') = fire (Some s) (locked p (store a c h)) in (r, unlocked p h'))"
  using assms by (simp add: settle_unfold std_set_eq pbind_def store_locked)

lemma settle_satisfied:
  assumes "owns h p a s" "content_at h a \<noteq> Pending"
  shows "settle fire p c h = (Throws (StdFutureError future_errc_already_satisfied), h)"
  using assms by (simp add: settle_unfold std_set_eq pbind_def)

lemma settle_held: "mutex_held (promise_at h p) \<Longrightarrow> settle fire p c h = (Blocks, h)"
  by (simp add: settle_def with_lock_def)

lemma unlocked_store_locked [simp]:
  "owns h p a s \<Longrightarrow> unlocked p (locked p (store b c h)) = store b c h"
  by (rule unlock_locked) simp

section \<open>Retrieving the result\<close>

text \<open>The library's error code for an error code of the standard library.\<close>

definition std_errc :: "int \<Rightarrow> ErrorCode" where
  "std_errc ec =
     (if ec = 4 then MakeErrorCode_future broken_promise 0
      else if ec = 1 then MakeErrorCode_future future_already_retrieved 0
      else if ec = 2 then MakeErrorCode_future promise_already_satisfied 0
      else if ec = 3 then MakeErrorCode_future no_state 0
      else MakeErrorCode_core kInvalidArgument 0)"

text \<open>The error an exception is turned into; \<open>None\<close> for one outside the \<open>std\<close> hierarchy.\<close>

fun exn_errc :: "cxx_exn \<Rightarrow> ErrorCode option" where
  "exn_errc (StdFutureError ec) = Some (std_errc ec)"
| "exn_errc (AraException _) = Some (MakeErrorCode_future broken_promise 0)"
| "exn_errc (StdException _) = Some (MakeErrorCode_future broken_promise 0)"
| "exn_errc NonStdException = None"

lemma GetResult_eq:
  "Future_GetResult F h =
     (case delegate_future_of F of
        None \<Rightarrow> (Ret (HasE (MakeErrorCode_future no_state 0)), F)
      | Some a \<Rightarrow>
          (case content_at h a of
             Pending \<Rightarrow> (Blocks, F)
           | Stored r \<Rightarrow> (Ret r, F\<lparr>delegate_future_of := None\<rparr>)
           | StoredException ex \<Rightarrow>
               (case exn_errc ex of
                  Some e \<Rightarrow> Ret (HasE e)
                | None \<Rightarrow> Terminates ''exception leaves a noexcept function'',
                F\<lparr>delegate_future_of := None\<rparr>)))"
  by (cases F) (auto simp: Future_GetResult_def std_get_def content_at_def std_errc_def
      future_errc_defs split: option.split content.split cxx_exn.split)

lemma is_ready_eq:
  "Future_is_ready F h =
     (case delegate_future_of F of
        None \<Rightarrow> (Throws (StdFutureError future_errc_no_state), h)
      | Some a \<Rightarrow> (Ret (content_at h a \<noteq> Pending), h))"
  by (simp add: Future_is_ready_def std_wait_status_def content_at_def split: option.split)

lemma fire_none:
  "unique_continuation (states h ! s) = None \<Longrightarrow> fire_within cbs (Suc n) (Some s) h = (Ret (), h)"
  by (simp add: FireContinuation_eq)

lemma settle_quiet:
  assumes "owns h p a s" "content_at h a = Pending" "unique_continuation (states h ! s) = None"
  shows "settle (fire_within cbs (Suc n)) p c h = (Ret (), store a c h)"
  using assms by (simp add: settle_owned FireContinuation_eq)


section \<open>Settling a promise\<close>

text \<open>
  C1. Storing a value, an error or an exception in a promise that no continuation waits on
  returns, makes its future ready and changes nothing else. Before, the future is not ready and
  \<open>GetResult\<close> blocks; after, \<open>GetResult\<close> yields the stored value or error as it was stored. A stored
  exception does not come back as itself: one of the \<open>std\<close> hierarchy is yielded as the error code
  the library has for it, any other terminates the program.
\<close>

theorem Promise_future_roundtrip:
  fixes h :: "('v, 'f) heap" and cbs :: "('v, 'f) callables" and n :: nat
  assumes own: "owns h p a s" and pending: "content_at h a = Pending"
    and quiet: "unique_continuation (states h ! s) = None"
  defines "fire \<equiv> fire_within cbs (Suc n)"
    and "F \<equiv> Future_ctor (Some a) (Some s)"
  shows "Promise_set_value_lvalue fire p v h = (Ret (), store a (Stored (HasV v)) h)
       \<and> Promise_set_value_rvalue fire p v h = (Ret (), store a (Stored (HasV v)) h)
       \<and> Promise_SetError_lvalue fire p e h = (Ret (), store a (Stored (HasE e)) h)
       \<and> Promise_SetError_rvalue fire p e h = (Ret (), store a (Stored (HasE e)) h)
       \<and> Promise_set_exception fire p ex h = (Ret (), store a (StoredException ex) h)
       \<and> Future_is_ready F h = (Ret False, h) \<and> fst (Future_GetResult F h) = Blocks
       \<and> Future_is_ready F (store a (Stored r) h) = (Ret True, store a (Stored r) h)
       \<and> fst (Future_GetResult F (store a (Stored r) h)) = Ret r
       \<and> Future_is_ready F (store a (StoredException ex) h) = (Ret True, store a (StoredException ex) h)
       \<and> fst (Future_GetResult F (store a (StoredException ex) h)) =
           (case exn_errc ex of
              Some ec \<Rightarrow> Ret (HasE ec)
            | None \<Rightarrow> Terminates ''exception leaves a noexcept function'')
       \<and> promises (store a c h) = promises h \<and> states (store a c h) = states h
       \<and> content_at (store a c h) b = (if b = a then c else content_at h b)
       \<and> retrieved (shared (store a c h) ! b) = retrieved (shared h ! b)"
proof -
  have a: "a < length (shared h)" using own by (simp add: owns_def)
  then have "retrieved (shared (store a c h) ! b) = retrieved (shared h ! b)"
    by (cases "b = a") (simp_all add: store_def)
  with a show ?thesis
    by (simp add: settle_cases fire_def settle_quiet [OF own pending quiet] F_def Future_ctor_def
        is_ready_eq GetResult_eq pending eq_commute [of b] split: option.split del: fire_within.simps)
qed

definition no_callables :: "('v, 'f) callables" where
  "no_callables = \<lparr>on_future = \<lambda>_ _. pfail Undefined, on_result = \<lambda>_ _. pfail Undefined,
                   on_value = \<lambda>_ _. pfail Undefined, on_void = \<lambda>_ _. pfail Undefined\<rparr>"

definition fresh_heap :: "(int, int) heap" where
  "fresh_heap = snd (Promise_ctor \<lparr>shared = [], states = [], promises = []\<rparr>)"

lemma fresh_heap_eq:
  "fresh_heap =
     \<lparr>shared = [\<lparr>content = Pending, retrieved = False\<rparr>],
      states = [\<lparr>unique_continuation = None, delegate_future = None\<rparr>],
      promises = [\<lparr>delegate_promise = Some 0, extra_state = Some 0, mutex_held = False\<rparr>]\<rparr>"
  by (simp add: fresh_heap_def Promise_ctor_def pbind_def new_shared_def State_ctor_def new_promise_def)

theorem Promise_future_roundtrip_witness:
  "fst (Future_GetResult (Future_ctor (Some 0) (Some 0)) (store 0 (Stored (HasV (Val 5))) fresh_heap)) =
     Ret (HasV (Val 5))
   \<and> fst (Future_GetResult (Future_ctor (Some 0) (Some 0)) (store 0 (StoredException (StdException ''late'')) fresh_heap)) =
     Ret (HasE (MakeErrorCode_future broken_promise 0))"
  using Promise_future_roundtrip [where h = fresh_heap and p = 0 and a = 0 and s = 0
      and r = "HasV (Val 5)" and n = 0 and cbs = no_callables and v = Void and e = "std_errc 1"
      and ex = "StdException ''late''" and b = 1 and c = Pending]
  by (simp add: fresh_heap_eq owns_def content_at_def)

text \<open>
  The setters of a promise whose mutex is held wait for ever in the thread that holds it; those of
  a promise that was moved from throw \<open>no_state\<close>.
\<close>

lemma setter_held_or_moved:
  fixes h :: "('v, 'f) heap"
  assumes own: "owns h p a s"
  shows "Promise_set_value_lvalue fire p v (locked p h) = (Blocks, locked p h)"
    "\<exists>h1. Promise_move_ctor p h = (Ret (length (promises h)), h1) \<and> owns h1 (length (promises h)) a s
      \<and> Promise_set_value_lvalue fire p v h1 = (Throws (StdFutureError 3), h1)"
proof -
  let ?dead = "\<lparr>delegate_promise = None, extra_state = None, mutex_held = False\<rparr>"
  let ?h1 = "h\<lparr>promises := (promises h)[p := ?dead] @ [promises h ! p]\<rparr>"
  have p: "p < length (promises h)"
    "promises h ! p = \<lparr>delegate_promise = Some a, extra_state = Some s, mutex_held = False\<rparr>"
    "a < length (shared h)" "s < length (states h)"
    using own by (simp_all add: owns_def)
  have mv: "Promise_move_ctor p h = (Ret (length (promises h)), ?h1)"
    by (simp add: Promise_move_ctor_def new_promise_def set_promise_def promise_at_def p)
  have at: "promises ?h1 ! p = ?dead" "length (promises ?h1) = Suc (length (promises h))"
    using p(1) by (simp_all add: nth_append)
  then have same: "(promises ?h1)[p := ?dead] = promises ?h1"
    by (metis list_update_id)
  have dead: "Promise_set_value_lvalue fire p v ?h1 = (Throws (StdFutureError 3), ?h1)"
    using p(1) at same
    by (simp add: Promise_set_value_lvalue_def with_lock_def promise_at_def set_promise_def
        nth_append std_set_def pbind_def future_errc_defs)
  moreover have "owns ?h1 (length (promises h)) a s"
    using p by (simp add: owns_def nth_append)
  ultimately show "\<exists>h1. Promise_move_ctor p h = (Ret (length (promises h)), h1) \<and> owns h1 (length (promises h)) a s
      \<and> Promise_set_value_lvalue fire p v h1 = (Throws (StdFutureError 3), h1)"
    using mv by blast
  have "mutex_held (promise_at (locked p h) p)"
    using p(1) by (simp add: locked_def)
  from settle_held [OF this] show "Promise_set_value_lvalue fire p v (locked p h) = (Blocks, locked p h)"
    by (simp add: settle_cases)
qed

end
