(* ===== verification/Future_Then.thy ===== *)
theory Future_Then
  imports Future_Correct
begin

text \<open>
  Correctness of continuations: what \<open>then\<close> does to the heap, what a stored closure does when
  it runs, that the order of \<open>then\<close> and \<open>set_value\<close> does not matter, chains of continuations,
  and the cases in which a continuation is not run or its error is lost.
\<close>

section \<open>then as one definition\<close>

text \<open>
  The next promise, its future, and the heap in which \<open>then\<close> has created them: the promise
  was moved into the closure, so an empty one stays behind.
\<close>

definition next_future :: "('v, 'f) heap \<Rightarrow> Future" where
  "next_future h =
     \<lparr>delegate_future_of = Some (length (shared h)), extra_state_of = Some (length (states h))\<rparr>"

definition next_promise :: "('v, 'f) heap \<Rightarrow> addr" where
  "next_promise h = Suc (length (promises h))"

definition spawn :: "('v, 'f) heap \<Rightarrow> ('v, 'f) heap" where
  "spawn h =
     \<lparr>shared = shared h @ [\<lparr>content = Pending, retrieved = True\<rparr>],
      states = states h @ [\<lparr>unique_continuation = None, delegate_future = None\<rparr>],
      promises = promises h @
        [\<lparr>delegate_promise = None, extra_state = None, mutex_held = False\<rparr>,
         \<lparr>delegate_promise = Some (length (shared h)), extra_state = Some (length (states h)),
          mutex_held = False\<rparr>]\<rparr>"

text \<open>The predecessor is stored with the closure.\<close>

definition attach :: "addr \<Rightarrow> 'f closure \<Rightarrow> std_future \<Rightarrow> ('v, 'f) heap \<Rightarrow> ('v, 'f) heap" where
  "attach s k df h = h\<lparr>states := (states h)[s := \<lparr>unique_continuation = Some k, delegate_future = df\<rparr>]\<rparr>"

definition then_generic ::
  "('v, 'f) callables \<Rightarrow> ('v, 'f) fire \<Rightarrow> then_kind \<Rightarrow> bool \<Rightarrow> 'f \<Rightarrow> Future \<Rightarrow> ('v, 'f, Future \<times> Future) proc" where
  "then_generic cbs fire k vd func this h =
     (case extra_state_of this of
        None \<Rightarrow> (Undefined, h)
      | Some s \<Rightarrow>
          pbind (Future_is_ready this) (\<lambda>ready.
            if ready
            then pbind (run_closure cbs fire (Continuation k vd func (next_promise h)) this)
                   (\<lambda>_. pret (next_future h, Future_default))
            else pbind (SetContinuation s (Continuation k vd func (next_promise h)) this)
                   (\<lambda>this'. pret (next_future h, this'))) (spawn h))"

lemma list_update_append_last [simp]: "(xs @ [x])[length xs := y] = xs @ [y]"
  by (simp add: list_update_append)

lemma then_prologue:
  "pbind Promise_ctor (\<lambda>np. pbind (Promise_get_future np) (\<lambda>nf.
     pbind (Promise_move_ctor np) (\<lambda>p. K p nf))) h = K (next_promise h) (next_future h) (spawn h)"
  by (cases h) (simp add: pbind_def Promise_ctor_def new_shared_def State_ctor_def new_promise_def
      Promise_get_future_def std_get_future_def promise_at_def Future_ctor_def pret_def
      Promise_move_ctor_def set_promise_def next_promise_def next_future_def spawn_def nth_append)

lemma then_prologue_PV:
  "pbind PV_ctor (\<lambda>np. pbind (PV_get_future np) (\<lambda>nf.
     pbind (PV_move_ctor np) (\<lambda>p. K p nf))) h = K (next_promise h) (next_future h) (spawn h)"
  by (cases h) (simp add: PV_basic pbind_def Promise_ctor_def new_shared_def State_ctor_def
      new_promise_def Promise_get_future_def std_get_future_def promise_at_def Future_ctor_def
      pret_def PV_move_ctor_def set_promise_def next_promise_def next_future_def spawn_def nth_append)

lemma move_this: "fst (Future_moved this) = this" "snd (Future_moved this) = Future_default"
  by (simp_all add: Future_moved_def Future_default_def)

lemma then_body:
  "(case extra_state_of this of None \<Rightarrow> pfail Undefined | Some s \<Rightarrow>
      pbind Promise_ctor (\<lambda>np. pbind (Promise_get_future np) (\<lambda>nf. pbind (Promise_move_ctor np) (\<lambda>p.
      pbind (Future_is_ready this) (\<lambda>ready. if ready
        then pbind (run_closure cbs fire (Continuation k vd func p) this) (\<lambda>_. pret (nf, Future_default))
        else pbind (SetContinuation s (Continuation k vd func p) this) (\<lambda>this'. pret (nf, this'))))))) h
    = then_generic cbs fire k vd func this h"
  by (cases "extra_state_of this") (simp_all only: option.case then_prologue then_generic_def pfail_def)

lemma then_body_PV:
  "(case extra_state_of this of None \<Rightarrow> pfail Undefined | Some s \<Rightarrow>
      pbind PV_ctor (\<lambda>np. pbind (PV_get_future np) (\<lambda>nf. pbind (PV_move_ctor np) (\<lambda>p.
      pbind (Future_is_ready this) (\<lambda>ready. if ready
        then pbind (run_closure cbs fire (Continuation k vd func p) this) (\<lambda>_. pret (nf, Future_default))
        else pbind (SetContinuation s (Continuation k vd func p) this) (\<lambda>this'. pret (nf, this'))))))) h
    = then_generic cbs fire k vd func this h"
  by (cases "extra_state_of this") (simp_all only: option.case then_prologue_PV then_generic_def pfail_def)

lemmas then_unfold = move_this FV_basic(3,10) if_True if_False then_body then_body_PV

lemma then_eqs:
  "Future_then_future cbs fire vt func this h =
     then_generic cbs fire (if vt then KFutureVoid else KFuture) False func this h"
  "Future_then_result cbs fire vt func this h =
     then_generic cbs fire (if vt then KResultVoid else KResult) False func this h"
  "Future_then_value cbs fire func this h = then_generic cbs fire KValue False func this h"
  "Future_then_void cbs fire func this h = then_generic cbs fire KVoid False func this h"
  "FV_then_future cbs fire vt func this h =
     then_generic cbs fire (if vt then KFutureVoid else KFuture) True func this h"
  "FV_then_result cbs fire vt func this h =
     then_generic cbs fire (if vt then KResultVoid else KResult) True func this h"
  "FV_then_value cbs fire func this h = then_generic cbs fire KValue True func this h"
  "FV_then_void cbs fire func this h = then_generic cbs fire KVoid True func this h"
  by (cases vt; simp only: Future_then_future_def Future_then_result_def FV_then_future_def
      FV_then_result_def Future_then_value_def Future_then_void_def FV_then_value_def
      FV_then_void_def then_unfold)+

text \<open>\<open>then\<close> on a future that owns the shared state \<open>a\<close> and the continuation state \<open>s\<close>.\<close>

lemma then_generic_eq:
  assumes "this = \<lparr>delegate_future_of = Some a, extra_state_of = Some s\<rparr>"
    and "a < length (shared h)" "s < length (states h)"
  shows "then_generic cbs fire k vd func this h =
    (if content_at h a = Pending
     then (Ret (next_future h, this\<lparr>delegate_future_of := None\<rparr>),
           attach s (Continuation k vd func (next_promise h)) (Some a) (spawn h))
     else pbind (run_closure cbs fire (Continuation k vd func (next_promise h)) this)
            (\<lambda>_. pret (next_future h, Future_default)) (spawn h))"
  using assms
  by (simp add: then_generic_def is_ready_eq pbind_def [of "Future_is_ready _"] content_at_def
      spawn_def nth_append attach_def SetContinuation_def pbind_def [of "SetContinuation _ _ _"] pret_def)

lemma spawn_simps:
  "length (shared (spawn h)) = Suc (length (shared h))"
  "length (states (spawn h)) = Suc (length (states h))"
  "length (promises (spawn h)) = Suc (Suc (length (promises h)))"
  "a < length (shared h) \<Longrightarrow> content_at (spawn h) a = content_at h a"
  "content_at (spawn h) (length (shared h)) = Pending"
  "s < length (states h) \<Longrightarrow> states (spawn h) ! s = states h ! s"
  "unique_continuation (states (spawn h) ! length (states h)) = None"
  "owns (spawn h) (next_promise h) (length (shared h)) (length (states h))"
  "owns h p a s \<Longrightarrow> owns (spawn h) p a s"
  by (auto simp: spawn_def content_at_def nth_append owns_def next_promise_def)

section \<open>What a closure does\<close>

text \<open>
  The callable's outcome as a result, for the kinds of \<open>then\<close> whose callable does not return
  a future.
\<close>

fun delivered ::
  "('v, 'f) callables \<Rightarrow> then_kind \<Rightarrow> 'f \<Rightarrow> Future \<Rightarrow> ('v, 'f, 'v res) proc" where
  "delivered cbs KResult f F = on_result cbs f F"
| "delivered cbs KResultVoid f F =
     pbind (on_result cbs f F) (\<lambda>r. pret (case r of HasV _ \<Rightarrow> HasV Void | _ \<Rightarrow> r))"
| "delivered cbs KValue f F = pbind (on_value cbs f F) (\<lambda>v. pret (HasV v))"
| "delivered cbs KVoid f F = pbind (on_void cbs f F) (\<lambda>_. pret (HasV Void))"
| "delivered cbs KFuture f F = pfail Undefined"
| "delivered cbs KFutureVoid f F = pfail Undefined"

definition direct :: "then_kind \<Rightarrow> bool" where
  "direct k \<longleftrightarrow> k \<noteq> KFuture \<and> k \<noteq> KFutureVoid"

definition settle_res :: "('v, 'f) fire \<Rightarrow> addr \<Rightarrow> 'v res \<Rightarrow> ('v, 'f, unit) proc" where
  "settle_res fire p r =
     (if r = Empty then pfail (Terminates no_error) else settle fire p (Stored r))"

definition set_error :: "('v, 'f) fire \<Rightarrow> addr \<Rightarrow> ErrorCode \<Rightarrow> ('v, 'f, unit) proc" where
  "set_error fire p e = settle fire p (Stored (HasE e))"

lemma handle_future_error_eq:
  "Future_handle_future_error S ec = S (std_errc ec)"
  by (simp add: Future_handle_future_error_def std_errc_def future_errc_defs)

lemma catch_eq: "Future_catch S = (\<lambda>ex. map_option S (exn_errc ex))"
proof (rule ext)
  fix ex
  show "Future_catch S ex = map_option S (exn_errc ex)"
    by (cases ex) (simp_all add: handle_future_error_eq Future_handle_exception_def)
qed

lemma pbind_assoc: "pbind (pbind m f) g = pbind m (\<lambda>a. pbind (f a) g)"
  by (rule ext) (simp add: pbind_def split: prod.split outcome.split)

lemma pbind_pret_fun [simp]: "pbind (pret a) f = f a"
  by (rule ext) simp

lemma settle_funs:
  "Promise_set_value_lvalue fire p = (\<lambda>v. settle_res fire p (HasV v))"
  "Promise_SetError_lvalue fire p = set_error fire p"
  "Promise_SetError_rvalue fire p = set_error fire p"
  "PV_set_value fire p = settle_res fire p (HasV Void)"
  "PV_SetError_lvalue fire p = set_error fire p"
  "PV_SetError_rvalue fire p = set_error fire p"
  by (simp_all add: fun_eq_iff settle_cases set_error_def settle_res_def)

lemma case_settle:
  "case_rslt (\<lambda>v. settle_res fire p (HasV v)) (set_error fire p) (pfail (Terminates no_error)) =
     settle_res fire p"
  "case_rslt (\<lambda>v. settle_res fire p (HasV Void)) (set_error fire p) (pfail (Terminates no_error)) =
     (\<lambda>r. settle_res fire p (case r of HasV _ \<Rightarrow> HasV Void | HasE e \<Rightarrow> r | Empty \<Rightarrow> r))"
  by (rule ext, simp add: settle_res_def set_error_def split: rslt.split)+

lemma run_direct:
  assumes "direct k"
  shows "run_closure cbs fire (Continuation k vd f p) F =
    pcatch (pbind (delivered cbs k f F) (settle_res fire p))
      (\<lambda>ex. map_option (set_error fire p) (exn_errc ex))"
  using assms
  by (cases k; cases vd)
    (simp_all add: direct_def FV_fulfill Future_fulfill_promise_result_def
      Future_fulfill_promise_result_void_def Future_fulfill_promise_valuetype_def
      Future_fulfill_promise_void_def settle_funs case_settle pbind_assoc catch_eq)

lemma then_overloads:
  "Future_then cbs fire k func this h = then_generic cbs fire k False func this h"
  "FV_then cbs fire k func this h = then_generic cbs fire k True func this h"
  by (cases k; simp add: then_eqs)+

section \<open>Firing\<close>

definition detach :: "addr \<Rightarrow> ('v, 'f) heap \<Rightarrow> ('v, 'f) heap" where
  "detach s h = h\<lparr>states := (states h)[s := (states h ! s)\<lparr>delegate_future := None\<rparr>]\<rparr>"

lemma fire_some:
  "unique_continuation (states h ! s) = Some k \<Longrightarrow>
   fire_within cbs (Suc n) (Some s) h =
     run_closure cbs (fire_within cbs n) k
       \<lparr>delegate_future_of = delegate_future (states h ! s), extra_state_of = Some s\<rparr> (detach s h)"
  by (simp add: FireContinuation_eq pbind_def State_get_future_def Future_ctor_def detach_def)

lemma detach_simps [simp]:
  "shared (detach s h) = shared h" "promises (detach s h) = promises h"
  "length (states (detach s h)) = length (states h)"
  "content_at (detach s h) a = content_at h a"
  "owns (detach s h) p a s' = owns h p a s'"
  by (simp_all add: detach_def content_at_def owns_def)

lemma continuation_detach [simp]:
  "unique_continuation (states (detach s h) ! t) = unique_continuation (states h ! t)"
  by (cases "s < length (states h)"; cases "s = t") (simp_all add: detach_def list_update_beyond)

lemma attach_simps [simp]:
  "shared (attach s k df h) = shared h" "promises (attach s k df h) = promises h"
  "length (states (attach s k df h)) = length (states h)"
  "content_at (attach s k df h) a = content_at h a"
  "owns (attach s k df h) p a s' = owns h p a s'"
  "s < length (states h) \<Longrightarrow> states (attach s k df h) ! s = \<lparr>unique_continuation = Some k, delegate_future = df\<rparr>"
  "t \<noteq> s \<Longrightarrow> states (attach s k df h) ! t = states h ! t"
  by (simp_all add: attach_def content_at_def owns_def)

text \<open>What the outcome of a callable puts into the next shared state.\<close>

fun outcome_content :: "(cxx_exn, 'v res) outcome \<Rightarrow> 'v content option" where
  "outcome_content (Ret r) = (if r = Empty then None else Some (Stored r))"
| "outcome_content (Throws ex) = map_option (\<lambda>e. Stored (HasE e)) (exn_errc ex)"
| "outcome_content r = None"

lemma run_direct_content:
  assumes k: "direct k" and del: "delivered cbs k f F h = (out, h')"
    and c: "outcome_content out = Some c"
    and set: "settle fire p c h' = (Ret (), h2)"
  shows "run_closure cbs fire (Continuation k vd f p) F h = (Ret (), h2)"
proof (cases out)
  case (Ret r)
  then show ?thesis using del c set
    by (cases "r = Empty") (simp_all add: run_direct [OF k] pcatch_def pbind_def settle_res_def)
next
  case (Throws ex)
  then show ?thesis using del c set
    by (auto simp: run_direct [OF k] pcatch_def pbind_def set_error_def)
qed (use c in auto)

lemma then_ready:
  assumes F: "F = \<lparr>delegate_future_of = Some a, extra_state_of = Some s\<rparr>"
    and dom: "a < length (shared h)" "s < length (states h)" and ready: "content_at h a \<noteq> Pending"
    and k: "direct k" and call: "delivered cbs k f F (spawn h) = (out, spawn h)"
    and c: "outcome_content out = Some c"
  shows "then_generic cbs (fire_within cbs (Suc n)) k vd f F h =
    (Ret (next_future h, Future_default), store (length (shared h)) c (spawn h))"
proof -
  have "settle (fire_within cbs (Suc n)) (next_promise h) c (spawn h) =
      (Ret (), store (length (shared h)) c (spawn h))"
    by (rule settle_quiet [where s = "length (states h)"]) (simp_all add: spawn_simps)
  then have "run_closure cbs (fire_within cbs (Suc n)) (Continuation k vd f (next_promise h)) F (spawn h) =
      (Ret (), store (length (shared h)) c (spawn h))"
    by (rule run_direct_content [OF k call c])
  with ready show ?thesis
    by (simp add: then_generic_eq [OF F dom] pbind_def pret_def)
qed

text \<open>
  C13. On a ready future \<open>then\<close> runs the callable at once and returns a ready future that holds
  the callable's outcome: its value, its error, or the error code of the exception it threw
  (\<open>broken_promise\<close> unless it was a \<open>std::future_error\<close>); the future it was called on becomes
  invalid. So do the overloads of \<open>Future<void>\<close>.
\<close>

theorem Future_then_on_ready:
  assumes F: "F = \<lparr>delegate_future_of = Some a, extra_state_of = Some s\<rparr>"
    and dom: "a < length (shared h)" "s < length (states h)" and ready: "content_at h a \<noteq> Pending"
    and k: "direct k" and call: "delivered cbs k f F (spawn h) = (out, spawn h)"
    and c: "outcome_content out = Some c"
  shows "Future_then cbs (fire_within cbs (Suc n)) k f F h =
      (Ret (next_future h, Future_default), store (length (shared h)) c (spawn h))
    \<and> FV_then cbs (fire_within cbs (Suc n)) k f F h =
      Future_then cbs (fire_within cbs (Suc n)) k f F h
    \<and> Future_is_ready (next_future h) (store (length (shared h)) c (spawn h)) =
      (Ret True, store (length (shared h)) c (spawn h))
    \<and> (\<forall>r. out = Ret r \<longrightarrow>
        fst (Future_GetResult (next_future h) (store (length (shared h)) c (spawn h))) = Ret r)
    \<and> (\<forall>ex. out = Throws ex \<longrightarrow>
        fst (Future_GetResult (next_future h) (store (length (shared h)) c (spawn h))) =
        Ret (HasE (the (exn_errc ex))))"
proof -
  have "content_at (store (length (shared h)) c (spawn h)) (length (shared h)) = c"
    by (simp add: spawn_simps)
  moreover have "c \<noteq> Pending"
    using c by (cases out) (auto split: if_splits)
  ultimately show ?thesis
    using c
    by (auto simp: then_overloads then_ready [OF assms] is_ready_eq next_future_def GetResult_eq
        split: if_splits)
qed

text \<open>A callable for the examples: it adds its captured number to the predecessor's value.\<close>

definition add_callables :: "(int, int) callables" where
  "add_callables =
     (let add = (\<lambda>f F h. (obind (fst (Future_get F h)) (\<lambda>v. case v of Val x \<Rightarrow> Ret (Val (x + f)) | Void \<Rightarrow> Ret (Val f)), h))
      in \<lparr>on_future = (\<lambda>f F. pret F),
          on_result = (\<lambda>f F h. (obind (fst (add f F h)) (\<lambda>v. Ret (HasV v)), h)),
          on_value = add,
          on_void = (\<lambda>f F h. (obind (fst (add f F h)) (\<lambda>_. Ret ()), h))\<rparr>)"

lemma add_delivered:
  "content_at h a = Stored (HasV (Val x)) \<Longrightarrow>
   delivered add_callables KValue f \<lparr>delegate_future_of = Some a, extra_state_of = Some s\<rparr> h =
     (Ret (HasV (Val (x + f))), h)"
  by (simp add: add_callables_def Future_get_def GetResult_eq pbind_def pret_def split_def)

lemma add_delivered_error:
  "content_at h a = Stored (HasE e) \<Longrightarrow>
   delivered add_callables KValue f \<lparr>delegate_future_of = Some a, extra_state_of = Some s\<rparr> h =
     (Throws (AraException \<lparr>exn_type = vt_Exception (mDomain e), error_code = e\<rparr>), h)"
  by (simp add: add_callables_def Future_get_def GetResult_eq pbind_def pret_def split_def
      ErrorCode_ThrowAsException_def ErrorDomain_ThrowAsException_def ThrowOrTerminate_def
      Exception_ctor_def ErrorCode_Domain_def)

definition ready_heap :: "(int, int) heap" where
  "ready_heap = store 0 (Stored (HasV (Val 5))) fresh_heap"

lemma ready_heap_simps [simp]:
  "length (shared ready_heap) = 1" "length (states ready_heap) = 1" "length (promises ready_heap) = 1"
  "content_at ready_heap 0 = Stored (HasV (Val 5))"
  by (simp_all add: ready_heap_def fresh_heap_eq content_at_def store_def)

theorem Future_then_on_ready_witness:
  "fst (Future_GetResult (next_future ready_heap)
     (store 1 (Stored (HasV (Val 12))) (spawn ready_heap))) = Ret (HasV (Val 12))
   \<and> Future_then add_callables (fire_within add_callables 1) KValue 7
      \<lparr>delegate_future_of = Some 0, extra_state_of = Some 0\<rparr> ready_heap =
     (Ret (next_future ready_heap, Future_default), store 1 (Stored (HasV (Val 12))) (spawn ready_heap))"
  using Future_then_on_ready [where F = "\<lparr>delegate_future_of = Some 0, extra_state_of = Some 0\<rparr>"
      and a = 0 and s = 0 and h = ready_heap and k = KValue and cbs = add_callables and f = 7
      and out = "Ret (HasV (Val 12))" and c = "Stored (HasV (Val 12))" and n = 0]
    add_delivered [of "spawn ready_heap" 0 5 7 0]
  by (simp add: direct_def spawn_simps)

section \<open>The order of \<open>then\<close> and the setter\<close>

lemma owns_locked:
  "p \<noteq> q \<Longrightarrow> owns (locked p h) q a s = owns h q a s"
  "p \<noteq> q \<Longrightarrow> owns (unlocked p h) q a s = owns h q a s"
  by (auto simp: owns_def locked_def unlocked_def set_promise_def)

text \<open>\<open>pure_call\<close>: on a predecessor state with content \<open>c\<close> the callable has the outcome \<open>out\<close> and
  leaves the heap alone.\<close>

definition pure_call ::
  "('v, 'f) callables \<Rightarrow> then_kind \<Rightarrow> 'f \<Rightarrow> addr \<Rightarrow> addr \<Rightarrow> 'v content \<Rightarrow> (cxx_exn, 'v res) outcome \<Rightarrow> bool" where
  "pure_call cbs k f a s c out \<longleftrightarrow>
     (\<forall>h. content_at h a = c \<longrightarrow>
        delivered cbs k f \<lparr>delegate_future_of = Some a, extra_state_of = Some s\<rparr> h = (out, h))"

lemma pure_callD:
  "pure_call cbs k f a s c out \<Longrightarrow> content_at h a = c \<Longrightarrow>
   delivered cbs k f \<lparr>delegate_future_of = Some a, extra_state_of = Some s\<rparr> h = (out, h)"
  by (simp add: pure_call_def)

lemma settle_attached:
  assumes own: "owns h p a s" and pending: "content_at h a = Pending" and c: "c \<noteq> Pending"
    and k: "direct k" and pure: "pure_call cbs k f a s c out" and out: "outcome_content out = Some d"
    and h1_def: "h1 = attach s (Continuation k vd f (next_promise h)) (Some a) (spawn h)"
  shows "settle (fire_within cbs (Suc (Suc n))) p c h1 =
    (Ret (), unlocked p (store (length (shared h)) d (detach s (locked p (store a c h1)))))"
proof -
  have dom: "a < length (shared h)" "s < length (states h)" "p < length (promises h)"
    using own by (simp_all add: owns_def)
  let ?H = "detach s (locked p (store a c h1))"
  have own1: "owns h1 p a s" and pend1: "content_at h1 a = Pending"
    using own pending dom by (simp_all add: h1_def spawn_simps)
  have np: "p \<noteq> next_promise h" using dom by (simp add: next_promise_def)
  have sA: "length (states h) \<noteq> s" "length (shared h) \<noteq> a" using dom by auto
  have cont: "states (locked p (store a c h1)) ! s =
      \<lparr>unique_continuation = Some (Continuation k vd f (next_promise h)), delegate_future = Some a\<rparr>"
    using dom by (simp add: h1_def spawn_simps)
  have "settle (fire_within cbs (Suc n)) (next_promise h) d ?H =
      (Ret (), store (length (shared h)) d ?H)"
  proof (rule settle_quiet [where s = "length (states h)"])
    show "owns ?H (next_promise h) (length (shared h)) (length (states h))"
      using np by (simp add: owns_locked h1_def spawn_simps)
    show "content_at ?H (length (shared h)) = Pending"
      using sA dom by (simp add: h1_def spawn_simps)
    show "unique_continuation (states ?H ! length (states h)) = None"
      using sA by (simp add: h1_def spawn_simps)
  qed
  moreover have "content_at ?H a = c"
    using dom by (simp add: h1_def spawn_simps)
  ultimately have "run_closure cbs (fire_within cbs (Suc n)) (Continuation k vd f (next_promise h))
      \<lparr>delegate_future_of = Some a, extra_state_of = Some s\<rparr> ?H =
      (Ret (), store (length (shared h)) d ?H)"
    by (rule run_direct_content [OF k pure_callD [OF pure] out, rotated])
  then have "fire_within cbs (Suc (Suc n)) (Some s) (locked p (store a c h1)) =
      (Ret (), store (length (shared h)) d ?H)"
    using fire_some [of "locked p (store a c h1)" s] cont by simp
  then show ?thesis
    by (simp add: settle_owned [OF own1 pend1] del: fire_within.simps)
qed

text \<open>
  C2. It does not matter whether \<open>then\<close> or the setter comes first. With the continuation attached
  to the pending future, the setter runs it; on the ready future, \<open>then\<close> runs it; both ways
  the calls return, the same next future is handed out, and every shared state ends with
  the same content: the predecessor's what was set, the next one's the callable's outcome.
\<close>

theorem Future_then_order_irrelevant:
  fixes n :: nat
  assumes own: "owns h p a s" and pending: "content_at h a = Pending"
    and quiet: "unique_continuation (states h ! s) = None" and k: "direct k"
    and pure: "pure_call cbs k f a s (Stored (HasV v)) out" and out: "outcome_content out = Some d"
  defines "F \<equiv> Future_ctor (Some a) (Some s)" and "fire \<equiv> fire_within cbs (Suc (Suc n))"
  shows "\<exists>h1 h2 g1 g2 F1 G1.
      Future_then cbs fire k f F h = (Ret (next_future h, F1), h1)
    \<and> Promise_set_value_lvalue fire p v h1 = (Ret (), h2)
    \<and> Promise_set_value_lvalue fire p v h = (Ret (), g1)
    \<and> Future_then cbs fire k f F g1 = (Ret (next_future h, G1), g2)
    \<and> (\<forall>b. content_at h2 b = content_at g2 b)
    \<and> content_at h2 a = Stored (HasV v) \<and> content_at h2 (length (shared h)) = d
    \<and> \<not> Future_valid F1 \<and> \<not> Future_valid G1"
proof -
  have dom: "a < length (shared h)" "s < length (states h)" using own by (simp_all add: owns_def)
  have F: "F = \<lparr>delegate_future_of = Some a, extra_state_of = Some s\<rparr>"
    by (simp add: F_def Future_ctor_def)
  let ?c = "Stored (HasV v)"
  let ?h1 = "attach s (Continuation k False f (next_promise h)) (Some a) (spawn h)"
  let ?h2 = "unlocked p (store (length (shared h)) d (detach s (locked p (store a ?c ?h1))))"
  let ?g1 = "store a ?c h"
  let ?g2 = "store (length (shared h)) d (spawn ?g1)"
  have first: "Future_then cbs fire k f F h = (Ret (next_future h, F\<lparr>delegate_future_of := None\<rparr>), ?h1)"
    using pending by (simp add: then_overloads then_generic_eq [OF F dom])
  have "Promise_set_value_lvalue fire p v ?h1 = (Ret (), ?h2)"
    unfolding fire_def settle_cases by (rule settle_attached [OF own pending _ k pure out refl]) simp
  moreover have "Promise_set_value_lvalue fire p v h = (Ret (), ?g1)"
    unfolding fire_def settle_cases by (rule settle_quiet [OF own pending quiet])
  moreover have "Future_then cbs fire k f F ?g1 = (Ret (next_future h, Future_default), ?g2)"
  proof -
    have "delivered cbs k f F (spawn ?g1) = (out, spawn ?g1)"
      using pure_callD [OF pure, of "spawn ?g1"] dom by (simp add: F spawn_simps)
    then have "then_generic cbs fire k False f F ?g1 =
        (Ret (next_future ?g1, Future_default), store (length (shared ?g1)) d (spawn ?g1))"
      unfolding fire_def using dom by (intro then_ready [OF F _ _ _ k _ out]) simp_all
    then show ?thesis by (simp add: then_overloads next_future_def)
  qed
  moreover have "content_at ?h2 b = content_at ?g2 b" for b
    using dom by (cases "b < length (shared h)")
      (auto simp: spawn_simps, auto simp: content_at_def spawn_def nth_append)
  moreover have "content_at ?h2 a = ?c" "content_at ?h2 (length (shared h)) = d"
    using dom by (simp_all add: spawn_simps)
  moreover have "\<not> Future_valid (F\<lparr>delegate_future_of := None\<rparr>)" "\<not> Future_valid Future_default"
    by (simp_all add: Future_valid_def Future_default_def)
  ultimately show ?thesis
    using first by blast
qed

theorem Future_then_order_irrelevant_witness:
  "\<exists>h1 h2. Future_then add_callables (fire_within add_callables 2) KValue 7
        (Future_ctor (Some 0) (Some 0)) fresh_heap = (Ret h1, h2)
    \<and> (\<exists>h3. Promise_set_value_lvalue (fire_within add_callables 2) 0 (Val 5) h2 = (Ret (), h3)
          \<and> content_at h3 1 = Stored (HasV (Val 12)))"
  using Future_then_order_irrelevant [where h = fresh_heap and p = 0 and a = 0 and s = 0 and k = KValue
      and cbs = add_callables and f = 7 and v = "Val 5" and out = "Ret (HasV (Val 12))"
      and d = "Stored (HasV (Val 12))" and n = 0]
    add_delivered [of _ 0 5 7 0]
  by (auto simp: fresh_heap_eq owns_def content_at_def direct_def pure_call_def numeral_2_eq_2
      simp del: fire_within.simps)

section \<open>Chains of continuations\<close>

text \<open>
  A chain of pending futures, each attached to the one before by a \<open>then\<close>: a link is the kind,
  the class flag and the callable of the \<open>then\<close>, and the promise, shared state and
  continuation state of the next future.
\<close>

type_synonym 'f link = "then_kind \<times> bool \<times> 'f \<times> addr \<times> addr \<times> addr"

definition link_promise :: "'f link \<Rightarrow> addr" where
  "link_promise l = (case l of (k, vd, f, p, a, s) \<Rightarrow> p)"

definition link_shared :: "'f link \<Rightarrow> addr" where
  "link_shared l = (case l of (k, vd, f, p, a, s) \<Rightarrow> a)"

definition link_state :: "'f link \<Rightarrow> addr" where
  "link_state l = (case l of (k, vd, f, p, a, s) \<Rightarrow> s)"

lemma link_simps [simp]:
  "link_promise (k, vd, f, p, a, s) = p" "link_shared (k, vd, f, p, a, s) = a"
  "link_state (k, vd, f, p, a, s) = s"
  by (simp_all add: link_promise_def link_shared_def link_state_def)

fun chain :: "('v, 'f) heap \<Rightarrow> addr \<Rightarrow> addr \<Rightarrow> 'f link list \<Rightarrow> bool" where
  "chain h a s [] \<longleftrightarrow> unique_continuation (states h ! s) = None"
| "chain h a s ((k, vd, f, p, a', s') # ls) \<longleftrightarrow>
     states h ! s = \<lparr>unique_continuation = Some (Continuation k vd f p), delegate_future = Some a\<rparr> \<and>
     direct k \<and> owns h p a' s' \<and> content_at h a' = Pending \<and> chain h a' s' ls"

definition separate :: "addr \<Rightarrow> addr \<Rightarrow> addr \<Rightarrow> 'f link list \<Rightarrow> bool" where
  "separate p a s ls \<longleftrightarrow> distinct (p # map link_promise ls) \<and> distinct (a # map link_shared ls) \<and>
     distinct (s # map link_state ls)"

text \<open>
  \<open>g k f c\<close> is what a callable makes of the content \<open>c\<close> of its predecessor, a value or an
  error: the callables leave the heap alone and return or throw a standard exception.
\<close>

definition proper :: "'v content \<Rightarrow> bool" where
  "proper c \<longleftrightarrow> (\<exists>r. c = Stored r \<and> r \<noteq> Empty)"

definition total_callables ::
  "('v, 'f) callables \<Rightarrow> (then_kind \<Rightarrow> 'f \<Rightarrow> 'v content \<Rightarrow> 'v content) \<Rightarrow> bool" where
  "total_callables cbs g \<longleftrightarrow>
     (\<forall>k f a s c. direct k \<and> proper c \<longrightarrow>
        (\<exists>out. pure_call cbs k f a s c out \<and> outcome_content out = Some (g k f c)))"

fun contents_along :: "(then_kind \<Rightarrow> 'f \<Rightarrow> 'v content \<Rightarrow> 'v content) \<Rightarrow> 'v content \<Rightarrow> 'f link list \<Rightarrow> (addr \<times> 'v content) list" where
  "contents_along g c [] = []"
| "contents_along g c ((k, vd, f, p, a, s) # ls) = (a, g k f c) # contents_along g (g k f c) ls"

lemma outcome_content_proper: "outcome_content out = Some d \<Longrightarrow> proper d"
  by (cases out) (auto simp: proper_def split: if_splits)

lemma chain_frame:
  assumes "chain h a s ls"
    and "\<forall>t \<in> set (s # map link_state ls). states G ! t = states h ! t"
    and "\<forall>q b t. q \<in> set (map link_promise ls) \<longrightarrow> owns h q b t \<longrightarrow> owns G q b t"
    and "\<forall>b \<in> set (map link_shared ls). content_at G b = content_at h b"
  shows "chain G a s ls"
  using assms by (induction h a s ls rule: chain.induct) (simp_all add:)

lemma promises_unlocked:
  assumes "owns h p a s" "promises h' = promises (locked p h)"
  shows "promises (unlocked p h') = promises h"
  using assms owns_same [OF assms(1)]
  by (simp add: locked_owned [OF assms(1)] unlocked_def set_promise_def promise_at_def)
    (simp add: owns_def)

text \<open>One link: the callable runs on the detached state, then the next promise is settled.\<close>

lemma fire_link:
  assumes cont: "states h ! s = \<lparr>unique_continuation = Some (Continuation k vd f p), delegate_future = Some a\<rparr>"
    and k: "direct k" and own: "owns h p a' s'" and pend: "content_at h a' = Pending"
    and pure: "pure_call cbs k f a s c out" and out: "outcome_content out = Some d"
    and c: "content_at h a = c"
  shows "fire_within cbs n (Some s') (locked p (store a' d (detach s h))) = (Ret (), h') \<Longrightarrow>
      fire_within cbs (Suc n) (Some s) h = (Ret (), unlocked p h')"
    and "fst (fire_within cbs n (Some s') (locked p (store a' d (detach s h)))) = Undefined \<Longrightarrow>
      fst (fire_within cbs (Suc n) (Some s) h) = Undefined"
proof -
  let ?F = "\<lparr>delegate_future_of = Some a, extra_state_of = Some s\<rparr>"
  have del: "delivered cbs k f ?F (detach s h) = (out, detach s h)"
    by (rule pure_callD [OF pure]) (simp add: c)
  have run: "fire_within cbs (Suc n) (Some s) h =
      run_closure cbs (fire_within cbs n) (Continuation k vd f p) ?F (detach s h)"
    using fire_some [of h s "Continuation k vd f p" cbs n] cont by (simp del: fire_within.simps)
  have set: "settle (fire_within cbs n) p d (detach s h) =
      (let (r, h') = fire_within cbs n (Some s') (locked p (store a' d (detach s h))) in (r, unlocked p h'))"
    by (rule settle_owned) (simp_all add: own pend)
  show "fire_within cbs (Suc n) (Some s) h = (Ret (), unlocked p h')"
    if "fire_within cbs n (Some s') (locked p (store a' d (detach s h))) = (Ret (), h')"
    unfolding run using set that by (intro run_direct_content [OF k del out]) simp
  show "fst (fire_within cbs (Suc n) (Some s) h) = Undefined"
    if U: "fst (fire_within cbs n (Some s') (locked p (store a' d (detach s h)))) = Undefined"
  proof -
    have "\<exists>h'. settle (fire_within cbs n) p d (detach s h) = (Undefined, h')"
      using U by (simp add: set split_def)
    then obtain h' where "settle (fire_within cbs n) p d (detach s h) = (Undefined, h')" ..
    then show ?thesis
      using out unfolding run
      by (cases out) (auto simp: run_direct [OF k] pcatch_def pbind_def del settle_res_def
          set_error_def split: if_splits)
  qed
qed

text \<open>The heap in which the rest of the chain fires.\<close>

lemma separate_step: "separate q a s ((k, vd, f, p, a', s') # ls) \<Longrightarrow> separate p a' s' ls"
  by (simp add: separate_def)

lemma chain_step:
  assumes ch: "chain h a s ((k, vd, f, p, a', s') # ls)"
    and dist: "separate q a s ((k, vd, f, p, a', s') # ls)"
  shows "chain (locked p (store a' d (detach s h))) a' s' ls"
    and "content_at (locked p (store a' d (detach s h))) a' = d"
proof -
  let ?G = "locked p (store a' d (detach s h))"
  have "a' < length (shared h)" using ch by (simp add: owns_def)
  then have G: "content_at ?G b = (if a' = b then d else content_at h b)" for b
    by simp
  then show "content_at ?G a' = d" by simp
  have new: "s \<notin> set (s' # map link_state ls)" "p \<notin> set (map link_promise ls)"
    "a' \<notin> set (map link_shared ls)"
    using dist by (simp_all add: separate_def)
  show "chain ?G a' s' ls"
  proof (rule chain_frame)
    show "chain h a' s' ls" using ch by simp
    show "\<forall>t \<in> set (s' # map link_state ls). states ?G ! t = states h ! t"
    proof
      fix t
      assume "t \<in> set (s' # map link_state ls)"
      with new(1) have "t \<noteq> s" by auto
      then show "states ?G ! t = states h ! t" by (simp add: detach_def)
    qed
    show "\<forall>r b t. r \<in> set (map link_promise ls) \<longrightarrow> owns h r b t \<longrightarrow> owns ?G r b t"
    proof (intro allI impI)
      fix r b t
      assume "r \<in> set (map link_promise ls)" and own: "owns h r b t"
      with new(2) have "p \<noteq> r" by auto
      then show "owns ?G r b t" by (simp add: owns_locked own)
    qed
    show "\<forall>b \<in> set (map link_shared ls). content_at ?G b = content_at h b"
      using new(3) G by auto
  qed
qed

lemma chain_fires:
  assumes total: "total_callables cbs g"
    and "chain h a s ls" "separate q a s ls" "content_at h a = c" "proper c" "length ls \<le> n"
  shows "\<exists>h'. fire_within cbs (Suc n) (Some s) h = (Ret (), h') \<and> promises h' = promises h
    \<and> (\<forall>(b, d) \<in> set (contents_along g c ls). content_at h' b = d)
    \<and> (\<forall>b. b \<notin> set (map link_shared ls) \<longrightarrow> content_at h' b = content_at h b)"
  using assms(2-)
proof (induction ls arbitrary: h a s q c n)
  case Nil
  then show ?case by (simp add: fire_none del: fire_within.simps)
next
  case (Cons l ls)
  obtain k vd f p a' s' where l: "l = (k, vd, f, p, a', s')" by (metis prod_cases6)
  note ch = Cons.prems(1) [unfolded l] and dist = Cons.prems(2) [unfolded l]
  obtain m where n: "n = Suc m" "length ls \<le> m" using Cons.prems(5) by (cases n) auto
  have facts: "states h ! s = \<lparr>unique_continuation = Some (Continuation k vd f p), delegate_future = Some a\<rparr>"
    "direct k" "owns h p a' s'" "content_at h a' = Pending"
    using ch by simp_all
  obtain out where pure: "pure_call cbs k f a s c out" and out: "outcome_content out = Some (g k f c)"
    using total facts(2) Cons.prems(4) unfolding total_callables_def by blast
  let ?d = "g k f c"
  let ?G = "locked p (store a' ?d (detach s h))"
  note step = chain_step [OF ch dist, where d = ?d]
  obtain h' where h': "fire_within cbs (Suc m) (Some s') ?G = (Ret (), h')" "promises h' = promises ?G"
    "\<forall>(b, d) \<in> set (contents_along g ?d ls). content_at h' b = d"
    "\<forall>b. b \<notin> set (map link_shared ls) \<longrightarrow> content_at h' b = content_at ?G b"
    using Cons.IH [OF step(1) separate_step [OF dist] step(2) outcome_content_proper [OF out] n(2)] by blast
  have "fire_within cbs (Suc n) (Some s) h = (Ret (), unlocked p h')"
    unfolding n(1) by (rule fire_link(1) [OF facts pure out Cons.prems(3) h'(1)])
  moreover have "promises (unlocked p h') = promises h"
    using promises_unlocked [OF _ h'(2)] facts(3) by simp
  moreover have "a' < length (shared h)" using facts(3) by (simp add: owns_def)
  moreover have "a' \<notin> set (map link_shared ls)" using dist by (auto simp: separate_def)
  ultimately show ?case
    using h'(3,4) step(2) by (auto simp: l)
qed

lemma chain_overflow:
  assumes total: "total_callables cbs g"
    and "chain h a s ls" "separate q a s ls" "content_at h a = c" "proper c" "n \<le> length ls"
  shows "fst (fire_within cbs n (Some s) h) = Undefined"
  using assms(2-)
proof (induction ls arbitrary: h a s q c n)
  case Nil
  then show ?case by (simp add: pfail_def)
next
  case (Cons l ls)
  show ?case
  proof (cases n)
    case 0
    then show ?thesis by (simp add: pfail_def)
  next
    case (Suc m)
    obtain k vd f p a' s' where l: "l = (k, vd, f, p, a', s')" by (metis prod_cases6)
    note ch = Cons.prems(1) [unfolded l] and dist = Cons.prems(2) [unfolded l]
    have facts: "states h ! s = \<lparr>unique_continuation = Some (Continuation k vd f p), delegate_future = Some a\<rparr>"
      "direct k" "owns h p a' s'" "content_at h a' = Pending"
      using ch by simp_all
    obtain out where pure: "pure_call cbs k f a s c out" and out: "outcome_content out = Some (g k f c)"
      using total facts(2) Cons.prems(4) unfolding total_callables_def by blast
    note step = chain_step [OF ch dist, where d = "g k f c"]
    have "m \<le> length ls" using Suc Cons.prems(5) by simp
    then have "fst (fire_within cbs m (Some s') (locked p (store a' (g k f c) (detach s h)))) = Undefined"
      by (intro Cons.IH [OF step(1) separate_step [OF dist] step(2) outcome_content_proper [OF out]])
    then show ?thesis
      unfolding Suc by (rule fire_link(2) [OF facts pure out Cons.prems(3)])
  qed
qed

lemma chain_settled:
  assumes own: "owns h p a s" and ch: "chain h a s ls" and dist: "separate p a s ls"
  shows "chain (locked p (store a c h)) a s ls"
proof (rule chain_frame [OF ch])
  have a: "a < length (shared h)" using own by (simp add: owns_def)
  have new: "p \<notin> set (map link_promise ls)" "a \<notin> set (map link_shared ls)"
    using dist by (simp_all add: separate_def)
  show "\<forall>t \<in> set (s # map link_state ls). states (locked p (store a c h)) ! t = states h ! t"
    by simp
  show "\<forall>r b t. r \<in> set (map link_promise ls) \<longrightarrow> owns h r b t \<longrightarrow> owns (locked p (store a c h)) r b t"
  proof (intro allI impI)
    fix r b t
    assume "r \<in> set (map link_promise ls)" and r: "owns h r b t"
    with new(1) have "p \<noteq> r" by auto
    then show "owns (locked p (store a c h)) r b t" by (simp add: owns_locked r)
  qed
  show "\<forall>b \<in> set (map link_shared ls). content_at (locked p (store a c h)) b = content_at h b"
    using new(2) a by auto
qed

text \<open>
  C3. Making the first promise of a chain of attached continuations ready runs them all: the
  setter returns, every future of the chain ends with what its callable makes of its
  predecessor's content, errors and exceptions included, and no other state changes. A
  stack of one activation more than the chain has links is enough, and necessary.
\<close>

theorem Promise_chain_runs:
  assumes total: "total_callables cbs g" and own: "owns h p a s"
    and pending: "content_at h a = Pending" and ch: "chain h a s ls" and dist: "separate p a s ls"
    and depth: "length ls \<le> n" and shallow: "m \<le> length ls"
  shows "\<exists>h'. Promise_set_value_lvalue (fire_within cbs (Suc n)) p v h = (Ret (), h')
      \<and> content_at h' a = Stored (HasV v)
      \<and> (\<forall>(b, d) \<in> set (contents_along g (Stored (HasV v)) ls). content_at h' b = d)
      \<and> (\<forall>b. b \<noteq> a \<and> b \<notin> set (map link_shared ls) \<longrightarrow> content_at h' b = content_at h b)
      \<and> promises h' = promises h
      \<and> fst (Promise_set_value_lvalue (fire_within cbs m) p v h) = Undefined"
proof -
  let ?c = "Stored (HasV v)"
  let ?G = "locked p (store a ?c h)"
  have a: "a < length (shared h)" using own by (simp add: owns_def)
  have c: "content_at ?G a = ?c" "proper ?c" using a by (simp_all add: proper_def)
  note ch' = chain_settled [OF own ch dist, of ?c]
  obtain h' where h': "fire_within cbs (Suc n) (Some s) ?G = (Ret (), h')" "promises h' = promises ?G"
    "\<forall>(b, d) \<in> set (contents_along g ?c ls). content_at h' b = d"
    "\<forall>b. b \<notin> set (map link_shared ls) \<longrightarrow> content_at h' b = content_at ?G b"
    using chain_fires [OF total ch' dist c depth] by blast
  have a': "a \<notin> set (map link_shared ls)" using dist by (simp add: separate_def)
  have "Promise_set_value_lvalue (fire_within cbs (Suc n)) p v h = (Ret (), unlocked p h')"
    unfolding settle_cases by (simp add: settle_owned [OF own pending] h'(1) del: fire_within.simps)
  moreover have "promises (unlocked p h') = promises h"
    using promises_unlocked [of "store a ?c h" p a s h'] h'(2) own by simp
  moreover have "fst (Promise_set_value_lvalue (fire_within cbs m) p v h) = Undefined"
    unfolding settle_cases
    by (simp add: settle_owned [OF own pending] split_def chain_overflow [OF total ch' dist c shallow])
  ultimately show ?thesis
    using h'(3,4) c(1) a a' by (intro exI [of _ "unlocked p h'"]) auto
qed

definition add_content :: "then_kind \<Rightarrow> int \<Rightarrow> int content \<Rightarrow> int content" where
  "add_content k f c =
     (case c of
        Stored (HasV v) \<Rightarrow>
          Stored (HasV (if k = KVoid \<or> k = KResultVoid then Void
                        else Val (f + (case v of Val x \<Rightarrow> x | Void \<Rightarrow> 0))))
      | _ \<Rightarrow> Stored (HasE (MakeErrorCode_future broken_promise 0)))"

lemma add_total: "total_callables add_callables add_content"
  unfolding total_callables_def
proof (intro allI impI, elim conjE)
  fix k f a s c
  assume k: "direct k" and "proper (c :: int content)"
  then obtain r where c: "c = Stored r" "r \<noteq> Empty" by (auto simp: proper_def)
  let ?out = "case r of
      HasE e \<Rightarrow> Throws (AraException \<lparr>exn_type = vt_Exception (mDomain e), error_code = e\<rparr>)
    | _ \<Rightarrow> Ret (case add_content k f c of Stored r' \<Rightarrow> r')"
  have "pure_call add_callables k f a s c ?out"
    using k c
    by (cases k; cases r)
      (auto simp: pure_call_def direct_def add_callables_def add_content_def Future_get_def
        GetResult_eq pbind_def pret_def split_def ErrorCode_ThrowAsException_def
        ErrorDomain_ThrowAsException_def ThrowOrTerminate_def Exception_ctor_def
        ErrorCode_Domain_def split: val.split)
  moreover have "outcome_content ?out = Some (add_content k f c)"
    using c by (cases r) (auto simp: add_content_def)
  ultimately show "\<exists>out. pure_call add_callables k f a s c out \<and> outcome_content out = Some (add_content k f c)"
    by blast
qed

definition chain_heap :: "(int, int) heap" where
  "chain_heap = attach 0 (Continuation KValue False 7 2) (Some 0) (spawn fresh_heap)"

theorem Promise_chain_runs_witness:
  "\<exists>h'. Promise_set_value_lvalue (fire_within add_callables 2) 0 (Val 5) chain_heap = (Ret (), h')
      \<and> content_at h' 1 = Stored (HasV (Val 12))"
  using Promise_chain_runs [OF add_total, where h = chain_heap and p = 0 and a = 0 and s = 0 and n = 1
      and m = 0 and ls = "[(KValue, False, 7, 2, 1, 1)]" and v = "Val 5"]
  by (auto simp: chain_heap_def attach_def spawn_def fresh_heap_eq owns_def content_at_def direct_def
      separate_def add_content_def numeral_2_eq_2 simp del: fire_within.simps)

section \<open>Callables that return a future\<close>

text \<open>The heap after the successor promise at \<open>p\<close> was moved into the inner closure.\<close>

definition moved_promise :: "addr \<Rightarrow> ('v, 'f) heap \<Rightarrow> ('v, 'f) heap" where
  "moved_promise p h =
     h\<lparr>promises := (promises h)[p := \<lparr>delegate_promise = None, extra_state = None, mutex_held = False\<rparr>]
        @ [promises h ! p]\<rparr>"

lemma move_owned:
  assumes "owns h p a s"
  shows "Promise_move_ctor p h = (Ret (length (promises h)), moved_promise p h)"
    and "PV_move_ctor p h = (Ret (length (promises h)), moved_promise p h)"
  using assms
  by (simp_all add: owns_def Promise_move_ctor_def PV_move_ctor_def new_promise_def set_promise_def
      promise_at_def moved_promise_def)

lemma moved_promise_simps [simp]:
  "shared (moved_promise p h) = shared h" "states (moved_promise p h) = states h"
  "content_at (moved_promise p h) a = content_at h a"
  by (simp_all add: moved_promise_def content_at_def)

lemma owns_moved:
  "owns h p a s \<Longrightarrow> owns (moved_promise p h) (length (promises h)) a s"
  "owns h q b t \<Longrightarrow> p \<noteq> q \<Longrightarrow> owns (moved_promise p h) q b t"
  by (auto simp: owns_def moved_promise_def nth_append)

lemma settle_moved:
  assumes "owns h p a s"
  shows "settle fire p c (moved_promise p h) = (Throws (StdFutureError future_errc_no_state), moved_promise p h)"
proof -
  let ?dead = "\<lparr>delegate_promise = None, extra_state = None, mutex_held = False\<rparr>"
  have at: "promises (moved_promise p h) ! p = ?dead" "p < length (promises (moved_promise p h))"
    using assms by (simp_all add: owns_def moved_promise_def nth_append)
  have "(promises (moved_promise p h))[p := ?dead] = promises (moved_promise p h)"
    by (metis at(1) list_update_id)
  with at show ?thesis
    by (simp add: settle_def with_lock_def promise_at_def set_promise_def std_set_def pbind_def)
qed

lemma inner_continuation_eq:
  "Future_inner_continuation fire p F h =
     (case fst (Future_GetResult F h) of
        Ret r \<Rightarrow> settle_res fire p r h
      | out \<Rightarrow> (obind out (\<lambda>_. Ret ()), h))"
  by (simp add: Future_inner_continuation_def settle_funs settle_res_def set_error_def pfail_def
      split: outcome.split rslt.split)

lemma fulfill_future_eq:
  assumes call: "on_future cbs f F h = (Ret inner, h)"
    and inner: "inner = \<lparr>delegate_future_of = Some b, extra_state_of = Some t\<rparr>"
    and own: "owns h p a s"
  shows "content_at h b = Pending \<Longrightarrow> Future_fulfill_promise_future cbs fire f p F h =
      (Ret (), attach t (InnerContinuation False False (length (promises h))) (Some b) (moved_promise p h))"
    and "content_at h b \<noteq> Pending \<Longrightarrow> Future_fulfill_promise_future cbs fire f p F h =
      pcatch (Future_inner_continuation fire (length (promises h)) inner)
        (\<lambda>ex. map_option (set_error fire p) (exn_errc ex)) (moved_promise p h)"
proof -
  have *: "Future_fulfill_promise_future cbs fire f p F h =
      pcatch (\<lambda>h. (if content_at h b \<noteq> Pending
            then Future_inner_continuation fire (length (promises h) - 1) inner
            else pbind (SetContinuation t (InnerContinuation False False (length (promises h) - 1)) inner)
                   (\<lambda>_. pret ())) h)
        (\<lambda>ex. map_option (set_error fire p) (exn_errc ex)) (moved_promise p h)"
    using call inner own
    by (simp add: Future_fulfill_promise_future_def pcatch_def pbind_def [of "on_future _ _ _"]
        pbind_def [of "Promise_move_ctor _"] pbind_def [of "Future_is_ready _"] is_ready_eq
        Future_valid_def move_owned catch_eq settle_funs Future_moved_def)
      (simp add: moved_promise_def)
  show "content_at h b = Pending \<Longrightarrow> Future_fulfill_promise_future cbs fire f p F h =
      (Ret (), attach t (InnerContinuation False False (length (promises h))) (Some b) (moved_promise p h))"
    unfolding * by (simp add: pcatch_def SetContinuation_def pbind_def pret_def attach_def inner)
      (simp add: moved_promise_def)
  show "content_at h b \<noteq> Pending \<Longrightarrow> Future_fulfill_promise_future cbs fire f p F h =
      pcatch (Future_inner_continuation fire (length (promises h)) inner)
        (\<lambda>ex. map_option (set_error fire p) (exn_errc ex)) (moved_promise p h)"
    unfolding * by (simp add: pcatch_def) (simp add: moved_promise_def)
qed

lemma inner_fires:
  assumes own: "owns h p a s" and pend: "content_at h a = Pending"
    and quiet: "unique_continuation (states h ! s) = None"
    and F: "delegate_future_of F = Some b" and c: "content_at h b = Stored r" "r \<noteq> Empty"
  shows "Future_inner_continuation (fire_within cbs (Suc n)) p F h = (Ret (), store a (Stored r) h)"
  using settle_quiet [OF own pend quiet] F c
  by (simp add: inner_continuation_eq GetResult_eq settle_res_def del: fire_within.simps)

text \<open>
  Setting a promise on whose state the inner closure waits also sets the outer promise \<open>o\<close>.
\<close>

lemma inner_settles:
  fixes M :: "('v, 'f) heap" and cbs :: "('v, 'f) callables" and n :: nat
  assumes q: "owns M q b t" "q \<noteq> o'" and M: "owns M o' A S" "content_at M A = Pending"
    "content_at M b = Pending" "unique_continuation (states M ! S) = None" and apart: "b \<noteq> A" "t \<noteq> S"
  defines "fire \<equiv> fire_within cbs (Suc (Suc n))" and "h1 \<equiv> attach t (InnerContinuation False False o') (Some b) M"
  shows "\<exists>h2. Promise_set_value_lvalue fire q w h1 = (Ret (), h2)
    \<and> content_at h2 b = Stored (HasV w) \<and> content_at h2 A = Stored (HasV w)"
proof -
  let ?L = "locked q (store b (Stored (HasV w)) h1)"
  let ?H = "detach t ?L"
  have own1: "owns h1 q b t" and pend1: "content_at h1 b = Pending"
    using q(1) M(3) by (simp_all add: h1_def)
  have bt: "b < length (shared M)" "t < length (states M)" "A < length (shared M)"
    using q(1) M(1) by (simp_all add: owns_def)
  have H: "owns ?H o' A S" "content_at ?H A = Pending" "content_at ?H b = Stored (HasV w)"
    "unique_continuation (states ?H ! S) = None"
    using M q(2) apart bt by (simp_all add: h1_def owns_locked)
  have "Future_inner_continuation (fire_within cbs (Suc n)) o'
      \<lparr>delegate_future_of = Some b, extra_state_of = Some t\<rparr> ?H = (Ret (), store A (Stored (HasV w)) ?H)"
    by (rule inner_fires [OF H(1,2,4) _ H(3)]) simp_all
  then have "fire_within cbs (Suc (Suc n)) (Some t) ?L = (Ret (), store A (Stored (HasV w)) ?H)"
    using fire_some [of ?L t] bt by (simp add: h1_def del: fire_within.simps)
  then have "Promise_set_value_lvalue fire q w h1 = (Ret (), unlocked q (store A (Stored (HasV w)) ?H))"
    unfolding settle_cases fire_def
    by (simp add: settle_owned [OF own1 pend1] del: fire_within.simps)
  moreover have "content_at (unlocked q (store A (Stored (HasV w)) ?H)) b = Stored (HasV w)"
    "content_at (unlocked q (store A (Stored (HasV w)) ?H)) A = Stored (HasV w)"
    using H(3) apart bt by (simp_all add: h1_def spawn_simps)
  ultimately show ?thesis by blast
qed

text \<open>
  C17. When the callable of \<open>then\<close> returns a pending future, the next future stays pending until
  that inner future is made ready, and then holds the same value; when it returns a ready
  one, the next future holds its result at once.
\<close>

theorem Future_then_unwraps:
  fixes n :: nat
  assumes F: "F = \<lparr>delegate_future_of = Some a, extra_state_of = Some s\<rparr>"
    and dom: "a < length (shared h)" "s < length (states h)" and ready: "content_at h a \<noteq> Pending"
    and call: "on_future cbs f F (spawn h) = (Ret inner, spawn h)"
    and inner: "inner = \<lparr>delegate_future_of = Some b, extra_state_of = Some t\<rparr>"
    and own: "owns h q b t" and c: "content_at h b = Pending \<or> proper (content_at h b)"
  defines "fire \<equiv> fire_within cbs (Suc (Suc n))"
  shows "\<exists>h1. Future_then cbs fire KFuture f F h = (Ret (next_future h, Future_default), h1)
      \<and> (if content_at h b = Pending
         then content_at h1 (length (shared h)) = Pending
            \<and> (\<exists>h2. Promise_set_value_lvalue fire q w h1 = (Ret (), h2)
                 \<and> content_at h2 b = Stored (HasV w) \<and> content_at h2 (length (shared h)) = Stored (HasV w))
         else content_at h1 (length (shared h)) = content_at h b)"
proof -
  let ?X = "spawn h" and ?A = "length (shared h)" and ?S = "length (states h)"
  let ?o = "length (promises ?X)"
  let ?M = "moved_promise (next_promise h) ?X"
  have bt: "b < ?A" "t < ?S" "q < length (promises h)" using own by (simp_all add: owns_def)
  have np: "owns ?X (next_promise h) ?A ?S" by (simp add: spawn_simps)
  have M: "owns ?M ?o ?A ?S" "content_at ?M ?A = Pending" "content_at ?M b = content_at h b"
    "unique_continuation (states ?M ! ?S) = None"
    using owns_moved(1) [OF np] bt by (simp_all add: spawn_simps)
  have q: "owns ?M q b t" "q \<noteq> ?o"
    using owns_moved(2) [OF _, of ?X q b t "next_promise h"] own bt
    by (auto simp: spawn_simps next_promise_def)
  have "then": "Future_then cbs fire KFuture f F h =
      pbind (Future_fulfill_promise_future cbs fire f (next_promise h) F)
        (\<lambda>_. pret (next_future h, Future_default)) ?X"
    using ready by (simp add: then_eqs then_generic_eq [OF F dom])
  note eqs = fulfill_future_eq [OF call inner np, of fire]
  show ?thesis
  proof (cases "content_at h b = Pending")
    case True
    let ?h1 = "attach t (InnerContinuation False False ?o) (Some b) ?M"
    have first: "Future_then cbs fire KFuture f F h = (Ret (next_future h, Future_default), ?h1)"
      unfolding "then" using eqs(1) True bt by (simp add: pbind_def pret_def spawn_simps)
    have "b \<noteq> ?A" "t \<noteq> ?S" using bt by auto
    from inner_settles [OF q M(1,2) _ M(4) this, of cbs n w]
    have "\<exists>h2. Promise_set_value_lvalue fire q w ?h1 = (Ret (), h2)
        \<and> content_at h2 b = Stored (HasV w) \<and> content_at h2 ?A = Stored (HasV w)"
      using M(3) True by (simp add: fire_def del: fire_within.simps)
    with first M(2) True show ?thesis by auto
  next
    case False
    then obtain r where r: "content_at h b = Stored r" "r \<noteq> Empty" using c by (auto simp: proper_def)
    have "Future_inner_continuation fire ?o inner ?M = (Ret (), store ?A (Stored r) ?M)"
      unfolding fire_def
      by (rule inner_fires [OF M(1,2,4) _ trans [OF M(3) r(1)] r(2)]) (simp add: inner)
    then have "Future_fulfill_promise_future cbs fire f (next_promise h) F ?X = (Ret (), store ?A (Stored r) ?M)"
      using eqs(2) r(1) bt by (simp add: spawn_simps pcatch_def)
    then have "Future_then cbs fire KFuture f F h =
        (Ret (next_future h, Future_default), store ?A (Stored r) ?M)"
      unfolding "then" by (simp add: pbind_def pret_def)
    moreover have "content_at (store ?A (Stored r) ?M) ?A = Stored r" by (simp add: spawn_simps)
    ultimately show ?thesis using r(1) by auto
  qed
qed

text \<open>A heap with a ready future (state 0) and a pending one (state 1).\<close>

definition two_heap :: "(int, int) heap" where
  "two_heap = snd (Promise_ctor ready_heap)"

lemma two_heap_eq:
  "two_heap =
     \<lparr>shared = [\<lparr>content = Stored (HasV (Val 5)), retrieved = False\<rparr>, \<lparr>content = Pending, retrieved = False\<rparr>],
      states = [\<lparr>unique_continuation = None, delegate_future = None\<rparr>,
                \<lparr>unique_continuation = None, delegate_future = None\<rparr>],
      promises = [\<lparr>delegate_promise = Some 0, extra_state = Some 0, mutex_held = False\<rparr>,
                  \<lparr>delegate_promise = Some 1, extra_state = Some 1, mutex_held = False\<rparr>]\<rparr>"
  by (simp add: two_heap_def ready_heap_def fresh_heap_eq Promise_ctor_def pbind_def new_shared_def
      State_ctor_def new_promise_def store_def)

definition future_callables :: "(int, int) callables" where
  "future_callables = add_callables
     \<lparr>on_future := (\<lambda>f F. pret \<lparr>delegate_future_of = Some (nat f), extra_state_of = Some (nat f)\<rparr>)\<rparr>"

theorem Future_then_unwraps_witness:
  "\<exists>h1 h2. Future_then future_callables (fire_within future_callables 2) KFuture 1
        \<lparr>delegate_future_of = Some 0, extra_state_of = Some 0\<rparr> two_heap =
        (Ret (next_future two_heap, Future_default), h1)
    \<and> Promise_set_value_lvalue (fire_within future_callables 2) 1 (Val 9) h1 = (Ret (), h2)
    \<and> content_at h2 2 = Stored (HasV (Val 9))"
  using Future_then_unwraps [where F = "\<lparr>delegate_future_of = Some 0, extra_state_of = Some 0\<rparr>"
      and a = 0 and s = 0 and h = two_heap and cbs = future_callables and f = 1
      and inner = "\<lparr>delegate_future_of = Some 1, extra_state_of = Some 1\<rparr>" and b = 1 and t = 1
      and q = 1 and w = "Val 9" and n = 0]
  by (auto simp: two_heap_eq content_at_def owns_def future_callables_def pret_def numeral_2_eq_2
      simp del: fire_within.simps)

section \<open>What goes wrong\<close>

text \<open>
  A promise that is destroyed while a continuation waits on it makes its own future
  broken but does not run the continuation: while the \<open>State\<close> is alive (\<open>State_Lifetimes\<close> says
  when it ends) the future that \<open>then\<close> returned stays pending
  and \<open>GetResult\<close> on it blocks, although with \<open>then\<close> called after the destruction the
  callable would have run on the broken future.
\<close>

theorem Promise_dtor_skips_continuation:
  assumes own: "owns h p a s" and pending: "content_at h a = Pending"
  defines "F \<equiv> Future_ctor (Some a) (Some s)"
  shows "\<exists>h1. Future_then cbs fire k f F h = (Ret (next_future h, F\<lparr>delegate_future_of := None\<rparr>), h1)
      \<and> content_at (Promise_dtor p h1) a = StoredException (StdFutureError 4)
      \<and> states (Promise_dtor p h1) = states h1
      \<and> fst (Future_GetResult (next_future h) (Promise_dtor p h1)) = Blocks"
proof -
  have dom: "a < length (shared h)" "s < length (states h)" using own by (simp_all add: owns_def)
  have F: "F = \<lparr>delegate_future_of = Some a, extra_state_of = Some s\<rparr>"
    by (simp add: F_def Future_ctor_def)
  let ?h1 = "attach s (Continuation k False f (next_promise h)) (Some a) (spawn h)"
  have own1: "owns ?h1 p a s" and pend1: "content_at ?h1 a = Pending" "content_at ?h1 (length (shared h)) = Pending"
    using own pending dom by (simp_all add: spawn_simps)
  have d: "Promise_dtor p ?h1 = set_promise p \<lparr>delegate_promise = None, extra_state = None, mutex_held = False\<rparr>
      (store a (StoredException (StdFutureError 4)) ?h1)"
    using own1 pend1(1)
    by (simp add: Promise_dtor_def promise_at_def owns_def std_abandon_def content_at_def store_def
        future_errc_defs)
  have "content_at (Promise_dtor p ?h1) b = content_at (store a (StoredException (StdFutureError 4)) ?h1) b" for b
    by (simp add: d content_at_def set_promise_def)
  then have "content_at (Promise_dtor p ?h1) a = StoredException (StdFutureError 4)"
    "content_at (Promise_dtor p ?h1) (length (shared h)) = Pending"
    using dom pend1 by (simp_all add: spawn_simps)
  moreover have "states (Promise_dtor p ?h1) = states ?h1" by (simp add: d set_promise_def)
  moreover have "Future_then cbs fire k f F h = (Ret (next_future h, F\<lparr>delegate_future_of := None\<rparr>), ?h1)"
    unfolding then_overloads then_generic_eq [OF F dom] using pending by simp
  ultimately show ?thesis
    by (intro exI [of _ ?h1]) (simp add: GetResult_eq next_future_def)
qed

lemma fresh_facts:
  "owns fresh_heap 0 0 0" "content_at fresh_heap 0 = Pending"
  "length (shared fresh_heap) = 1" "length (states fresh_heap) = 1"
  by (simp_all add: fresh_heap_eq owns_def content_at_def)

theorem Promise_dtor_skips_continuation_witness:
  "\<exists>h1 :: (int, int) heap. fst (Future_GetResult (next_future fresh_heap) (Promise_dtor 0 h1)) = Blocks
      \<and> content_at (Promise_dtor 0 h1) 0 = StoredException (StdFutureError 4)"
  using Promise_dtor_skips_continuation [OF fresh_facts(1,2),
      where cbs = add_callables and fire = "fire_within add_callables 1" and k = KValue and f = 7]
  by blast

text \<open>
  The continuation runs while the setter holds the promise's mutex: a callable that calls
  any setter of the same promise blocks for good, and with it the setter.
\<close>

theorem Promise_setter_not_reentrant:
  assumes own: "owns h p a s" and pending: "content_at h a = Pending"
    and call: "on_void cbs f = (\<lambda>F. Promise_SetError_lvalue fire' p e)"
    and h1: "Future_then cbs (fire_within cbs (Suc (Suc n))) KVoid f (Future_ctor (Some a) (Some s)) h = (Ret x, h1)"
  shows "fst (Promise_set_value_lvalue (fire_within cbs (Suc (Suc n))) p v h1) = Blocks"
proof -
  have dom: "a < length (shared h)" "s < length (states h)" "p < length (promises h)"
    using own by (simp_all add: owns_def)
  have h1: "h1 = attach s (Continuation KVoid False f (next_promise h)) (Some a) (spawn h)"
    using h1 pending unfolding then_overloads
    by (simp add: then_generic_eq [OF _ dom(1,2)] Future_ctor_def)
  have own1: "owns h1 p a s" and pend1: "content_at h1 a = Pending"
    using own pending dom by (simp_all add: h1 spawn_simps)
  let ?G = "locked p (store a (Stored (HasV v)) h1)"
  have "mutex_held (promise_at (detach s ?G) p)"
    using own1 by (simp add: promise_at_def locked_owned [of _ p a s]) (simp add: owns_def)
  then have "on_void cbs f F (detach s ?G) = (Blocks, detach s ?G)" for F
    by (simp add: call settle_cases settle_held)
  then have "fst (run_closure cbs (fire_within cbs (Suc n)) (Continuation KVoid False f (next_promise h))
      \<lparr>delegate_future_of = Some a, extra_state_of = Some s\<rparr> (detach s ?G)) = Blocks"
    by (simp add: Future_fulfill_promise_void_def pcatch_def pbind_def)
  then have "fst (fire_within cbs (Suc (Suc n)) (Some s) ?G) = Blocks"
    using fire_some [of ?G s] dom by (simp add: h1 spawn_simps del: fire_within.simps)
  then show ?thesis
    unfolding settle_cases by (simp add: settle_owned [OF own1 pend1] split_def del: fire_within.simps)
qed

definition reentrant_callables :: "(int, int) callables" where
  "reentrant_callables = add_callables
     \<lparr>on_void := (\<lambda>f F. Promise_SetError_lvalue (fire_within add_callables 1) (nat f) (std_errc 4))\<rparr>"

theorem Promise_setter_not_reentrant_witness:
  "fst (Promise_set_value_lvalue (fire_within reentrant_callables 2) 0 (Val 5)
     (snd (Future_then reentrant_callables (fire_within reentrant_callables 2) KVoid 0
        (Future_ctor (Some 0) (Some 0)) fresh_heap))) = Blocks"
proof -
  have F: "Future_ctor (Some 0) (Some 0) = \<lparr>delegate_future_of = Some 0, extra_state_of = Some 0\<rparr>"
    by (simp add: Future_ctor_def)
  note own = fresh_facts(1,2)
  have "\<exists>x h1. Future_then reentrant_callables (fire_within reentrant_callables (Suc (Suc 0))) KVoid 0
      (Future_ctor (Some 0) (Some 0)) fresh_heap = (Ret x, h1)"
    unfolding then_overloads by (simp add: then_generic_eq [OF F] fresh_facts)
  then obtain x h1 where x: "Future_then reentrant_callables (fire_within reentrant_callables (Suc (Suc 0))) KVoid 0
      (Future_ctor (Some 0) (Some 0)) fresh_heap = (Ret x, h1)" by blast
  have call: "on_void reentrant_callables 0 = (\<lambda>F. Promise_SetError_lvalue (fire_within add_callables 1) 0 (std_errc 4))"
    by (simp add: reentrant_callables_def)
  show ?thesis
    using Promise_setter_not_reentrant [OF own call x, of "Val 5"] x
    by (simp add: numeral_2_eq_2 del: fire_within.simps Future_then.simps)
qed

text \<open>
  In \<open>fulfill_promise_future\<close> the successor promise is moved into the inner closure before
  the inner result is passed on. When that throws, the handler calls \<open>SetError\<close> on the
  moved-from promise: the error is lost and \<open>future_error\<close> with \<open>no_state\<close> is thrown instead.
\<close>

theorem fulfill_promise_future_loses_error:
  assumes call: "on_future cbs f F h = (Ret inner, h)"
    and inner: "inner = \<lparr>delegate_future_of = Some b, extra_state_of = Some t\<rparr>"
    and own: "owns h p a s" and pend: "content_at h a = Pending"
    and ready: "content_at h b = Stored r" "r \<noteq> Empty"
    and fire: "fire (Some s) = (\<lambda>h. (Throws ex, h))" and ex: "exn_errc ex = Some e"
  shows "fst (Future_fulfill_promise_future cbs fire f p F h) = Throws (StdFutureError 3)"
proof -
  let ?M = "moved_promise p h" and ?o = "length (promises h)"
  have M: "owns ?M ?o a s" "content_at ?M a = Pending"
    using owns_moved(1) [OF own] pend by simp_all
  have a: "p < ?o" using own by (simp add: owns_def)
  have "settle fire ?o (Stored r) ?M = (Throws ex, store a (Stored r) ?M)"
    using M fire by (simp add: settle_owned)
  then have 1: "Future_inner_continuation fire ?o inner ?M = (Throws ex, store a (Stored r) ?M)"
    using ready by (simp add: inner_continuation_eq GetResult_eq inner settle_res_def)
  have "store a (Stored r) ?M = moved_promise p (store a (Stored r) h)"
    by (simp add: store_def moved_promise_def)
  then have "set_error fire p e (store a (Stored r) ?M) =
      (Throws (StdFutureError 3), store a (Stored r) ?M)"
    using settle_moved [of "store a (Stored r) h" p a s fire] own
    by (simp add: set_error_def future_errc_defs)
  with 1 show ?thesis
    using fulfill_future_eq(2) [OF call inner own] ready ex by (simp add: pcatch_def)
qed

theorem fulfill_promise_future_loses_error_witness:
  "fst (Future_fulfill_promise_future future_callables (\<lambda>_ h. (Throws (StdException ''x''), h)) 0 1
     Future_default two_heap) = Throws (StdFutureError 3)"
  using fulfill_promise_future_loses_error [where cbs = future_callables and f = 0 and F = Future_default
      and h = two_heap and inner = "\<lparr>delegate_future_of = Some 0, extra_state_of = Some 0\<rparr>" and b = 0
      and t = 0 and p = 1 and a = 1 and s = 1 and r = "HasV (Val 5)" and ex = "StdException ''x''"
      and fire = "\<lambda>_ h. (Throws (StdException ''x''), h)" and e = "std_errc 4"]
  by (simp add: two_heap_eq content_at_def owns_def future_callables_def pret_def std_errc_def)

end
