(* ===== verification/Future_Race.thy ===== *)
theory Future_Race
  imports Future_Then
begin

text \<open>
  \<open>then\<close> and a setter of the promise in two threads. \<open>then\<close> holds the mutex of the \<open>State\<close>, the
  setter holds the mutex of the \<open>Promise\<close>, and \<open>FireContinuation\<close> takes neither of the state: so
  their accesses to the shared state and to the two members of \<open>State\<close> interleave. Each
  step of the relation is one of these accesses.
\<close>

section \<open>States and steps\<close>

text \<open>
  The program counters: of \<open>then\<close>, after the lock, after \<open>is_ready\<close> was false, after each of the
  two assignments of \<open>SetContinuation\<close>, and before it runs the closure itself; of the setter,
  after the lock, after the store, after \<open>HasContinuation\<close> was true, and before the closure
  runs with the future taken from the state (\<open>True\<close>: it holds the shared state).
\<close>

datatype then_pc =
  Then_start | Then_locked | Then_not_ready | Then_continuation_set | Then_future_set
  | Then_run | Then_done

datatype setter_pc =
  Set_start | Set_locked | Set_stored | Set_has_continuation | Set_run bool | Set_done

text \<open>
  \<open>runs\<close> lists the runs of the continuation, each with the validity of the future it got.
  \<open>overlap\<close> is a ghost flag: the setter looked at the state while \<open>then\<close> was between its test
  of \<open>is_ready\<close> and its last assignment.
\<close>

record race =
  ready :: bool
  has_continuation :: bool
  has_future :: bool
  then_at :: then_pc
  setter_at :: setter_pc
  runs :: "bool list"
  overlap :: bool

definition in_window :: "race \<Rightarrow> bool" where
  "in_window r \<longleftrightarrow> then_at r = Then_not_ready \<or> then_at r = Then_continuation_set"

inductive race_step :: "race \<Rightarrow> race \<Rightarrow> bool" where
  then_lock: "then_at r = Then_start \<Longrightarrow> race_step r (r\<lparr>then_at := Then_locked\<rparr>)"
| then_ready: "then_at r = Then_locked \<Longrightarrow> ready r \<Longrightarrow> race_step r (r\<lparr>then_at := Then_run\<rparr>)"
| then_pending: "then_at r = Then_locked \<Longrightarrow> \<not> ready r \<Longrightarrow> race_step r (r\<lparr>then_at := Then_not_ready\<rparr>)"
| then_set_continuation: "then_at r = Then_not_ready \<Longrightarrow>
    race_step r (r\<lparr>then_at := Then_continuation_set, has_continuation := True\<rparr>)"
| then_set_future: "then_at r = Then_continuation_set \<Longrightarrow>
    race_step r (r\<lparr>then_at := Then_future_set, has_future := True\<rparr>)"
| then_unlock: "then_at r = Then_future_set \<Longrightarrow> race_step r (r\<lparr>then_at := Then_done\<rparr>)"
| then_run: "then_at r = Then_run \<Longrightarrow> race_step r (r\<lparr>then_at := Then_done, runs := runs r @ [True]\<rparr>)"
| setter_lock: "setter_at r = Set_start \<Longrightarrow> race_step r (r\<lparr>setter_at := Set_locked\<rparr>)"
| setter_store: "setter_at r = Set_locked \<Longrightarrow> race_step r (r\<lparr>setter_at := Set_stored, ready := True\<rparr>)"
| setter_none: "setter_at r = Set_stored \<Longrightarrow> \<not> has_continuation r \<Longrightarrow>
    race_step r (r\<lparr>setter_at := Set_done, overlap := overlap r \<or> in_window r\<rparr>)"
| setter_some: "setter_at r = Set_stored \<Longrightarrow> has_continuation r \<Longrightarrow>
    race_step r (r\<lparr>setter_at := Set_has_continuation, overlap := overlap r \<or> in_window r\<rparr>)"
| setter_take: "setter_at r = Set_has_continuation \<Longrightarrow>
    race_step r (r\<lparr>setter_at := Set_run (has_future r), has_future := False,
                   overlap := overlap r \<or> in_window r\<rparr>)"
| setter_run: "setter_at r = Set_run v \<Longrightarrow>
    race_step r (r\<lparr>setter_at := Set_done, runs := runs r @ [v]\<rparr>)"

definition race_init :: race where
  "race_init =
     \<lparr>ready = False, has_continuation = False, has_future = False, then_at = Then_start,
      setter_at = Set_start, runs = [], overlap = False\<rparr>"

inductive race_reachable :: "race \<Rightarrow> bool" where
  init: "race_reachable race_init"
| step: "race_reachable r \<Longrightarrow> race_step r r' \<Longrightarrow> race_reachable r'"

definition race_finished :: "race \<Rightarrow> bool" where
  "race_finished r \<longleftrightarrow> then_at r = Then_done \<and> setter_at r = Set_done"

inductive_cases race_stepE: "race_step r r'"

section \<open>Invariant\<close>

definition will_run_then :: "race \<Rightarrow> nat" where
  "will_run_then r = (if then_at r = Then_run then 1 else 0)"

definition will_run_setter :: "race \<Rightarrow> nat" where
  "will_run_setter r =
     (case setter_at r of Set_has_continuation \<Rightarrow> 1 | Set_run _ \<Rightarrow> 1 | _ \<Rightarrow> 0)"

text \<open>
  The continuation is attached only by a \<open>then\<close> that found the future pending, so at most one
  thread runs it; without overlap what a thread runs it with is valid, and nothing is
  forgotten.
\<close>

definition race_inv :: "race \<Rightarrow> bool" where
  "race_inv r \<longleftrightarrow>
     (has_continuation r \<longleftrightarrow> then_at r \<in> {Then_continuation_set, Then_future_set}
        \<or> then_at r = Then_done \<and> has_continuation r) \<and>
     (ready r \<longleftrightarrow> setter_at r \<notin> {Set_start, Set_locked}) \<and>
     (then_at r = Then_run \<longrightarrow> ready r \<and> \<not> has_continuation r) \<and>
     (setter_at r \<in> {Set_start, Set_locked, Set_stored} \<and> \<not> (then_at r = Then_done \<and> \<not> has_continuation r)
        \<longrightarrow> runs r = []) \<and>
     (will_run_setter r = 1 \<longrightarrow> has_continuation r \<and> runs r = []) \<and>
     (then_at r \<in> {Then_start, Then_locked, Then_not_ready, Then_run} \<longrightarrow> runs r = [] \<and> will_run_setter r = 0) \<and>
     length (runs r) + will_run_then r + will_run_setter r \<le> 1 \<and>
     (then_at r = Then_done \<and> \<not> has_continuation r \<longrightarrow> runs r = [True]) \<and>
     (\<not> overlap r \<longrightarrow>
        (then_at r \<in> {Then_future_set, Then_done} \<and> has_continuation r \<and>
           setter_at r \<in> {Set_start, Set_locked, Set_stored, Set_has_continuation} \<longrightarrow> has_future r) \<and>
        (\<forall>v. setter_at r = Set_run v \<longrightarrow> v) \<and>
        (in_window r \<longrightarrow> setter_at r \<in> {Set_start, Set_locked, Set_stored}) \<and>
        (setter_at r = Set_done \<and> has_continuation r \<longrightarrow> runs r = [True]))"

lemmas race_defs = race_inv_def will_run_then_def will_run_setter_def in_window_def

lemma race_inv_init: "race_inv race_init"
  by (simp add: race_defs race_init_def)

lemma race_inv_step: "race_inv r \<Longrightarrow> race_step r r' \<Longrightarrow> race_inv r'"
  by (erule race_stepE) (auto simp: race_defs split: if_splits setter_pc.splits)

lemma race_inv_reachable: "race_reachable r \<Longrightarrow> race_inv r"
  by (induction rule: race_reachable.induct) (blast intro: race_inv_init race_inv_step)+

lemma Future_race_once:
  assumes "race_reachable r"
  shows "length (runs r) \<le> 1" and "race_finished r \<and> \<not> overlap r \<longrightarrow> runs r = [True]"
  using race_inv_reachable [OF assms] by (auto simp: race_inv_def race_finished_def)

section \<open>Progress\<close>

fun then_rank :: "then_pc \<Rightarrow> nat" where
  "then_rank Then_start = 6"
| "then_rank Then_locked = 5"
| "then_rank Then_not_ready = 4"
| "then_rank Then_continuation_set = 3"
| "then_rank Then_future_set = 2"
| "then_rank Then_run = 1"
| "then_rank Then_done = 0"

fun setter_rank :: "setter_pc \<Rightarrow> nat" where
  "setter_rank Set_start = 5"
| "setter_rank Set_locked = 4"
| "setter_rank Set_stored = 3"
| "setter_rank Set_has_continuation = 2"
| "setter_rank (Set_run v) = 1"
| "setter_rank Set_done = 0"

lemma race_step_decreases:
  "race_step r r' \<Longrightarrow>
   then_rank (then_at r') + setter_rank (setter_at r') < then_rank (then_at r) + setter_rank (setter_at r)"
  by (erule race_stepE) simp_all

lemma race_step_exists:
  assumes "\<not> race_finished r"
  shows "\<exists>r'. race_step r r'"
proof (cases "then_at r = Then_done")
  case True
  with assms have "setter_at r \<noteq> Set_done" by (simp add: race_finished_def)
  then show ?thesis
    by (cases "setter_at r"; cases "has_continuation r") (blast intro: race_step.intros)+
next
  case False
  then show ?thesis
    by (cases "then_at r"; cases "ready r") (blast intro: race_step.intros)+
qed

section \<open>The properties of the interleaving\<close>

text \<open>
  In every interleaving of \<open>then\<close> with a setter the continuation runs at most once; each step
  brings the two calls nearer to their end and until then one of them can move; and when
  they have ended without the setter having looked at the state while \<open>then\<close> was between
  its test and its last assignment, the continuation has run exactly once, with a valid
  future.
\<close>

theorem Future_race_safe:
  assumes "race_reachable r"
  shows "length (runs r) \<le> 1
       \<and> (race_finished r \<and> \<not> overlap r \<longrightarrow> runs r = [True])
       \<and> (\<not> race_finished r \<longrightarrow> (\<exists>r'. race_step r r'))
       \<and> (\<forall>r'. race_step r r' \<longrightarrow> then_rank (then_at r') + setter_rank (setter_at r')
             < then_rank (then_at r) + setter_rank (setter_at r))"
  using Future_race_once [OF assms] race_step_decreases race_step_exists by blast

theorem Future_race_safe_witness:
  "length (runs (race_init\<lparr>then_at := Then_locked\<rparr>)) \<le> 1"
  using Future_race_safe [OF race_reachable.step [OF race_reachable.init race_step.then_lock]]
  by (simp add: race_init_def)

lemma reach:
  "race_reachable r \<Longrightarrow> race_step r r' \<Longrightarrow> r' = r'' \<Longrightarrow> race_reachable r''"
  using race_reachable.step by simp

lemma reach_not_ready:
  "race_reachable (race_init\<lparr>then_at := Then_not_ready, setter_at := Set_stored, ready := True\<rparr>)"
proof -
  have 1: "race_reachable (race_init\<lparr>then_at := Then_locked\<rparr>)"
    by (rule reach [OF race_reachable.init race_step.then_lock]) (simp_all add: race_init_def)
  have 2: "race_reachable (race_init\<lparr>then_at := Then_not_ready\<rparr>)"
    by (rule reach [OF 1 race_step.then_pending]) (simp_all add: race_init_def)
  have 3: "race_reachable (race_init\<lparr>then_at := Then_not_ready, setter_at := Set_locked\<rparr>)"
    by (rule reach [OF 2 race_step.setter_lock]) (simp_all add: race_init_def)
  show ?thesis
    by (rule reach [OF 3 race_step.setter_store]) (simp_all add: race_init_def)
qed

text \<open>
  The continuation can be lost: \<open>then\<close> finds the future pending, the setter stores its value
  and finds no continuation, \<open>then\<close> attaches it. Both calls return, the state is ready, the
  continuation is stored, and nothing will ever run it.
\<close>

theorem Future_race_loses_continuation:
  "\<exists>r. race_reachable r \<and> race_finished r \<and> ready r \<and> has_continuation r \<and> runs r = []
     \<and> (\<forall>r'. \<not> race_step r r')"
proof -
  let ?r = "race_init\<lparr>ready := True, has_continuation := True, has_future := True,
    then_at := Then_done, setter_at := Set_done, overlap := True\<rparr>"
  have 5: "race_reachable (race_init\<lparr>ready := True, then_at := Then_not_ready,
      setter_at := Set_done, overlap := True\<rparr>)"
    by (rule reach [OF reach_not_ready race_step.setter_none]) (simp_all add: race_init_def in_window_def)
  have 6: "race_reachable (race_init\<lparr>ready := True, has_continuation := True,
      then_at := Then_continuation_set, setter_at := Set_done, overlap := True\<rparr>)"
    by (rule reach [OF 5 race_step.then_set_continuation]) (simp_all add: race_init_def)
  have 7: "race_reachable (race_init\<lparr>ready := True, has_continuation := True, has_future := True,
      then_at := Then_future_set, setter_at := Set_done, overlap := True\<rparr>)"
    by (rule reach [OF 6 race_step.then_set_future]) (simp_all add: race_init_def)
  have "race_reachable ?r"
    by (rule reach [OF 7 race_step.then_unlock]) (simp_all add: race_init_def)
  moreover have "\<not> race_step ?r r'" for r'
    by (auto elim: race_stepE)
  ultimately show ?thesis
    by (intro exI [of _ ?r]) (simp add: race_finished_def race_init_def)
qed

text \<open>
  The continuation can be run with an invalid future: the setter finds it after the first of
  the two assignments of \<open>SetContinuation\<close> and takes the future before the second.
\<close>

theorem Future_race_invalid_future:
  "\<exists>r. race_reachable r \<and> race_finished r \<and> runs r = [False]"
proof -
  let ?r = "race_init\<lparr>ready := True, has_continuation := True, has_future := True,
    then_at := Then_done, setter_at := Set_done, runs := [False], overlap := True\<rparr>"
  have 5: "race_reachable (race_init\<lparr>ready := True, has_continuation := True,
      then_at := Then_continuation_set, setter_at := Set_stored\<rparr>)"
    by (rule reach [OF reach_not_ready race_step.then_set_continuation]) (simp_all add: race_init_def)
  have 6: "race_reachable (race_init\<lparr>ready := True, has_continuation := True,
      then_at := Then_continuation_set, setter_at := Set_has_continuation, overlap := True\<rparr>)"
    by (rule reach [OF 5 race_step.setter_some]) (simp_all add: race_init_def in_window_def)
  have 7: "race_reachable (race_init\<lparr>ready := True, has_continuation := True,
      then_at := Then_continuation_set, setter_at := Set_run False, overlap := True\<rparr>)"
    by (rule reach [OF 6 race_step.setter_take]) (simp_all add: race_init_def)
  have 8: "race_reachable (race_init\<lparr>ready := True, has_continuation := True,
      then_at := Then_continuation_set, setter_at := Set_done, runs := [False], overlap := True\<rparr>)"
    by (rule reach [OF 7 race_step.setter_run [where v = False]]) (simp_all add: race_init_def)
  have 9: "race_reachable (race_init\<lparr>ready := True, has_continuation := True, has_future := True,
      then_at := Then_future_set, setter_at := Set_done, runs := [False], overlap := True\<rparr>)"
    by (rule reach [OF 8 race_step.then_set_future]) (simp_all add: race_init_def)
  have "race_reachable ?r"
    by (rule reach [OF 9 race_step.then_unlock]) (simp_all add: race_init_def)
  then show ?thesis
    by (intro exI [of _ ?r]) (simp add: race_finished_def)
qed

end
