(* ===== verification/Heap_Invariants.thy ===== *)
theory Heap_Invariants
  imports Future_Then
begin

text \<open>
  What every operation of promises and futures keeps, whatever the callables of the user do
  with the library: which promise owns what, that a stored result is never replaced, that
  every mutex is released, and how deep continuations can nest. The locale \<open>heap_relation\<close>
  has the laws a relation between heaps has to satisfy and derives that each setter, each
  stored closure and each run of a continuation respects it; it is interpreted on three relations.
\<close>

section \<open>Well-formed heaps\<close>

text \<open>
  A promise has both of its handles or none, they are in range, no other promise has them, and
  a stored closure captures a promise that exists.
\<close>

definition links :: "('v, 'f) heap \<Rightarrow> (addr option \<times> addr option) list" where
  "links h = map (\<lambda>P. (delegate_promise P, extra_state P)) (promises h)"

definition continuations :: "('v, 'f) heap \<Rightarrow> 'f closure option list" where
  "continuations h = map unique_continuation (states h)"

fun captured :: "'f closure \<Rightarrow> addr" where
  "captured (Continuation k vd f p) = p"
| "captured (InnerContinuation vd inner p) = p"

definition linked :: "nat \<Rightarrow> nat \<Rightarrow> addr option \<times> addr option \<Rightarrow> bool" where
  "linked a s l \<longleftrightarrow>
     (case l of (None, e) \<Rightarrow> e = None | (Some b, e) \<Rightarrow> b < a \<and> (case e of None \<Rightarrow> False | Some t \<Rightarrow> t < s))"

definition unshared :: "(addr option \<times> addr option) list \<Rightarrow> bool" where
  "unshared ls \<longleftrightarrow>
     (\<forall>i < length ls. \<forall>j < length ls. i \<noteq> j \<longrightarrow>
        (fst (ls ! i) = None \<or> fst (ls ! i) \<noteq> fst (ls ! j)) \<and>
        (snd (ls ! i) = None \<or> snd (ls ! i) \<noteq> snd (ls ! j)))"

definition heap_ok :: "('v, 'f) heap \<Rightarrow> bool" where
  "heap_ok h \<longleftrightarrow>
     (\<forall>l \<in> set (links h). linked (length (shared h)) (length (states h)) l) \<and>
     unshared (links h) \<and>
     (\<forall>k. Some k \<in> set (continuations h) \<longrightarrow> captured k < length (promises h))"

lemma heap_ok_frame:
  assumes "heap_ok h" "links h' = links h" "continuations h' = continuations h"
    and "length (shared h') = length (shared h)"
  shows "heap_ok h'"
proof -
  have "length (states h') = length (states h)" "length (promises h') = length (promises h)"
    using assms(2,3) by (metis continuations_def length_map, metis links_def length_map)
  with assms show ?thesis by (simp add: heap_ok_def)
qed

lemma links_set_promise:
  "delegate_promise P = delegate_promise (promise_at h p) \<Longrightarrow> extra_state P = extra_state (promise_at h p) \<Longrightarrow>
   links (set_promise p P h) = links h"
  by (cases "p < length (promises h)")
    (simp_all add: links_def set_promise_def promise_at_def map_update list_update_beyond
      list_update_same_conv)

lemma links_simps [simp]:
  "links (locked p h) = links h" "links (unlocked p h) = links h" "links (store a c h) = links h"
  "links (attach s k df h) = links h" "links (detach s h) = links h"
  by (simp_all add: locked_def unlocked_def links_set_promise)
    (simp_all add: links_def)

lemma continuations_simps [simp]:
  "continuations (locked p h) = continuations h" "continuations (unlocked p h) = continuations h"
  "continuations (store a c h) = continuations h" "continuations (moved_promise p h) = continuations h"
  "continuations (set_promise p P h) = continuations h"
  "continuations (detach s h) = continuations h"
proof -
  show "continuations (detach s h) = continuations h"
    by (rule nth_equalityI) (simp_all add: continuations_def)
qed (simp_all add: continuations_def set_promise_def)

lemma heap_ok_simps [simp]:
  "heap_ok (locked p h) = heap_ok h" "heap_ok (unlocked p h) = heap_ok h"
  "heap_ok (store a c h) = heap_ok h" "heap_ok (detach s h) = heap_ok h"
  by (simp_all add: heap_ok_def)

lemma links_moved:
  "p < length (promises h) \<Longrightarrow> links (moved_promise p h) = (links h)[p := (None, None)] @ [links h ! p]"
  by (simp add: links_def moved_promise_def map_update)

lemma length_moved [simp]: "length (promises (moved_promise p h)) = Suc (length (promises h))"
  by (simp add: moved_promise_def)

lemma unshared_forget: "unshared ls \<Longrightarrow> unshared (ls[p := (None, None)])"
  by (cases "p < length ls") (auto simp: unshared_def nth_list_update list_update_beyond)

lemma linked_none [simp]: "linked a s (None, None)"
  by (simp add: linked_def)

lemma linked_cases:
  "linked a s l \<Longrightarrow> l = (None, None) \<or> (\<exists>b t. l = (Some b, Some t) \<and> b < a \<and> t < s)"
  by (auto simp: linked_def split: option.splits prod.splits)

lemma unshared_append:
  assumes "unshared ls"
    and "\<forall>i < length ls. (fst (ls ! i) = None \<or> fst (ls ! i) \<noteq> fst l) \<and> (snd (ls ! i) = None \<or> snd (ls ! i) \<noteq> snd l)"
  shows "unshared (ls @ [l])"
  using assms by (auto simp: unshared_def nth_append less_Suc_eq)

lemma heap_ok_moved:
  assumes ok: "heap_ok h" and p: "p < length (promises h)"
  shows "heap_ok (moved_promise p h)"
proof -
  have len: "length (links h) = length (promises h)" by (simp add: links_def)
  have lk: "linked (length (shared h)) (length (states h)) (links h ! p)"
    using ok p len by (auto simp: heap_ok_def)
  have un: "unshared (links h)" using ok by (simp add: heap_ok_def)
  have "unshared ((links h)[p := (None, None)] @ [links h ! p])"
  proof (rule unshared_append [OF unshared_forget [OF un]])
    show "\<forall>i < length ((links h)[p := (None, None)]).
        (fst ((links h)[p := (None, None)] ! i) = None \<or>
         fst ((links h)[p := (None, None)] ! i) \<noteq> fst (links h ! p)) \<and>
        (snd ((links h)[p := (None, None)] ! i) = None \<or>
         snd ((links h)[p := (None, None)] ! i) \<noteq> snd (links h ! p))"
      using un p len by (auto simp: unshared_def nth_list_update)
  qed
  then show ?thesis
    using ok p lk set_update_subset_insert [of "links h" p "(None, None)"]
    by (auto simp: heap_ok_def links_moved less_Suc_eq)
qed

lemma heap_ok_emptied:
  assumes ok: "heap_ok h"
  shows "heap_ok (set_promise p ((promise_at h p)\<lparr>delegate_promise := None, extra_state := None\<rparr>) h)"
proof -
  have "links (set_promise p ((promise_at h p)\<lparr>delegate_promise := None, extra_state := None\<rparr>) h) =
      (links h)[p := (None, None)]"
    by (simp add: links_def set_promise_def map_update)
  moreover have "unshared ((links h)[p := (None, None)])"
    using ok by (simp add: heap_ok_def unshared_forget)
  moreover have "\<forall>l \<in> set ((links h)[p := (None, None)]). linked (length (shared h)) (length (states h)) l"
    using ok set_update_subset_insert [of "links h" p "(None, None)"]
    by (auto simp: heap_ok_def dest: subsetD)
  ultimately show ?thesis
    using ok by (simp add: heap_ok_def) (simp add: set_promise_def)
qed

lemma heap_ok_promise:
  assumes "heap_ok h" "p < length (promises h)"
  obtains "delegate_promise (promise_at h p) = None" "extra_state (promise_at h p) = None"
  | a s where "delegate_promise (promise_at h p) = Some a" "extra_state (promise_at h p) = Some s"
      "a < length (shared h)" "s < length (states h)"
proof -
  have "linked (length (shared h)) (length (states h)) (links h ! p)"
    using assms by (auto simp: heap_ok_def links_def)
  then show ?thesis
    using linked_cases [of "length (shared h)" "length (states h)" "links h ! p"] assms(2) that
    by (auto simp: links_def promise_at_def)
qed

lemma heap_ok_attach:
  assumes "heap_ok h" "captured k < length (promises h)"
  shows "heap_ok (attach s k df h)"
proof -
  have "set (continuations (attach s k df h)) \<subseteq> insert (Some k) (set (continuations h))"
    using set_update_subset_insert [of "continuations h" s "Some k"]
    by (simp add: continuations_def attach_def map_update)
  with assms show ?thesis by (auto simp: heap_ok_def)
qed

section \<open>The closures of callables that return a future\<close>

text \<open>The four \<open>fulfill_promise_future\<close> functions in one: \<open>void\<close> results carry \<open>Void\<close>.\<close>

definition inner_value :: "bool \<Rightarrow> 'v res \<Rightarrow> 'v res" where
  "inner_value inner_void r = (case r of HasV v \<Rightarrow> HasV (if inner_void then Void else v) | _ \<Rightarrow> r)"

definition deliver_inner :: "('v, 'f) fire \<Rightarrow> bool \<Rightarrow> addr \<Rightarrow> Future \<Rightarrow> ('v, 'f, unit) proc" where
  "deliver_inner fire inner_void p inner h =
     (case fst (Future_GetResult inner h) of
        Ret r \<Rightarrow> settle_res fire p (inner_value inner_void r) h
      | out \<Rightarrow> (obind out (\<lambda>_. Ret ()), h))"

definition pass_on ::
  "('v, 'f) fire \<Rightarrow> bool \<Rightarrow> bool \<Rightarrow> addr \<Rightarrow> Future \<Rightarrow> ('v, 'f, unit) proc" where
  "pass_on fire vd inner_void p inner =
     (if \<not> Future_valid inner then set_error fire p (MakeErrorCode_future broken_promise 0)
      else (case extra_state_of inner of
          None \<Rightarrow> pfail Undefined
        | Some s \<Rightarrow>
            pbind (if inner_void then PV_move_ctor p else Promise_move_ctor p) (\<lambda>outer.
            pbind (Future_is_ready inner) (\<lambda>ready.
              if ready then deliver_inner fire inner_void outer inner
              else pbind (SetContinuation s (InnerContinuation vd inner_void outer) inner)
                     (\<lambda>_. pret ())))))"

definition inner_kind :: "bool \<Rightarrow> then_kind" where
  "inner_kind inner_void = (if inner_void then KFutureVoid else KFuture)"

lemma deliver_inner_eq:
  "Future_inner_continuation fire p inner = deliver_inner fire False p inner"
  "Future_inner_continuation_void fire p inner = deliver_inner fire True p inner"
  by (rule ext, simp add: Future_inner_continuation_def Future_inner_continuation_void_def FV_basic
      deliver_inner_def settle_funs settle_res_def set_error_def pfail_def inner_value_def
      split: outcome.split rslt.split)+

lemma run_inner: "run_closure cbs fire (InnerContinuation vd iv p) inner = deliver_inner fire iv p inner"
  by (cases vd; cases iv) (simp_all add: FV_inner deliver_inner_eq)

lemma run_future:
  "run_closure cbs fire (Continuation (inner_kind iv) vd f p) F =
     pcatch (pbind (on_future cbs f F) (pass_on fire vd iv p))
       (\<lambda>ex. map_option (set_error fire p) (exn_errc ex))"
  by (cases vd; cases iv)
    (simp_all cong: if_cong option.case_cong add: inner_kind_def Future_fulfill_promise_future_def Future_fulfill_promise_future_void_def
      FV_fulfill_promise_future_def FV_fulfill_promise_future_void_def FV_basic FV_catch FV_inner
      deliver_inner_eq settle_funs catch_eq pass_on_def [abs_def] move_this)

lemma kind_cases: "direct k \<or> k = inner_kind False \<or> k = inner_kind True"
  by (cases k) (simp_all add: direct_def inner_kind_def)

section \<open>Programs that respect a relation\<close>

text \<open>On a well-formed heap that satisfies \<open>A\<close>, the program keeps well-formedness and moves along \<open>R\<close>.\<close>

definition keeps ::
  "(('v, 'f) heap \<Rightarrow> ('v, 'f) heap \<Rightarrow> bool) \<Rightarrow> (('v, 'f) heap \<Rightarrow> bool) \<Rightarrow> ('v, 'f, 'a) proc \<Rightarrow> bool" where
  "keeps R A m \<longleftrightarrow> (\<forall>h. heap_ok h \<and> A h \<longrightarrow> heap_ok (snd (m h)) \<and> R h (snd (m h)))"

definition has_promise :: "addr \<Rightarrow> ('v, 'f) heap \<Rightarrow> bool" where
  "has_promise p h \<longleftrightarrow> p < length (promises h)"

definition has_state :: "addr option \<Rightarrow> ('v, 'f) heap \<Rightarrow> bool" where
  "has_state s h \<longleftrightarrow> (case s of None \<Rightarrow> True | Some t \<Rightarrow> t < length (states h))"

text \<open>User code that respects the relation whatever future it gets.\<close>

definition tame :: "(('v, 'f) heap \<Rightarrow> ('v, 'f) heap \<Rightarrow> bool) \<Rightarrow> ('v, 'f) callables \<Rightarrow> bool" where
  "tame R cbs \<longleftrightarrow>
     (\<forall>f F. keeps R (\<lambda>_. True) (on_future cbs f F) \<and> keeps R (\<lambda>_. True) (on_result cbs f F) \<and>
            keeps R (\<lambda>_. True) (on_value cbs f F) \<and> keeps R (\<lambda>_. True) (on_void cbs f F))"

lemma keepsI:
  "(\<And>h. heap_ok h \<Longrightarrow> A h \<Longrightarrow> heap_ok (snd (m h)) \<and> R h (snd (m h))) \<Longrightarrow> keeps R A m"
  by (simp add: keeps_def)

lemma keepsD:
  "keeps R A m \<Longrightarrow> heap_ok h \<Longrightarrow> A h \<Longrightarrow> heap_ok (snd (m h)) \<and> R h (snd (m h))"
  by (simp add: keeps_def)

lemma keeps_weaken: "keeps R A m \<Longrightarrow> (\<And>h. B h \<Longrightarrow> A h) \<Longrightarrow> keeps R B m"
  by (simp add: keeps_def)

locale heap_relation =
  fixes R :: "('v, 'f) heap \<Rightarrow> ('v, 'f) heap \<Rightarrow> bool"
  assumes refl: "R h h"
    and trans: "R h1 h2 \<Longrightarrow> R h2 h3 \<Longrightarrow> R h1 h3"
    and grows: "R h h' \<Longrightarrow> length (promises h) \<le> length (promises h')"
    and lock: "\<not> mutex_held (promise_at h p) \<Longrightarrow> p < length (promises h) \<Longrightarrow>
      R (locked p h) h' \<Longrightarrow> R h (unlocked p h')"
    and store: "content_at h a = Pending \<Longrightarrow> c \<noteq> Pending \<Longrightarrow> a < length (shared h) \<Longrightarrow> R h (store a c h)"
    and move: "\<not> mutex_held (promise_at h p) \<Longrightarrow> p < length (promises h) \<Longrightarrow> R h (moved_promise p h)"
    and forget: "mutex_held (promise_at h p) \<Longrightarrow> p < length (promises h) \<Longrightarrow>
      R h (set_promise p ((promise_at h p)\<lparr>delegate_promise := None, extra_state := None\<rparr>) h)"
    and attach: "R h (attach s k df h)"
    and detach: "R h (detach s h)"
begin

lemma keeps_id: "(\<And>h. snd (m h) = h) \<Longrightarrow> keeps R A m"
  by (simp add: keeps_def refl)

lemma keeps_pret: "keeps R A (pret a)"
  by (rule keeps_id) (simp add: pret_def)

lemma keeps_pfail: "keeps R A (pfail r)"
  by (rule keeps_id) (simp add: pfail_def)

lemma has_promise_step: "has_promise p h \<Longrightarrow> R h h' \<Longrightarrow> has_promise p h'"
  using grows [of h h'] by (simp add: has_promise_def)

lemma keeps_pbind:
  assumes "keeps R (has_promise p) m" "\<And>a. keeps R (has_promise p) (f a)"
  shows "keeps R (has_promise p) (pbind m f)"
proof (rule keepsI)
  fix h :: "('v, 'f) heap"
  assume h: "heap_ok h" "has_promise p h"
  obtain r h' where m: "m h = (r, h')" by force
  from keepsD [OF assms(1) h] m have h': "heap_ok h'" "R h h'" by simp_all
  then have "has_promise p h'" using has_promise_step [OF h(2)] by simp
  with keepsD [OF assms(2) h'(1)] have "heap_ok (snd (f a h')) \<and> R h' (snd (f a h'))" for a by simp
  with h' m show "heap_ok (snd (pbind m f h)) \<and> R h (snd (pbind m f h))"
    by (auto simp: pbind_def split: outcome.split intro: trans)
qed

lemma keeps_pcatch:
  assumes "keeps R (has_promise p) m" "\<And>e k. f e = Some k \<Longrightarrow> keeps R (has_promise p) k"
  shows "keeps R (has_promise p) (pcatch m f)"
proof (rule keepsI)
  fix h :: "('v, 'f) heap"
  assume h: "heap_ok h" "has_promise p h"
  obtain r h' where m: "m h = (r, h')" by force
  from keepsD [OF assms(1) h] m have h': "heap_ok h'" "R h h'" by simp_all
  then have "has_promise p h'" using has_promise_step [OF h(2)] by simp
  then have "f e = Some k \<Longrightarrow> heap_ok (snd (k h')) \<and> R h' (snd (k h'))" for e k
    using keepsD [OF assms(2) h'(1)] by blast
  with h' m show "heap_ok (snd (pcatch m f h)) \<and> R h (snd (pcatch m f h))"
    by (auto simp: pcatch_def split: outcome.split option.split intro: trans)
qed

definition keeps_fire :: "('v, 'f) fire \<Rightarrow> bool" where
  "keeps_fire fire \<longleftrightarrow> (\<forall>s. keeps R (has_state s) (fire s))"

text \<open>The setters.\<close>

lemma settle_keeps:
  assumes fire: "keeps_fire fire" and c: "c \<noteq> Pending"
  shows "keeps R (has_promise p) (settle fire p c)"
proof (rule keepsI)
  fix h :: "('v, 'f) heap"
  assume ok: "heap_ok h" and p: "has_promise p h"
  show "heap_ok (snd (settle fire p c h)) \<and> R h (snd (settle fire p c h))"
  proof (cases "mutex_held (promise_at h p)")
    case True
    then show ?thesis using ok by (simp add: settle_held refl)
  next
    case False
    let ?L = "locked p h"
    let ?m = "pbind (std_set (delegate_promise (promise_at ?L p)) c)
      (\<lambda>_ h. fire (extra_state (promise_at h p)) h)"
    have p': "p < length (promises h)" using p by (simp add: has_promise_def)
    have eq: "settle fire p c h = (fst (?m ?L), unlocked p (snd (?m ?L)))"
      using False
      by (simp add: settle_def with_lock_def locked_def unlocked_def split_def Let_def)
    have "heap_ok (snd (?m ?L)) \<and> R ?L (snd (?m ?L))"
    proof (cases "delegate_promise (promise_at ?L p)")
      case None
      then show ?thesis using ok by (simp add: std_set_def pbind_def refl)
    next
      case (Some a)
      have okL: "heap_ok ?L" using ok by simp
      from p' have pL: "p < length (promises ?L)" by simp
      obtain s where a: "a < length (shared h)" and s: "extra_state (promise_at ?L p) = Some s" "s < length (states h)"
        using heap_ok_promise [OF okL pL] Some by auto
      show ?thesis
      proof (cases "content_at h a = Pending")
        case True
        let ?S = "store a c ?L"
        have "promise_at ?S p = promise_at ?L p" by (simp add: promise_at_def)
        moreover have "heap_ok (snd (fire (Some s) ?S)) \<and> R ?S (snd (fire (Some s) ?S))"
          using fire s okL keepsD [of R "has_state (Some s)" "fire (Some s)" ?S]
          by (simp add: keeps_fire_def has_state_def)
        moreover have "R ?L ?S" by (rule store) (use True a c in simp_all)
        ultimately show ?thesis
          using Some True s(1) by (auto simp: std_set_eq pbind_def intro: trans)
      next
        case False
        then show ?thesis using Some okL by (simp add: std_set_eq pbind_def refl)
      qed
    qed
    with eq lock [OF False p'] show ?thesis by simp
  qed
qed

lemma settle_res_keeps: "keeps_fire fire \<Longrightarrow> keeps R (has_promise p) (settle_res fire p r)"
  by (auto simp: settle_res_def intro: settle_keeps keeps_pfail)

lemma set_error_keeps: "keeps_fire fire \<Longrightarrow> keeps R (has_promise p) (set_error fire p e)"
  unfolding set_error_def by (rule settle_keeps) simp_all

lemma keeps_handler:
  "keeps_fire fire \<Longrightarrow> keeps R (has_promise p) m \<Longrightarrow>
   keeps R (has_promise p) (pcatch m (\<lambda>ex. map_option (set_error fire p) (exn_errc ex)))"
  by (erule keeps_pcatch) (auto intro: set_error_keeps)

text \<open>The closures of callables that do not return a future.\<close>

lemma keeps_any: "keeps R (\<lambda>_. True) m \<Longrightarrow> keeps R A m"
  by (erule keeps_weaken) simp

lemma delivered_keeps:
  assumes "tame R cbs"
  shows "keeps R (has_promise p) (delivered cbs k f F)"
proof -
  have call: "keeps R (has_promise p) (on_result cbs f F)" "keeps R (has_promise p) (on_value cbs f F)"
    "keeps R (has_promise p) (on_void cbs f F)"
    using assms by (simp_all add: tame_def keeps_any)
  show ?thesis
    by (cases k) (auto intro!: call keeps_pbind keeps_pret keeps_pfail)
qed

lemma direct_keeps:
  assumes "tame R cbs" "keeps_fire fire" "direct k"
  shows "keeps R (has_promise p) (run_closure cbs fire (Continuation k vd f p) F)"
  unfolding run_direct [OF assms(3)]
  by (intro keeps_handler keeps_pbind delivered_keeps settle_res_keeps assms)

text \<open>The closures of callables that return one.\<close>

lemma deliver_inner_keeps:
  "keeps_fire fire \<Longrightarrow> keeps R (has_promise p) (deliver_inner fire iv p inner)"
  using settle_res_keeps [of fire p]
  by (auto simp: keeps_def deliver_inner_def refl split: outcome.split)

lemma is_ready_keeps: "keeps R A (Future_is_ready F)"
  by (rule keeps_id) (simp add: Future_is_ready_def)

lemma SetContinuation_keeps: "keeps R (has_promise (captured k)) (SetContinuation s k F)"
  using attach heap_ok_attach
  by (auto simp: keeps_def SetContinuation_def has_promise_def attach_def)

text \<open>The move constructors: what runs next works on the promise they made.\<close>

lemma moved_eq:
  assumes "\<not> mutex_held (promise_at h p)"
  shows "Promise_move_ctor p h = (Ret (length (promises h)), moved_promise p h)"
    and "PV_move_ctor p h = (Ret (length (promises h)), moved_promise p h)"
  using assms
  by (cases "promises h ! p"; simp add: promise_at_def Promise_move_ctor_def PV_move_ctor_def
      new_promise_def set_promise_def moved_promise_def)+

lemma keeps_move:
  assumes f: "\<And>q. keeps R (has_promise q) (f q)"
  shows "keeps R (has_promise p) (pbind (if iv then PV_move_ctor p else Promise_move_ctor p) f)"
proof (rule keepsI)
  fix h :: "('v, 'f) heap"
  assume h: "heap_ok h" "has_promise p h"
  let ?q = "length (promises h)" and ?mv = "if iv then PV_move_ctor p else Promise_move_ctor p"
  let ?E = "set_promise p ((promise_at h p)\<lparr>delegate_promise := None, extra_state := None\<rparr>) h"
  show "heap_ok (snd (pbind ?mv f h)) \<and> R h (snd (pbind ?mv f h))"
  proof (cases "mutex_held (promise_at h p)")
    case True
    then have "?mv h = (Blocks, if iv then ?E else h)"
      by (simp add: PV_move_ctor_def Promise_move_ctor_def)
    with True h show ?thesis
      using forget heap_ok_emptied by (auto simp: pbind_def refl has_promise_def)
  next
    case False
    have p: "p < length (promises h)" using h by (simp add: has_promise_def)
    have mv: "?mv h = (Ret ?q, moved_promise p h)"
      using moved_eq [OF False] by simp
    have "heap_ok (moved_promise p h)" "R h (moved_promise p h)" "has_promise ?q (moved_promise p h)"
      using heap_ok_moved [OF h(1) p] move [OF False p] by (simp_all add: has_promise_def moved_promise_def)
    with mv keepsD [OF f] show ?thesis by (auto simp: pbind_def intro: trans)
  qed
qed

lemma pass_on_keeps:
  assumes "keeps_fire fire"
  shows "keeps R (has_promise p) (pass_on fire vd iv p inner)"
proof -
  have "keeps R (has_promise q) (SetContinuation s (InnerContinuation vd iv q) inner)" for q s
    using SetContinuation_keeps [of "InnerContinuation vd iv q"] by simp
  then have attached: "keeps R (has_promise q) (pbind (Future_is_ready inner) (\<lambda>ready.
      if ready then deliver_inner fire iv q inner
      else pbind (SetContinuation s (InnerContinuation vd iv q) inner) (\<lambda>_. pret ())))" for q s
    by (auto intro!: keeps_pbind is_ready_keeps keeps_pret deliver_inner_keeps assms)
  show ?thesis
  proof (cases "extra_state_of inner")
    case None
    then show ?thesis by (simp add: pass_on_def set_error_keeps keeps_pfail assms)
  next
    case (Some s)
    have "keeps R (has_promise p) (pbind (if iv then PV_move_ctor p else Promise_move_ctor p)
        (\<lambda>q. pbind (Future_is_ready inner) (\<lambda>ready.
          if ready then deliver_inner fire iv q inner
          else pbind (SetContinuation s (InnerContinuation vd iv q) inner) (\<lambda>_. pret ()))))"
      by (rule keeps_move) (rule attached)
    with Some show ?thesis by (simp add: pass_on_def set_error_keeps assms)
  qed
qed

lemma closure_keeps:
  assumes "tame R cbs" "keeps_fire fire"
  shows "keeps R (has_promise (captured k)) (run_closure cbs fire k F)"
proof (cases k)
  case (Continuation kind vd f p)
  have "keeps R (has_promise p) (on_future cbs f F)" using assms(1) by (simp add: tame_def keeps_any)
  then have "keeps R (has_promise p) (pcatch (pbind (on_future cbs f F) (pass_on fire vd iv p))
      (\<lambda>ex. map_option (set_error fire p) (exn_errc ex)))" for iv
    by (intro keeps_handler keeps_pbind pass_on_keeps assms(2))
  then show ?thesis
    using kind_cases [of kind] direct_keeps [OF assms, of kind p vd f F] Continuation
    by (auto simp: run_future simp del: run_closure.simps)
next
  case (InnerContinuation vd iv p)
  then show ?thesis using deliver_inner_keeps [OF assms(2)] by (simp add: run_inner del: run_closure.simps)
qed

lemma keeps_fire_within:
  assumes "tame R cbs"
  shows "keeps_fire (fire_within cbs n)"
proof (induction n)
  case 0
  show ?case by (simp add: keeps_fire_def keeps_pfail)
next
  case (Suc n)
  have "heap_ok (snd (fire_within cbs (Suc n) t h)) \<and> R h (snd (fire_within cbs (Suc n) t h))"
    if h: "heap_ok h" "has_state t h" for t and h :: "('v, 'f) heap"
  proof (cases t)
    case None
    with h show ?thesis by (simp add: FireContinuation_eq refl)
  next
    case (Some s)
    show ?thesis
    proof (cases "unique_continuation (states h ! s)")
      case None
      with h Some show ?thesis by (simp add: FireContinuation_eq refl)
    next
      case k: (Some k)
      let ?F = "\<lparr>delegate_future_of = delegate_future (states h ! s), extra_state_of = Some s\<rparr>"
      have "s < length (states h)" using h Some by (simp add: has_state_def)
      then have "Some k \<in> set (continuations h)"
        using k by (force simp: continuations_def in_set_conv_nth)
      then have "has_promise (captured k) (detach s h)"
        using h(1) by (auto simp: heap_ok_def has_promise_def)
      then have "heap_ok (snd (run_closure cbs (fire_within cbs n) k ?F (detach s h))) \<and>
          R (detach s h) (snd (run_closure cbs (fire_within cbs n) k ?F (detach s h)))"
        using keepsD [OF closure_keeps [OF assms Suc]] h(1) by simp
      with Some fire_some [OF k] show ?thesis by (auto intro: trans detach simp del: fire_within.simps)
    qed
  qed
  then show ?case by (simp add: keeps_fire_def keeps_def del: fire_within.simps)
qed

end

end
