(* ===== verification/Heap_Steps.thy ===== *)
theory Heap_Steps
  imports Heap_Invariants
begin

text \<open>
  Programs that use promises and futures through their members only, as runs of a step relation
  with one rule per member that changes the heap; and what holds along every run: ownership,
  released mutexes, and results that are never replaced.
\<close>

section \<open>Steps of a client\<close>

text \<open>
  A destroyed promise must not be in use: its mutex is free. The outcome of a member does not
  matter; when it blocks or is undefined the run simply ends.
\<close>

inductive client_step ::
  "('v, 'f) callables \<Rightarrow> nat \<Rightarrow> ('v, 'f) heap \<Rightarrow> ('v, 'f) heap \<Rightarrow> bool" for cbs n where
  ctor: "client_step cbs n h (snd (Promise_ctor h))"
| dtor: "has_promise p h \<Longrightarrow> \<not> mutex_held (promise_at h p) \<Longrightarrow> client_step cbs n h (Promise_dtor p h)"
| move_ctor: "has_promise p h \<Longrightarrow> client_step cbs n h (snd (Promise_move_ctor p h))"
| move_assign: "has_promise p h \<Longrightarrow> has_promise q h \<Longrightarrow> client_step cbs n h (snd (Promise_move_assign p q h))"
| swap: "has_promise p h \<Longrightarrow> has_promise q h \<Longrightarrow> client_step cbs n h (snd (Promise_swap p q h))"
| get_future: "has_promise p h \<Longrightarrow> client_step cbs n h (snd (Promise_get_future p h))"
| set_value: "has_promise p h \<Longrightarrow> client_step cbs n h (snd (Promise_set_value_lvalue (fire_within cbs n) p v h))"
| set_value_rvalue: "has_promise p h \<Longrightarrow> client_step cbs n h (snd (Promise_set_value_rvalue (fire_within cbs n) p v h))"
| SetError: "has_promise p h \<Longrightarrow> client_step cbs n h (snd (Promise_SetError_lvalue (fire_within cbs n) p e h))"
| SetError_rvalue: "has_promise p h \<Longrightarrow> client_step cbs n h (snd (Promise_SetError_rvalue (fire_within cbs n) p e h))"
| set_exception: "has_promise p h \<Longrightarrow> client_step cbs n h (snd (Promise_set_exception (fire_within cbs n) p ex h))"
| "then": "client_step cbs n h (snd (Future_then cbs (fire_within cbs n) k f F h))"
| PV_ctor: "client_step cbs n h (snd (PV_ctor h))"
| PV_dtor: "has_promise p h \<Longrightarrow> \<not> mutex_held (promise_at h p) \<Longrightarrow> client_step cbs n h (PV_dtor p h)"
| PV_move_ctor: "has_promise p h \<Longrightarrow> client_step cbs n h (snd (PV_move_ctor p h))"
| PV_move_assign: "has_promise p h \<Longrightarrow> has_promise q h \<Longrightarrow> client_step cbs n h (snd (PV_move_assign p q h))"
| PV_swap: "has_promise p h \<Longrightarrow> has_promise q h \<Longrightarrow> client_step cbs n h (snd (PV_swap p q h))"
| PV_get_future: "has_promise p h \<Longrightarrow> client_step cbs n h (snd (PV_get_future p h))"
| PV_set_value: "has_promise p h \<Longrightarrow> client_step cbs n h (snd (PV_set_value (fire_within cbs n) p h))"
| PV_SetError: "has_promise p h \<Longrightarrow> client_step cbs n h (snd (PV_SetError_lvalue (fire_within cbs n) p e h))"
| PV_SetError_rvalue: "has_promise p h \<Longrightarrow> client_step cbs n h (snd (PV_SetError_rvalue (fire_within cbs n) p e h))"
| PV_set_exception: "has_promise p h \<Longrightarrow> client_step cbs n h (snd (PV_set_exception (fire_within cbs n) p ex h))"
| FV_then: "client_step cbs n h (snd (FV_then cbs (fire_within cbs n) k f F h))"

definition empty_heap :: "('v, 'f) heap" where
  "empty_heap = \<lparr>shared = [], states = [], promises = []\<rparr>"

section \<open>Well-formedness of the members that create and destroy\<close>

lemma heap_ok_empty: "heap_ok empty_heap"
  by (simp add: heap_ok_def empty_heap_def links_def continuations_def unshared_def)

lemma heap_ok_create:
  assumes ok: "heap_ok h"
  shows "heap_ok (snd (Promise_ctor h))"
proof -
  let ?h = "snd (Promise_ctor h)" and ?l = "(Some (length (shared h)), Some (length (states h)))"
  have links: "links ?h = links h @ [?l]" and conts: "continuations ?h = continuations h @ [None]"
    and len: "length (shared ?h) = Suc (length (shared h))" "length (states ?h) = Suc (length (states h))"
      "length (promises ?h) = Suc (length (promises h))"
    by (simp_all add: Promise_ctor_def pbind_def new_shared_def State_ctor_def new_promise_def
        links_def continuations_def)
  have lk: "linked (length (shared h)) (length (states h)) l" if "l \<in> set (links h)" for l
    using ok that by (simp add: heap_ok_def)
  have "unshared (links h @ [?l])"
  proof (rule unshared_append)
    show "unshared (links h)" using ok by (simp add: heap_ok_def)
    show "\<forall>i < length (links h). (fst (links h ! i) = None \<or> fst (links h ! i) \<noteq> fst ?l) \<and>
        (snd (links h ! i) = None \<or> snd (links h ! i) \<noteq> snd ?l)"
      using linked_cases [OF lk [OF nth_mem]] by fastforce
  qed
  moreover have "linked (Suc a) (Suc s) l" if "linked a s l" for a s l
    using linked_cases [OF that] by (auto simp: linked_def)
  ultimately show ?thesis
    using ok by (auto simp: heap_ok_def links conts len linked_def less_Suc_eq)
qed

lemma heap_ok_shared:
  assumes "heap_ok h" "length (shared h') = length (shared h)" "states h' = states h" "promises h' = promises h"
  shows "heap_ok h'"
  using assms by (intro heap_ok_frame [OF assms(1)]) (simp_all add: links_def continuations_def)

lemma abandon_simps [simp]:
  "length (shared (std_abandon d h)) = length (shared h)" "states (std_abandon d h) = states h"
  "promises (std_abandon d h) = promises h"
  by (simp_all add: std_abandon_def split: option.split)

lemma heap_ok_abandon: "heap_ok h \<Longrightarrow> heap_ok (std_abandon d h)"
  by (erule heap_ok_shared) simp_all

text \<open>Exchanging or moving the handles of two promises.\<close>

lemma unshared_swap:
  assumes "unshared ls" "p < length ls" "q < length ls"
  shows "unshared (ls[p := ls ! q, q := ls ! p])"
  using assms by (auto simp: unshared_def nth_list_update)

lemma heap_ok_links:
  assumes ok: "heap_ok h" and "unshared (links h')" and "set (links h') \<subseteq> insert (None, None) (set (links h))"
    and "states h' = states h" "shared h' = shared h" "length (promises h') = length (promises h)"
  shows "heap_ok h'"
proof -
  have "continuations h' = continuations h" using assms(4) by (simp add: continuations_def)
  moreover have "\<forall>l \<in> set (links h'). linked (length (shared h)) (length (states h)) l"
    using ok assms(3) by (auto simp: heap_ok_def dest: subsetD)
  ultimately show ?thesis using assms by (simp add: heap_ok_def)
qed

lemma links_set:
  "links (set_promise p P h) = (links h)[p := (delegate_promise P, extra_state P)]"
  by (simp add: links_def set_promise_def map_update)

lemma links_nth: "p < length (promises h) \<Longrightarrow> links h ! p = (delegate_promise (promise_at h p), extra_state (promise_at h p))"
  by (simp add: links_def promise_at_def)

lemma set_promise_simps [simp]:
  "shared (set_promise p P h) = shared h" "states (set_promise p P h) = states h"
  "length (promises (set_promise p P h)) = length (promises h)"
  by (simp_all add: set_promise_def)

lemma links_length [simp]: "length (links h) = length (promises h)"
  by (simp add: links_def)

lemma heap_ok_forget:
  assumes "heap_ok h"
  shows "heap_ok (set_promise p \<lparr>delegate_promise = None, extra_state = None, mutex_held = m\<rparr> h)"
proof (rule heap_ok_links [OF assms])
  show "unshared (links (set_promise p \<lparr>delegate_promise = None, extra_state = None, mutex_held = m\<rparr> h))"
    using assms by (simp add: links_set unshared_forget heap_ok_def)
  show "set (links (set_promise p \<lparr>delegate_promise = None, extra_state = None, mutex_held = m\<rparr> h))
      \<subseteq> insert (None, None) (set (links h))"
    by (simp add: links_set set_update_subset_insert)
qed simp_all

lemma heap_ok_exchange:
  assumes ok: "heap_ok h" and p: "p < length (promises h)" and q: "q < length (promises h)"
    and h': "links h' = (links h)[p := links h ! q, q := l]" "l = links h ! p \<or> l = (None, None)"
    and "states h' = states h" "shared h' = shared h" "length (promises h') = length (promises h)"
  shows "heap_ok h'"
proof (rule heap_ok_links [OF ok])
  have un: "unshared ((links h)[p := links h ! q, q := links h ! p])"
    using ok p q by (simp add: heap_ok_def unshared_swap)
  from unshared_forget [OF un, of q] un h' show "unshared (links h')" by auto
  show "set (links h') \<subseteq> insert (None, None) (set (links h))"
    using h' p q set_update_subset_insert [of "(links h)[p := links h ! q]" q l]
      set_update_subset_insert [of "links h" p "links h ! q"] by fastforce
qed (use assms in simp_all)

lemma promise_at_other [simp]: "p \<noteq> q \<Longrightarrow> promise_at (set_promise p P h) q = promise_at h q"
  by (simp add: promise_at_def set_promise_def)

lemma heap_ok_swap:
  assumes "heap_ok h" "p < length (promises h)" "q < length (promises h)"
  shows "heap_ok (snd (Promise_swap p q h))"
proof (cases "p = q \<or> mutex_held (promise_at h p) \<or> mutex_held (promise_at h q)")
  case True
  with assms show ?thesis by (simp add: Promise_swap_def with_locks_def)
next
  case False
  then show ?thesis
    by (intro heap_ok_exchange [OF assms, of _ "links h ! p"])
      (use assms in \<open>simp_all add: Promise_swap_def with_locks_def links_set links_nth\<close>)
qed

lemma heap_ok_move_assign:
  assumes "heap_ok h" "p < length (promises h)" "q < length (promises h)"
  shows "heap_ok (snd (Promise_move_assign p q h))"
proof (cases "p = q \<or> mutex_held (promise_at h p) \<or> mutex_held (promise_at h q)")
  case True
  with assms show ?thesis by (auto simp: Promise_move_assign_def with_locks_def)
next
  case False
  let ?A = "std_abandon (delegate_promise (promise_at h p)) h"
  have "promise_at ?A r = promise_at h r" "links ?A = links h" for r
    by (simp_all add: promise_at_def links_def)
  with False show ?thesis
    by (intro heap_ok_exchange [OF heap_ok_abandon [OF assms(1)], of p _ q _ "(None, None)"])
      (use assms in \<open>simp_all add: Promise_move_assign_def with_locks_def links_set links_nth\<close>)
qed

lemma heap_ok_get_future:
  assumes "heap_ok h"
  shows "heap_ok (snd (Promise_get_future p h))"
  by (rule heap_ok_shared [OF assms])
    (simp_all add: Promise_get_future_def pbind_def std_get_future_def pret_def split: option.split)

lemma heap_ok_dtor: "heap_ok h \<Longrightarrow> heap_ok (Promise_dtor p h)"
  by (simp add: Promise_dtor_def heap_ok_forget heap_ok_abandon)

section \<open>Every step respects the relation\<close>

locale heap_growth = heap_relation R for R :: "('v, 'f) heap \<Rightarrow> ('v, 'f) heap \<Rightarrow> bool" +
  assumes create: "R h (snd (Promise_ctor h))"
    and destroy: "p < length (promises h) \<Longrightarrow> \<not> mutex_held (promise_at h p) \<Longrightarrow> R h (Promise_dtor p h)"
    and assign: "p < length (promises h) \<Longrightarrow> q < length (promises h) \<Longrightarrow> R h (snd (Promise_move_assign p q h))"
    and exchange: "p < length (promises h) \<Longrightarrow> q < length (promises h) \<Longrightarrow> R h (snd (Promise_swap p q h))"
    and retrieve: "R h (snd (Promise_get_future p h))"
begin

lemma spawn_steps:
  "spawn h = moved_promise (length (promises h))
     (snd (Promise_get_future (length (promises h)) (snd (Promise_ctor h))))"
  by (cases h) (simp add: Promise_ctor_def pbind_def new_shared_def State_ctor_def new_promise_def
      Promise_get_future_def std_get_future_def promise_at_def pret_def moved_promise_def spawn_def nth_append)

lemma spawn_respects:
  assumes "heap_ok h"
  shows "heap_ok (spawn h) \<and> R h (spawn h)"
proof -
  let ?p = "length (promises h)" and ?c = "snd (Promise_ctor h)"
  let ?g = "snd (Promise_get_future ?p ?c)"
  have p: "?p < length (promises ?g)" "\<not> mutex_held (promise_at ?g ?p)"
    by (simp_all add: Promise_ctor_def pbind_def new_shared_def State_ctor_def new_promise_def
        Promise_get_future_def std_get_future_def promise_at_def pret_def nth_append)
  have "R h ?c" "R ?c ?g" "R ?g (spawn h)"
    using create retrieve move [OF p(2,1)] by (simp_all add: spawn_steps)
  moreover have "heap_ok (spawn h)"
    unfolding spawn_steps by (intro heap_ok_moved p heap_ok_get_future heap_ok_create assms)
  ultimately show ?thesis by (blast intro: trans)
qed

lemma then_keeps:
  assumes "tame R cbs" "keeps_fire fire"
  shows "keeps R (\<lambda>_. True) (then_generic cbs fire k vd f F)"
proof (rule keepsI)
  fix h :: "('v, 'f) heap"
  assume ok: "heap_ok h"
  show "heap_ok (snd (then_generic cbs fire k vd f F h)) \<and> R h (snd (then_generic cbs fire k vd f F h))"
  proof (cases "extra_state_of F")
    case None
    with ok show ?thesis by (simp add: then_generic_def refl)
  next
    case (Some s)
    let ?q = "next_promise h"
    let ?m = "pbind (Future_is_ready F) (\<lambda>ready.
            if ready
            then pbind (run_closure cbs fire (Continuation k vd f ?q) F)
                   (\<lambda>_. pret (next_future h, Future_default))
            else pbind (SetContinuation s (Continuation k vd f ?q) F)
                   (\<lambda>this'. pret (next_future h, this')))"
    have "keeps R (has_promise ?q) (run_closure cbs fire (Continuation k vd f ?q) F)"
      "keeps R (has_promise ?q) (SetContinuation s (Continuation k vd f ?q) F)"
      using closure_keeps [OF assms, of "Continuation k vd f ?q"]
        SetContinuation_keeps [of "Continuation k vd f ?q"] by (simp_all del: run_closure.simps)
    then have "keeps R (has_promise ?q) ?m"
      by (auto intro!: keeps_pbind is_ready_keeps keeps_pret simp del: run_closure.simps)
    moreover have "has_promise ?q (spawn h)" by (simp add: has_promise_def next_promise_def spawn_simps)
    ultimately have "heap_ok (snd (?m (spawn h))) \<and> R (spawn h) (snd (?m (spawn h)))"
      using spawn_respects [OF ok] by (blast dest: keepsD)
    with spawn_respects [OF ok] Some show ?thesis
      by (auto simp: then_generic_def intro: trans simp del: run_closure.simps)
  qed
qed

lemma setter_keeps:
  "keeps_fire fire \<Longrightarrow> c \<noteq> Pending \<Longrightarrow> heap_ok h \<Longrightarrow> has_promise p h \<Longrightarrow>
   heap_ok (snd (settle fire p c h)) \<and> R h (snd (settle fire p c h))"
  by (blast dest: keepsD settle_keeps)

lemma move_keeps:
  assumes "heap_ok h" "has_promise p h"
  shows "heap_ok (snd (Promise_move_ctor p h)) \<and> R h (snd (Promise_move_ctor p h))"
    and "heap_ok (snd (PV_move_ctor p h)) \<and> R h (snd (PV_move_ctor p h))"
proof -
  have unit: "pbind m pret h = m h" for m :: "('v, 'f, addr) proc"
    by (simp add: pbind_def pret_def split: prod.split outcome.split)
  have *: "heap_ok (snd (pbind (if iv then PV_move_ctor p else Promise_move_ctor p) pret h)) \<and>
      R h (snd (pbind (if iv then PV_move_ctor p else Promise_move_ctor p) pret h))" for iv
    by (rule keepsD [OF keeps_move [of pret p iv, OF keeps_pret] assms])
  show "heap_ok (snd (Promise_move_ctor p h)) \<and> R h (snd (Promise_move_ctor p h))"
    and "heap_ok (snd (PV_move_ctor p h)) \<and> R h (snd (PV_move_ctor p h))"
    using * [of False] * [of True] by (simp_all add: unit)
qed

lemma client_step_respects:
  assumes "client_step cbs n h h'" "tame R cbs" "heap_ok h"
  shows "heap_ok h' \<and> R h h'"
proof -
  note fire = keeps_fire_within [OF assms(2)]
  have set: "heap_ok (snd (settle (fire_within cbs n) p c h))" "R h (snd (settle (fire_within cbs n) p c h))"
    if "p < length (promises h)" "c \<noteq> Pending" for p c
    using setter_keeps [OF fire that(2) assms(3)] that(1) by (simp_all add: has_promise_def)
  have mv: "heap_ok (snd (Promise_move_ctor p h))" "R h (snd (Promise_move_ctor p h))"
    "heap_ok (snd (PV_move_ctor p h))" "R h (snd (PV_move_ctor p h))" if "p < length (promises h)" for p
    using move_keeps [OF assms(3)] that by (simp_all add: has_promise_def)
  have thn: "heap_ok (snd (then_generic cbs (fire_within cbs n) k vd f F h))"
    "R h (snd (then_generic cbs (fire_within cbs n) k vd f F h))" for k vd f F
    using keepsD [OF then_keeps [OF assms(2) fire] assms(3)] by simp_all
  from assms(1) show ?thesis
    by cases
      (simp_all add: settle_cases PV_basic then_overloads has_promise_def set create destroy assign
        exchange retrieve thn mv heap_ok_create heap_ok_dtor heap_ok_swap heap_ok_move_assign
        heap_ok_get_future assms(3))
qed

lemma client_run_respects:
  assumes "(client_step cbs n)\<^sup>*\<^sup>* h h'" "tame R cbs" "heap_ok h"
  shows "heap_ok h' \<and> R h h'"
  using assms(1)
proof induction
  case base
  with assms(3) show ?case by (simp add: refl)
next
  case (step h1 h2)
  then show ?case using client_step_respects [OF step(2) assms(2)] by (blast intro: trans)
qed

text \<open>Callables that only use the members are tame in turn.\<close>

lemma tame_by_steps:
  assumes "tame R cbs'"
    and "\<forall>f F h. (client_step cbs' n)\<^sup>*\<^sup>* h (snd (on_future cbs f F h))"
    and "\<forall>f F h. (client_step cbs' n)\<^sup>*\<^sup>* h (snd (on_result cbs f F h))"
    and "\<forall>f F h. (client_step cbs' n)\<^sup>*\<^sup>* h (snd (on_value cbs f F h))"
    and "\<forall>f F h. (client_step cbs' n)\<^sup>*\<^sup>* h (snd (on_void cbs f F h))"
  shows "tame R cbs"
  unfolding tame_def keeps_def using client_run_respects [OF _ assms(1)] assms(2-5) by blast

end

lemma nth_updated: "i < length xs \<Longrightarrow> xs[j := x] ! i = (if i = j then x else xs ! i)"
  by simp

section \<open>Results are never replaced\<close>

definition results_kept :: "('v, 'f) heap \<Rightarrow> ('v, 'f) heap \<Rightarrow> bool" where
  "results_kept h h' \<longleftrightarrow>
     length (promises h) \<le> length (promises h') \<and> length (shared h) \<le> length (shared h') \<and>
     (\<forall>a < length (shared h).
        (content_at h a \<noteq> Pending \<longrightarrow> content_at h' a = content_at h a) \<and>
        (retrieved (shared h ! a) \<longrightarrow> retrieved (shared h' ! a)))"

lemma results_kept_same:
  "length (promises h) \<le> length (promises h') \<Longrightarrow> shared h' = shared h \<Longrightarrow> results_kept h h'"
  by (simp add: results_kept_def content_at_def)

lemma results_kept_trans: "results_kept h1 h2 \<Longrightarrow> results_kept h2 h3 \<Longrightarrow> results_kept h1 h3"
  by (fastforce simp: results_kept_def)

lemma results_kept_store: "content_at h a = Pending \<Longrightarrow> results_kept h (store a c h)"
  by (cases "a < length (shared h)")
    (auto simp: results_kept_def content_at_def store_def nth_list_update list_update_beyond)

lemma results_kept_abandon: "results_kept h (std_abandon d h)"
proof (cases d)
  case None
  then show ?thesis by (simp add: std_abandon_def results_kept_same)
next
  case (Some a)
  then have "std_abandon d h = (if content_at h a = Pending
      then store a (StoredException (StdFutureError future_errc_broken_promise)) h else h)"
    by (simp add: std_abandon_def content_at_def store_def)
  then show ?thesis by (simp add: results_kept_store results_kept_same)
qed

interpretation results: heap_growth "results_kept :: ('v, 'f) heap \<Rightarrow> ('v, 'f) heap \<Rightarrow> bool"
proof
  fix h h' :: "('v, 'f) heap" and p q a s :: addr and c :: "'v content" and k :: "'f closure" and df
  show "results_kept (locked p h) h' \<Longrightarrow> results_kept h (unlocked p h')"
    by (simp add: results_kept_def)
  show "content_at h a = Pending \<Longrightarrow> results_kept h (store a c h)"
    by (rule results_kept_store)
  show "results_kept h (snd (Promise_ctor h))"
    by (simp add: results_kept_def Promise_ctor_def pbind_def new_shared_def State_ctor_def
        new_promise_def content_at_def nth_append)
  show "results_kept h (Promise_dtor p h)"
    by (rule results_kept_trans [OF results_kept_abandon results_kept_same]) (simp_all add: Promise_dtor_def)
  show "results_kept h (snd (Promise_move_assign p q h))"
  proof (cases "p = q \<or> mutex_held (promise_at h p) \<or> mutex_held (promise_at h q)")
    case True
    then show ?thesis by (auto simp: Promise_move_assign_def with_locks_def results_kept_same)
  next
    case False
    then show ?thesis
      by (intro results_kept_trans [OF results_kept_abandon results_kept_same])
        (simp_all add: Promise_move_assign_def with_locks_def)
  qed
  show "results_kept h (snd (Promise_swap p q h))"
    by (simp add: Promise_swap_def with_locks_def results_kept_same)
  show "results_kept h (snd (Promise_get_future p h))"
    by (auto simp: Promise_get_future_def pbind_def std_get_future_def pret_def results_kept_def
        content_at_def nth_updated split: option.split)
qed (auto intro: results_kept_trans results_kept_same simp: results_kept_def moved_promise_def content_at_def)

section \<open>Mutexes are released\<close>

text \<open>A mutex that was free is free again, one that was held still is, and new ones are free.\<close>

definition mutexes_kept :: "('v, 'f) heap \<Rightarrow> ('v, 'f) heap \<Rightarrow> bool" where
  "mutexes_kept h h' \<longleftrightarrow>
     length (promises h) \<le> length (promises h') \<and>
     (\<forall>p < length (promises h'). mutex_held (promises h' ! p) \<longleftrightarrow>
        p < length (promises h) \<and> mutex_held (promises h ! p))"

lemma mutexes_kept_same: "promises h' = promises h \<Longrightarrow> mutexes_kept h h'"
  by (simp add: mutexes_kept_def)

lemma mutexes_kept_trans: "mutexes_kept h1 h2 \<Longrightarrow> mutexes_kept h2 h3 \<Longrightarrow> mutexes_kept h1 h3"
  by (fastforce simp: mutexes_kept_def)

lemma mutexes_kept_set:
  "mutex_held P = mutex_held (promise_at h p) \<Longrightarrow> mutexes_kept h (set_promise p P h)"
  by (auto simp: mutexes_kept_def set_promise_def promise_at_def nth_updated)

interpretation mutexes: heap_growth "mutexes_kept :: ('v, 'f) heap \<Rightarrow> ('v, 'f) heap \<Rightarrow> bool"
proof
  fix h h' :: "('v, 'f) heap" and p q a s :: addr and c :: "'v content" and k :: "'f closure" and df
  show "mutexes_kept h (unlocked p h')"
    if "\<not> mutex_held (promise_at h p)" "p < length (promises h)" "mutexes_kept (locked p h) h'"
    using that by (auto simp: mutexes_kept_def unlocked_def locked_def set_promise_def promise_at_def
        nth_list_update)
  show "mutexes_kept h (moved_promise p h)" if "\<not> mutex_held (promise_at h p)" "p < length (promises h)"
    using that by (auto simp: mutexes_kept_def moved_promise_def promise_at_def nth_append nth_list_update)
  show "mutexes_kept h (set_promise p ((promise_at h p)\<lparr>delegate_promise := None, extra_state := None\<rparr>) h)"
    by (rule mutexes_kept_set) simp
  show "mutexes_kept h (snd (Promise_ctor h))"
    by (simp add: mutexes_kept_def Promise_ctor_def pbind_def new_shared_def State_ctor_def
        new_promise_def nth_append)
  show "mutexes_kept h (Promise_dtor p h)" if "\<not> mutex_held (promise_at h p)"
    using that by (auto simp: Promise_dtor_def mutexes_kept_def set_promise_def promise_at_def nth_updated)
  show "mutexes_kept h (snd (Promise_move_assign p q h))"
    by (auto simp: Promise_move_assign_def with_locks_def mutexes_kept_def set_promise_def promise_at_def
        nth_updated)
  show "mutexes_kept h (snd (Promise_swap p q h))"
    by (auto simp: Promise_swap_def with_locks_def mutexes_kept_def set_promise_def promise_at_def
        nth_updated)
  show "mutexes_kept h (snd (Promise_get_future p h))"
    by (rule mutexes_kept_same)
      (simp add: Promise_get_future_def pbind_def std_get_future_def pret_def split: option.split)
qed (auto intro: mutexes_kept_trans mutexes_kept_same simp: mutexes_kept_def)

section \<open>The properties of every run\<close>

text \<open>
  A callable for the examples: it makes a promise of its own and sets it.
\<close>

definition busy_callables :: "(int, int) callables" where
  "busy_callables = add_callables
     \<lparr>on_void := (\<lambda>f F. pbind Promise_ctor (\<lambda>q. Promise_set_value_lvalue (fire_within add_callables 1) q (Val f)))\<rparr>"

lemma add_tame:
  assumes "heap_growth R"
  shows "tame R add_callables"
  using heap_relation.refl [OF heap_growth.axioms(1) [OF assms]]
  by (simp add: tame_def add_callables_def keeps_def pret_def)

lemma busy_tame:
  assumes "heap_growth R"
  shows "tame R busy_callables"
proof -
  note rel = heap_growth.axioms(1) [OF assms]
  note fire = heap_relation.keeps_fire_within [OF rel add_tame [OF assms]]
  have "keeps R (\<lambda>_. True) (pbind Promise_ctor (\<lambda>q. Promise_set_value_lvalue (fire_within add_callables 1) q (Val f)))" for f
  proof (rule keepsI)
    fix h :: "(int, int) heap"
    assume ok: "heap_ok h"
    let ?c = "snd (Promise_ctor h)" and ?q = "length (promises h)"
    have c: "Promise_ctor h = (Ret ?q, ?c)" and q: "has_promise ?q ?c"
      by (simp_all add: Promise_ctor_def pbind_def new_shared_def State_ctor_def new_promise_def has_promise_def)
    show "heap_ok (snd (pbind Promise_ctor (\<lambda>q. Promise_set_value_lvalue (fire_within add_callables 1) q (Val f)) h)) \<and>
        R h (snd (pbind Promise_ctor (\<lambda>q. Promise_set_value_lvalue (fire_within add_callables 1) q (Val f)) h))"
      unfolding pbind_Ret [where m = Promise_ctor, OF c] settle_cases
      using heap_growth.setter_keeps [OF assms fire _ heap_ok_create [OF ok] q, of "Stored (HasV (Val f))" 1]
        heap_relation.trans [OF rel heap_growth.create [OF assms]] by blast
  qed
  with add_tame [OF assms] show ?thesis by (simp add: tame_def busy_callables_def)
qed

text \<open>
  C5. In every heap a program reaches through the members of promises and futures, with callables
  that leave mutexes as they found them, no mutex is held, and a promise either has no
  handle (it was moved from or destroyed) or owns its shared state and its continuation
  state alone; every stored closure captures a promise that exists.
\<close>

theorem Promise_heap_invariant:
  assumes run: "(client_step cbs n)\<^sup>*\<^sup>* empty_heap h" and cbs: "tame mutexes_kept cbs"
  shows "(\<forall>p < length (promises h).
            \<not> mutex_held (promise_at h p) \<and>
            (delegate_promise (promise_at h p) = None \<and> extra_state (promise_at h p) = None \<or>
             (\<exists>a s. owns h p a s \<and> (\<forall>q b t. owns h q b t \<and> q \<noteq> p \<longrightarrow> b \<noteq> a \<and> t \<noteq> s))))
       \<and> (\<forall>s < length (states h). \<forall>k. unique_continuation (states h ! s) = Some k \<longrightarrow>
            captured k < length (promises h))"
proof -
  have ok: "heap_ok h" and m: "mutexes_kept empty_heap h"
    using mutexes.client_run_respects [OF run cbs heap_ok_empty] by simp_all
  have free: "\<not> mutex_held (promise_at h p)" if "p < length (promises h)" for p
    using m that by (simp add: mutexes_kept_def empty_heap_def promise_at_def)
  have own: "delegate_promise (promise_at h p) = None \<and> extra_state (promise_at h p) = None \<or>
      (\<exists>a s. owns h p a s \<and> (\<forall>q b t. owns h q b t \<and> q \<noteq> p \<longrightarrow> b \<noteq> a \<and> t \<noteq> s))"
    if p: "p < length (promises h)" for p
    using heap_ok_promise [OF ok p]
  proof cases
    case 1
    then show ?thesis by simp
  next
    case (2 a s)
    then have "owns h p a s" using free [OF p] p by (simp add: owns_def promise_at_def)
    moreover have "b \<noteq> a \<and> t \<noteq> s" if q: "owns h q b t" "q \<noteq> p" for q b t
    proof -
      have un: "unshared (links h)" using ok by (simp add: heap_ok_def)
      have "links h ! q = (Some b, Some t)" "links h ! p = (Some a, Some s)" "q < length (links h)"
        using q 2 p by (simp_all add: links_nth owns_def promise_at_def)
      with un p q(2) show ?thesis unfolding unshared_def by (metis fst_conv links_length option.distinct(1) snd_conv)
    qed
    ultimately show ?thesis by blast
  qed
  have "captured k < length (promises h)"
    if "s < length (states h)" "unique_continuation (states h ! s) = Some k" for s k
    using ok that by (force simp: heap_ok_def continuations_def in_set_conv_nth)
  with free own show ?thesis by blast
qed

definition busy_heap :: "(int, int) heap" where
  "busy_heap = snd (Promise_set_value_lvalue (fire_within busy_callables 2) 0 (Val 5) (snd (Promise_ctor empty_heap)))"

lemma busy_run: "(client_step busy_callables 2)\<^sup>*\<^sup>* empty_heap busy_heap"
proof -
  have "has_promise 0 (snd (Promise_ctor empty_heap))"
    by (simp add: has_promise_def Promise_ctor_def pbind_def new_shared_def State_ctor_def new_promise_def)
  then have "client_step busy_callables 2 (snd (Promise_ctor empty_heap)) busy_heap"
    unfolding busy_heap_def by (rule client_step.set_value)
  moreover have "client_step busy_callables 2 empty_heap (snd (Promise_ctor empty_heap))"
    by (rule client_step.ctor)
  ultimately show ?thesis by (blast intro: converse_rtranclp_into_rtranclp)
qed

theorem Promise_heap_invariant_witness:
  "list_all (\<lambda>pr. \<not> mutex_held pr) (promises busy_heap)"
  using Promise_heap_invariant [OF busy_run busy_tame [OF mutexes.heap_growth_axioms]]
  by (simp add: list_all_length promise_at_def)

text \<open>
  C14. A future has one result: once a shared state is ready, no run of the program changes its
  content, so every later \<open>GetResult\<close> on a future of it gives the same outcome, the setters of
  the promise that owns it throw \<open>promise_already_satisfied\<close> without effect and without a
  continuation, whatever \<open>fire\<close> would do, and a future that was retrieved cannot be retrieved
  again. In a thread that is inside a setter of the promise they block; when the promise is
  moved from they throw \<open>no_state\<close>, while its handles stay as they are in the new promise.
\<close>

theorem Future_single_assignment:
  assumes run: "(client_step cbs n)\<^sup>*\<^sup>* h h'" and ok: "heap_ok h" and cbs: "tame results_kept cbs"
    and a: "a < length (shared h)" and ready: "content_at h a \<noteq> Pending"
  shows "content_at h' a = content_at h a
       \<and> fst (Future_GetResult (Future_ctor (Some a) s) h') = fst (Future_GetResult (Future_ctor (Some a) s) h)
       \<and> (owns h' p a t \<longrightarrow>
            Promise_set_value_lvalue fire p v h' = (Throws (StdFutureError 2), h') \<and>
            Promise_SetError_lvalue fire p e h' = (Throws (StdFutureError 2), h') \<and>
            Promise_set_exception fire p ex h' = (Throws (StdFutureError 2), h') \<and>
            Promise_set_value_lvalue fire p v (locked p h') = (Blocks, locked p h') \<and>
            (\<exists>h1. Promise_move_ctor p h' = (Ret (length (promises h')), h1)
              \<and> owns h1 (length (promises h')) a t
              \<and> Promise_set_value_lvalue fire p v h1 = (Throws (StdFutureError 3), h1)) \<and>
            (retrieved (shared h ! a) \<longrightarrow> Promise_get_future p h' = (Throws (StdFutureError 1), h')))"
proof -
  have kept: "results_kept h h'"
    using results.client_run_respects [OF run cbs ok] by simp
  then have same: "content_at h' a = content_at h a" "retrieved (shared h ! a) \<longrightarrow> retrieved (shared h' ! a)"
    using a ready by (simp_all add: results_kept_def)
  then have "owns h' p a t \<Longrightarrow> settle fire p c h' = (Throws (StdFutureError 2), h')" for c
    using settle_satisfied [of h' p a t fire c] ready by (simp add: future_errc_defs)
  moreover have "owns h' p a t \<Longrightarrow> Promise_get_future p h' = (Throws (StdFutureError 1), h')"
    if "retrieved (shared h ! a)"
    using same that by (simp add: Promise_get_future_def owns_def promise_at_def std_get_future_def pbind_def
        future_errc_defs)
  ultimately show ?thesis
    using same setter_held_or_moved [of h' p a t fire v]
    by (auto simp: settle_cases GetResult_eq Future_ctor_def Promise_get_future_def owns_def promise_at_def
        std_get_future_def pbind_def future_errc_defs split: content.split)
qed

theorem Future_single_assignment_witness:
  "content_at (snd (Promise_set_value_lvalue (fire_within busy_callables 2) 0 (Val 9) ready_heap)) 0 =
     Stored (HasV (Val 5))"
proof -
  have h: "heap_ok ready_heap" "has_promise 0 ready_heap"
    by (simp_all add: ready_heap_def fresh_heap_eq has_promise_def)
      (auto simp: heap_ok_def links_def continuations_def linked_def unshared_def)
  have "(client_step busy_callables 2)\<^sup>*\<^sup>* ready_heap
      (snd (Promise_set_value_lvalue (fire_within busy_callables 2) 0 (Val 9) ready_heap))"
    using client_step.set_value [OF h(2)] by blast
  from Future_single_assignment [OF this h(1) busy_tame [OF results.heap_growth_axioms], of 0] show ?thesis
    by simp
qed

end
