(* ===== verification/Fire_Depth.thy ===== *)
theory Fire_Depth
  imports Heap_Steps
begin

text \<open>
  Termination of the recursion by which a continuation fires the next one: every nested
  activation is preceded by a store that makes a pending shared state ready, so with callables
  that leave no new state pending the nesting is at most as deep as there are pending states.
\<close>

section \<open>Pending states\<close>

definition pending :: "('v, 'f) heap \<Rightarrow> nat" where
  "pending h = length (filter (\<lambda>x. content x = Pending) (shared h))"

definition fewer_pending :: "('v, 'f) heap \<Rightarrow> ('v, 'f) heap \<Rightarrow> bool" where
  "fewer_pending h h' \<longleftrightarrow> length (promises h) \<le> length (promises h') \<and> pending h' \<le> pending h"

lemma pending_simps [simp]:
  "pending (locked p h) = pending h" "pending (unlocked p h) = pending h"
  "pending (detach s h) = pending h" "pending (attach s k df h) = pending h"
  "pending (moved_promise p h) = pending h" "pending (set_promise p P h) = pending h"
  by (simp_all add: pending_def)

lemma pending_store:
  assumes "a < length (shared h)" "content_at h a = Pending" "c \<noteq> Pending"
  shows "pending (store a c h) < pending h"
proof -
  have split: "shared h = take a (shared h) @ shared h ! a # drop (Suc a) (shared h)"
    using assms(1) by (simp add: id_take_nth_drop)
  have "shared (store a c h) = take a (shared h) @ ((shared h ! a)\<lparr>content := c\<rparr>) # drop (Suc a) (shared h)"
    using assms(1) by (simp add: store_def upd_conv_take_nth_drop)
  then show ?thesis
    using assms(2,3) by (subst (2) pending_def, subst split) (simp add: pending_def content_at_def)
qed

interpretation fewer: heap_relation "fewer_pending :: ('v, 'f) heap \<Rightarrow> ('v, 'f) heap \<Rightarrow> bool"
proof
  fix h :: "('v, 'f) heap" and a and c :: "'v content"
  assume "content_at h a = Pending" "c \<noteq> Pending" "a < length (shared h)"
  then show "fewer_pending h (store a c h)"
    using pending_store [of a h c] by (simp add: fewer_pending_def)
qed (auto simp: fewer_pending_def)

section \<open>Programs with the same behaviour\<close>

text \<open>
  On well-formed heaps with at most \<open>k\<close> pending states the two programs do the same, and what
  they do is defined.
\<close>

definition agree_on :: "addr \<Rightarrow> nat \<Rightarrow> ('v, 'f, 'a) proc \<Rightarrow> ('v, 'f, 'a) proc \<Rightarrow> bool" where
  "agree_on p k m m' \<longleftrightarrow>
     (\<forall>h. heap_ok h \<and> has_promise p h \<and> pending h \<le> k \<longrightarrow> m h = m' h \<and> fst (m' h) \<noteq> Undefined)"

definition agree_below :: "nat \<Rightarrow> ('v, 'f) fire \<Rightarrow> ('v, 'f) fire \<Rightarrow> bool" where
  "agree_below k f g \<longleftrightarrow>
     (\<forall>h s. heap_ok h \<and> s < length (states h) \<and> pending h < k \<longrightarrow>
        f (Some s) h = g (Some s) h \<and> fst (g (Some s) h) \<noteq> Undefined)"

text \<open>
  Callables that leave no new state pending, have defined behaviour and return futures that have
  a continuation state when they are valid.
\<close>

definition well_behaved :: "('v, 'f) callables \<Rightarrow> bool" where
  "well_behaved cbs \<longleftrightarrow>
     tame fewer_pending cbs \<and>
     (\<forall>f F h. fst (on_result cbs f F h) \<noteq> Undefined \<and> fst (on_value cbs f F h) \<noteq> Undefined \<and>
        fst (on_void cbs f F h) \<noteq> Undefined \<and> fst (on_future cbs f F h) \<noteq> Undefined \<and>
        (\<forall>G. fst (on_future cbs f F h) = Ret G \<and> Future_valid G \<longrightarrow> extra_state_of G \<noteq> None))"

lemma agree_onI:
  "(\<And>h. heap_ok h \<Longrightarrow> has_promise p h \<Longrightarrow> pending h \<le> k \<Longrightarrow> m h = m' h \<and> fst (m' h) \<noteq> Undefined) \<Longrightarrow>
   agree_on p k m m'"
  by (simp add: agree_on_def)

lemma agree_onD:
  "agree_on p k m m' \<Longrightarrow> heap_ok h \<Longrightarrow> has_promise p h \<Longrightarrow> pending h \<le> k \<Longrightarrow>
   m h = m' h \<and> fst (m' h) \<noteq> Undefined"
  by (simp add: agree_on_def)

lemma keeps_fewer:
  assumes "keeps fewer_pending (has_promise p) m" "heap_ok h" "has_promise p h" "m h = (r, h')"
  shows "heap_ok h'" "has_promise p h'" "pending h' \<le> pending h"
  using keepsD [OF assms(1-3)] assms(3,4) by (simp_all add: fewer_pending_def has_promise_def)

lemma agree_pbind_where:
  assumes m: "agree_on p k m m'" "keeps fewer_pending (has_promise p) m"
    and f: "\<And>a h. fst (m h) = Ret a \<Longrightarrow> agree_on p k (f a) (f' a)"
  shows "agree_on p k (pbind m f) (pbind m' f')"
proof (rule agree_onI)
  fix h :: "('a, 'b) heap"
  assume h: "heap_ok h" "has_promise p h" "pending h \<le> k"
  obtain r h1 where r: "m h = (r, h1)" by force
  note h1 = keeps_fewer [OF m(2) h(1,2) r]
  from h1(3) h(3) have k: "pending h1 \<le> k" by simp
  have "fst (m' h) \<noteq> Undefined" "m' h = (r, h1)" using agree_onD [OF m(1) h] r by simp_all
  moreover have "r = Ret a \<Longrightarrow> f a h1 = f' a h1 \<and> fst (f' a h1) \<noteq> Undefined" for a
    using agree_onD [OF f h1(1,2) k, of h a] r by simp
  ultimately show "pbind m f h = pbind m' f' h \<and> fst (pbind m' f' h) \<noteq> Undefined"
    using r by (cases r) (auto simp: pbind_def)
qed

lemma agree_pbind:
  assumes "agree_on p k m m'" "keeps fewer_pending (has_promise p) m" "\<And>a. agree_on p k (f a) (f' a)"
  shows "agree_on p k (pbind m f) (pbind m' f')"
  using assms by (intro agree_pbind_where)

lemma agree_pcatch:
  assumes m: "agree_on p k m m'" "keeps fewer_pending (has_promise p) m"
    and f: "\<And>e. agree_on p k (f e) (f' e)"
  shows "agree_on p k (pcatch m (\<lambda>ex. map_option f (exn_errc ex))) (pcatch m' (\<lambda>ex. map_option f' (exn_errc ex)))"
proof (rule agree_onI)
  fix h :: "('a, 'b) heap"
  assume h: "heap_ok h" "has_promise p h" "pending h \<le> k"
  obtain r h1 where r: "m h = (r, h1)" by force
  note h1 = keeps_fewer [OF m(2) h(1,2) r]
  from h1(3) h(3) have k: "pending h1 \<le> k" by simp
  have "r \<noteq> Undefined" "m' h = (r, h1)" using agree_onD [OF m(1) h] r by (metis fst_conv)+
  with r agree_onD [OF f h1(1,2) k]
  show "pcatch m (\<lambda>ex. map_option f (exn_errc ex)) h = pcatch m' (\<lambda>ex. map_option f' (exn_errc ex)) h \<and>
      fst (pcatch m' (\<lambda>ex. map_option f' (exn_errc ex)) h) \<noteq> Undefined"
    by (cases r) (auto simp: pcatch_def split: option.split)
qed

lemma agree_same: "(\<And>h. fst (m h) \<noteq> Undefined) \<Longrightarrow> agree_on p k m m"
  by (simp add: agree_on_def)

section \<open>Setters and closures agree\<close>

lemma settle_agree:
  assumes fire: "agree_below k f g" and c: "c \<noteq> Pending"
  shows "agree_on p k (settle f p c) (settle g p c)"
proof (rule agree_onI)
  fix h :: "('a, 'b) heap"
  assume ok: "heap_ok h" and p: "has_promise p h" and k: "pending h \<le> k"
  let ?L = "locked p h"
  have okL: "heap_ok ?L" and pL: "p < length (promises ?L)" using ok p by (simp_all add: has_promise_def)
  have same: "promise_at (store a c ?L) p = promise_at ?L p" for a by (simp add: promise_at_def)
  have eq: "settle f p c h =
      (let (r, h') = pbind (std_set (delegate_promise (promise_at ?L p)) c)
         (\<lambda>_ h. f (extra_state (promise_at h p)) h) ?L in (r, unlocked p h'))"
    if "\<not> mutex_held (promise_at h p)" for f
    using that by (simp add: settle_def with_lock_def locked_def unlocked_def)
  show "settle f p c h = settle g p c h \<and> fst (settle g p c h) \<noteq> Undefined"
  proof (cases "mutex_held (promise_at h p)")
    case True
    then show ?thesis by (simp add: settle_held)
  next
    case False
    from heap_ok_promise [OF okL pL] show ?thesis
    proof cases
      case 1
      then show ?thesis by (simp add: eq [OF False] std_set_def pbind_def)
    next
      case (2 a s)
      show ?thesis
      proof (cases "content_at h a = Pending")
        case True
        let ?S = "store a c ?L"
        have "pending ?S < k" using pending_store [of a ?L c] True c 2 k by simp
        then have "f (Some s) ?S = g (Some s) ?S \<and> fst (g (Some s) ?S) \<noteq> Undefined"
          using fire 2(4) okL by (simp add: agree_below_def)
        with 2 True show ?thesis
          by (simp add: eq [OF False] std_set_eq pbind_def same split_def Let_def)
      next
        case False
        with 2 show ?thesis
          by (simp add: eq [OF \<open>\<not> mutex_held (promise_at h p)\<close>] std_set_eq pbind_def)
      qed
    qed
  qed
qed

lemma settle_res_agree: "agree_below k f g \<Longrightarrow> agree_on p k (settle_res f p r) (settle_res g p r)"
  by (cases "r = Empty") (simp_all add: settle_res_def settle_agree agree_same pfail_def)

lemma set_error_agree: "agree_below k f g \<Longrightarrow> agree_on p k (set_error f p e) (set_error g p e)"
  unfolding set_error_def by (rule settle_agree) simp_all

lemma deliver_inner_agree:
  "agree_below k f g \<Longrightarrow> agree_on p k (deliver_inner f iv p inner) (deliver_inner g iv p inner)"
  using settle_res_agree [of k f g p]
  by (auto simp: agree_on_def deliver_inner_def GetResult_eq split: option.split content.split)

lemma move_agree:
  assumes f: "\<And>q. agree_on q k (f q) (f' q)"
  shows "agree_on p k (pbind (if iv then PV_move_ctor p else Promise_move_ctor p) f)
    (pbind (if iv then PV_move_ctor p else Promise_move_ctor p) f')"
proof (rule agree_onI)
  fix h :: "('a, 'b) heap"
  assume h: "heap_ok h" "has_promise p h" "pending h \<le> k"
  let ?mv = "if iv then PV_move_ctor p else Promise_move_ctor p" and ?q = "length (promises h)"
  show "pbind ?mv f h = pbind ?mv f' h \<and> fst (pbind ?mv f' h) \<noteq> Undefined"
  proof (cases "mutex_held (promise_at h p)")
    case True
    then show ?thesis by (simp add: pbind_def PV_move_ctor_def Promise_move_ctor_def Let_def)
  next
    case False
    have "heap_ok (moved_promise p h)" "has_promise ?q (moved_promise p h)"
      using heap_ok_moved h(1,2) by (simp_all add: has_promise_def)
    with agree_onD [OF f] h(3) fewer.moved_eq [OF False] show ?thesis
      by (simp add: pbind_def)
  qed
qed

lemma pass_on_agree:
  assumes fire: "agree_below k f g" and inner: "Future_valid inner \<longrightarrow> extra_state_of inner \<noteq> None"
  shows "agree_on p k (pass_on f vd iv p inner) (pass_on g vd iv p inner)"
proof (cases "Future_valid inner")
  case False
  then show ?thesis by (simp add: pass_on_def set_error_agree fire)
next
  case True
  then obtain s where s: "extra_state_of inner = Some s" using inner by auto
  have "agree_on q k
      (pbind (Future_is_ready inner) (\<lambda>ready. if ready then deliver_inner f iv q inner
         else pbind (SetContinuation s (InnerContinuation vd iv q) inner) (\<lambda>_. pret ())))
      (pbind (Future_is_ready inner) (\<lambda>ready. if ready then deliver_inner g iv q inner
         else pbind (SetContinuation s (InnerContinuation vd iv q) inner) (\<lambda>_. pret ())))" for q
  proof (rule agree_pbind [OF agree_same fewer.is_ready_keeps])
    show "fst (Future_is_ready inner h) \<noteq> Undefined" for h :: "('a, 'b) heap"
      by (simp add: is_ready_eq split: option.split)
    show "agree_on q k
        (if ready then deliver_inner f iv q inner
         else pbind (SetContinuation s (InnerContinuation vd iv q) inner) (\<lambda>_. pret ()))
        (if ready then deliver_inner g iv q inner
         else pbind (SetContinuation s (InnerContinuation vd iv q) inner) (\<lambda>_. pret ()))" for ready
      using deliver_inner_agree [OF fire]
      by (auto simp: SetContinuation_def pbind_def pret_def intro!: agree_same)
  qed
  then show ?thesis
    using True s by (simp add: pass_on_def move_agree)
qed

lemma delivered_agree:
  assumes "well_behaved cbs" "direct k"
  shows "agree_on p n (delivered cbs k f F) (delivered cbs k f F)"
proof (rule agree_same)
  fix h :: "('a, 'b) heap"
  have "fst (on_result cbs f F h) \<noteq> Undefined" "fst (on_value cbs f F h) \<noteq> Undefined"
    "fst (on_void cbs f F h) \<noteq> Undefined"
    using assms(1) by (simp_all add: well_behaved_def)
  with assms(2) show "fst (delivered cbs k f F h) \<noteq> Undefined"
    by (cases k) (auto simp: direct_def pbind_def pret_def split: prod.split outcome.split)
qed

lemma closure_agree:
  assumes cbs: "well_behaved cbs" and fire: "agree_below n f g" "fewer.keeps_fire f"
  shows "agree_on (captured k) n (run_closure cbs f k F) (run_closure cbs g k F)"
proof (cases k)
  case (Continuation kind vd x p)
  have tame: "tame fewer_pending cbs" using cbs by (simp add: well_behaved_def)
  have handler: "agree_on p n (pcatch m (\<lambda>ex. map_option (set_error f p) (exn_errc ex)))
      (pcatch m' (\<lambda>ex. map_option (set_error g p) (exn_errc ex)))"
    if "agree_on p n m m'" "keeps fewer_pending (has_promise p) m" for m m'
    by (rule agree_pcatch [OF that]) (rule set_error_agree [OF fire(1)])
  consider (direct) "direct kind" | (future) iv where "kind = inner_kind iv"
    using kind_cases [of kind] by blast
  then show ?thesis
  proof cases
    case direct
    have "agree_on p n (pbind (delivered cbs kind x F) (settle_res f p))
        (pbind (delivered cbs kind x F) (settle_res g p))"
      by (intro agree_pbind delivered_agree fewer.delivered_keeps settle_res_agree cbs direct tame fire)
    moreover have "keeps fewer_pending (has_promise p) (pbind (delivered cbs kind x F) (settle_res f p))"
      by (intro fewer.keeps_pbind fewer.delivered_keeps fewer.settle_res_keeps tame fire)
    ultimately show ?thesis
      using handler Continuation by (simp add: run_direct [OF direct] del: run_closure.simps)
  next
    case future
    have call: "keeps fewer_pending (has_promise p) (on_future cbs x F)"
      using tame by (simp add: tame_def fewer.keeps_any)
    have "agree_on p n (pbind (on_future cbs x F) (pass_on f vd iv p)) (pbind (on_future cbs x F) (pass_on g vd iv p))"
      by (rule agree_pbind_where [OF agree_same call])
        (use cbs in \<open>auto simp: well_behaved_def intro!: pass_on_agree [OF fire(1)]\<close>)
    moreover have "keeps fewer_pending (has_promise p) (pbind (on_future cbs x F) (pass_on f vd iv p))"
      by (intro fewer.keeps_pbind fewer.pass_on_keeps call fire)
    ultimately show ?thesis
      using handler Continuation by (simp add: future run_future del: run_closure.simps)
  qed
next
  case (InnerContinuation vd iv p)
  then show ?thesis using deliver_inner_agree [OF fire(1)] by (simp add: run_inner del: run_closure.simps)
qed

section \<open>The depth that is enough\<close>

lemma fire_agree:
  assumes cbs: "well_behaved cbs"
  shows "agree_below n (fire_within cbs n) (fire_within cbs (n + d))"
proof (induction n)
  case 0
  show ?case by (simp add: agree_below_def)
next
  case (Suc n)
  have fire: "fewer.keeps_fire (fire_within cbs n)"
    using cbs by (simp add: well_behaved_def fewer.keeps_fire_within)
  have "fire_within cbs (Suc n) (Some s) h = fire_within cbs (Suc n + d) (Some s) h \<and>
      fst (fire_within cbs (Suc n + d) (Some s) h) \<noteq> Undefined"
    if h: "heap_ok h" "s < length (states h)" "pending h < Suc n" for h s
  proof (cases "unique_continuation (states h ! s)")
    case None
    then show ?thesis by (simp add: FireContinuation_eq)
  next
    case k: (Some k)
    have "Some k \<in> set (continuations h)"
      using k h(2) by (force simp: continuations_def in_set_conv_nth)
    then have "has_promise (captured k) (detach s h)"
      using h(1) by (auto simp: heap_ok_def has_promise_def)
    with agree_onD [OF closure_agree [OF cbs Suc fire], of "detach s h" k] h(1,3) fire_some [OF k]
    show ?thesis by (simp del: fire_within.simps run_closure.simps)
  qed
  then show ?case by (simp add: agree_below_def del: fire_within.simps)
qed

lemma agree_below_mono: "agree_below k f g \<Longrightarrow> j \<le> k \<Longrightarrow> agree_below j f g"
  by (simp add: agree_below_def)

lemma then_agree:
  assumes cbs: "well_behaved cbs" and h: "heap_ok h" "pending h \<le> n" and F: "extra_state_of F \<noteq> None"
  shows "then_generic cbs (fire_within cbs (Suc (n + d))) k vd f F h = then_generic cbs (fire_within cbs (Suc n)) k vd f F h
    \<and> fst (then_generic cbs (fire_within cbs (Suc n)) k vd f F h) \<noteq> Undefined"
proof -
  obtain s where s: "extra_state_of F = Some s" using F by auto
  let ?q = "next_promise h" and ?K = "Continuation k vd f (next_promise h)"
  let ?m = "\<lambda>fire. pbind (Future_is_ready F) (\<lambda>ready.
            if ready then pbind (run_closure cbs fire ?K F) (\<lambda>_. pret (next_future h, Future_default))
            else pbind (SetContinuation s ?K F) (\<lambda>this'. pret (next_future h, this')))"
  have fire: "fewer.keeps_fire (fire_within cbs (Suc n))"
    using cbs by (intro fewer.keeps_fire_within) (simp add: well_behaved_def)
  have "agree_on ?q (Suc n) (run_closure cbs (fire_within cbs (Suc n)) ?K F)
      (run_closure cbs (fire_within cbs (Suc n + d)) ?K F)"
    using closure_agree [OF cbs fire_agree [OF cbs] fire, where k = ?K] by (simp del: run_closure.simps fire_within.simps)
  moreover have "keeps fewer_pending (has_promise ?q) (run_closure cbs (fire_within cbs (Suc n)) ?K F)"
    using fewer.closure_keeps [OF _ fire, where k = ?K] cbs
    by (simp add: well_behaved_def del: run_closure.simps fire_within.simps)
  ultimately have "agree_on ?q (Suc n) (?m (fire_within cbs (Suc n))) (?m (fire_within cbs (Suc n + d)))"
    by (intro agree_pbind [OF agree_same fewer.is_ready_keeps])
      (auto simp: is_ready_eq SetContinuation_def pbind_def [of "SetContinuation _ _ _"] pret_def
        intro!: agree_pbind agree_same simp del: run_closure.simps fire_within.simps split: option.split)
  moreover have "pending (spawn h) \<le> Suc n" using h(2) by (simp add: pending_def spawn_def)
  moreover have "heap_ok (spawn h)" using results.spawn_respects [OF h(1)] by simp
  moreover have "has_promise ?q (spawn h)" by (simp add: has_promise_def next_promise_def spawn_simps)
  ultimately have "?m (fire_within cbs (Suc n)) (spawn h) = ?m (fire_within cbs (Suc n + d)) (spawn h) \<and>
      fst (?m (fire_within cbs (Suc n + d)) (spawn h)) \<noteq> Undefined"
    by (intro agree_onD)
  then show ?thesis
    unfolding then_generic_def s option.case add_Suc by simp
qed

lemma then_pending:
  assumes cbs: "well_behaved cbs" and ok: "heap_ok h"
  shows "pending (snd (then_generic cbs (fire_within cbs n) k vd f F h)) \<le> Suc (pending h)"
proof (cases "extra_state_of F")
  case None
  then show ?thesis by (simp add: then_generic_def)
next
  case (Some s)
  let ?q = "next_promise h" and ?K = "Continuation k vd f (next_promise h)"
  let ?m = "pbind (Future_is_ready F) (\<lambda>ready.
            if ready then pbind (run_closure cbs (fire_within cbs n) ?K F) (\<lambda>_. pret (next_future h, Future_default))
            else pbind (SetContinuation s ?K F) (\<lambda>this'. pret (next_future h, this')))"
  have tame: "tame fewer_pending cbs" using cbs by (simp add: well_behaved_def)
  have "keeps fewer_pending (has_promise ?q) (run_closure cbs (fire_within cbs n) ?K F)"
    "keeps fewer_pending (has_promise ?q) (SetContinuation s ?K F)"
    using fewer.closure_keeps [OF tame fewer.keeps_fire_within [OF tame], of ?K]
      fewer.SetContinuation_keeps [of ?K] by (simp_all del: run_closure.simps fire_within.simps)
  then have "keeps fewer_pending (has_promise ?q) ?m"
    by (auto intro!: fewer.keeps_pbind fewer.is_ready_keeps fewer.keeps_pret
        simp del: run_closure.simps fire_within.simps)
  moreover have "has_promise ?q (spawn h)" "heap_ok (spawn h)"
    using results.spawn_respects [OF ok] by (simp_all add: has_promise_def next_promise_def spawn_simps)
  ultimately have "pending (snd (?m (spawn h))) \<le> pending (spawn h)"
    by (simp add: keeps_def fewer_pending_def del: run_closure.simps fire_within.simps)
  also have "pending (spawn h) = Suc (pending h)" by (simp add: pending_def spawn_def)
  finally show ?thesis using Some
    by (simp add: then_generic_def del: run_closure.simps fire_within.simps)
qed

text \<open>
  C6. Firing continuations terminates: when the callables have defined behaviour and leave no new
  state pending, a setter needs no more nested activations than there are pending states, and
  \<open>then\<close> one more. With that much room a deeper stack changes nothing and the behaviour is defined
  (no overflow, no null pointer). A setter leaves no more states pending than before, \<open>then\<close> at
  most one more. When the callables keep what is stored in a state that is ready, so do setters and
  \<open>then\<close>: every state that was ready holds what it held.
\<close>

theorem fire_depth_bounded:
  assumes ok: "heap_ok h" and p: "p < length (promises h)"
    and cbs: "well_behaved cbs"
    and n: "pending h \<le> n" and F: "extra_state_of F \<noteq> None"
  shows "(\<forall>set \<in> {\<lambda>fire. Promise_set_value_lvalue fire p v, \<lambda>fire. Promise_set_value_rvalue fire p v,
             \<lambda>fire. Promise_SetError_lvalue fire p e, \<lambda>fire. Promise_SetError_rvalue fire p e,
             \<lambda>fire. Promise_set_exception fire p ex}.
         set (fire_within cbs (n + d)) h = set (fire_within cbs n) h
       \<and> fst (set (fire_within cbs n) h) \<noteq> Undefined
       \<and> pending (snd (set (fire_within cbs n) h)) \<le> pending h
       \<and> (tame results_kept cbs \<longrightarrow> (\<forall>a. content_at h a \<noteq> Pending \<and> a < length (shared h) \<longrightarrow>
             content_at (snd (set (fire_within cbs n) h)) a = content_at h a)))
       \<and> Future_then cbs (fire_within cbs (Suc (n + d))) k f F h = Future_then cbs (fire_within cbs (Suc n)) k f F h
       \<and> fst (Future_then cbs (fire_within cbs (Suc n)) k f F h) \<noteq> Undefined
       \<and> pending (snd (Future_then cbs (fire_within cbs (Suc n)) k f F h)) \<le> Suc (pending h)
       \<and> (tame results_kept cbs \<longrightarrow> (\<forall>a. content_at h a \<noteq> Pending \<and> a < length (shared h) \<longrightarrow>
             content_at (snd (Future_then cbs (fire_within cbs (Suc n)) k f F h)) a = content_at h a))"
proof -
  have p': "has_promise p h" using p by (simp add: has_promise_def)
  have set: "settle (fire_within cbs n) p c h = settle (fire_within cbs (n + d)) p c h \<and>
      fst (settle (fire_within cbs (n + d)) p c h) \<noteq> Undefined" if "c \<noteq> Pending" for c
    by (rule agree_onD [OF settle_agree [OF fire_agree [OF cbs] that] ok p' n])
  have fewer: "pending (snd (settle (fire_within cbs n) p c h)) \<le> pending h" if "c \<noteq> Pending" for c
  proof -
    have "keeps fewer_pending (has_promise p) (settle (fire_within cbs n) p c)"
      using cbs that by (intro fewer.settle_keeps fewer.keeps_fire_within) (simp_all add: well_behaved_def)
    then show ?thesis using ok p' by (simp add: keeps_def fewer_pending_def)
  qed
  have kept: "results_kept h (snd (settle (fire_within cbs n) p c h))"
    if "c \<noteq> Pending" "tame results_kept cbs" for c
    using results.setter_keeps [OF results.keeps_fire_within [OF that(2)] that(1) ok p'] by blast
  have setters: "\<forall>set \<in> {\<lambda>fire. Promise_set_value_lvalue fire p v, \<lambda>fire. Promise_set_value_rvalue fire p v,
             \<lambda>fire. Promise_SetError_lvalue fire p e, \<lambda>fire. Promise_SetError_rvalue fire p e,
             \<lambda>fire. Promise_set_exception fire p ex}.
         set (fire_within cbs (n + d)) h = set (fire_within cbs n) h
       \<and> fst (set (fire_within cbs n) h) \<noteq> Undefined
       \<and> pending (snd (set (fire_within cbs n) h)) \<le> pending h
       \<and> (tame results_kept cbs \<longrightarrow> (\<forall>a. content_at h a \<noteq> Pending \<and> a < length (shared h) \<longrightarrow>
             content_at (snd (set (fire_within cbs n) h)) a = content_at h a))"
    using set fewer kept by (simp add: settle_cases results_kept_def del: fire_within.simps)
  have "results_kept h (snd (Future_then cbs (fire_within cbs (Suc n)) k f F h))" if "tame results_kept cbs"
    using keepsD [OF results.then_keeps [OF that results.keeps_fire_within [OF that]] ok]
    by (simp add: then_overloads del: fire_within.simps)
  then have "Future_then cbs (fire_within cbs (Suc (n + d))) k f F h = Future_then cbs (fire_within cbs (Suc n)) k f F h
       \<and> fst (Future_then cbs (fire_within cbs (Suc n)) k f F h) \<noteq> Undefined
       \<and> pending (snd (Future_then cbs (fire_within cbs (Suc n)) k f F h)) \<le> Suc (pending h)
       \<and> (tame results_kept cbs \<longrightarrow> (\<forall>a. content_at h a \<noteq> Pending \<and> a < length (shared h) \<longrightarrow>
             content_at (snd (Future_then cbs (fire_within cbs (Suc n)) k f F h)) a = content_at h a))"
    using then_agree [OF cbs ok n F] then_pending [OF cbs ok]
    by (simp add: then_overloads results_kept_def del: fire_within.simps)
  with setters show ?thesis by (rule conjI)
qed

text \<open>A pending future with a continuation attached, whose future is pending too.\<close>

definition constant_callables :: "(int, int) callables" where
  "constant_callables =
     \<lparr>on_future = (\<lambda>f F. pret Future_default), on_result = (\<lambda>f F. pret (HasE (std_errc f))),
      on_value = (\<lambda>f F. pret (Val f)), on_void = (\<lambda>f F. pret ())\<rparr>"

lemma constant_well_behaved: "well_behaved constant_callables" "tame results_kept constant_callables"
  by (simp_all add: well_behaved_def constant_callables_def pret_def Future_valid_def Future_default_def
      tame_def keeps_def fewer_pending_def results.refl)

definition attached_heap :: "(int, int) heap" where
  "attached_heap = attach 0 (Continuation KValue False 7 2) (Some 0) (spawn fresh_heap)"

lemma attached_heap_facts:
  "heap_ok attached_heap" "0 < length (promises attached_heap)" "pending attached_heap = 2"
proof -
  have "heap_ok fresh_heap"
    by (auto simp: fresh_heap_eq heap_ok_def links_def continuations_def linked_def unshared_def)
  then show "heap_ok attached_heap"
    unfolding attached_heap_def
    by (intro heap_ok_attach) (simp_all add: results.spawn_respects spawn_simps fresh_heap_eq)
  show "0 < length (promises attached_heap)" "pending attached_heap = 2"
    by (simp_all add: attached_heap_def spawn_def fresh_heap_eq pending_def)
qed

theorem fire_depth_bounded_witness:
  "Promise_set_value_lvalue (fire_within constant_callables 100) 0 (Val 5) attached_heap =
     Promise_set_value_lvalue (fire_within constant_callables 2) 0 (Val 5) attached_heap
   \<and> fst (Promise_set_value_lvalue (fire_within constant_callables 2) 0 (Val 5) attached_heap) \<noteq> Undefined
   \<and> tame results_kept constant_callables"
  using fire_depth_bounded [OF attached_heap_facts(1,2) constant_well_behaved(1), of 2
      "Future_ctor (Some 0) (Some 0)" "Val 5" _ _ 98] constant_well_behaved(2)
  by (simp add: attached_heap_facts(3) Future_ctor_def del: fire_within.simps)

end
