(* ===== verification/Race_Refinement.thy ===== *)
theory Race_Refinement
  imports Future_Race
begin

text \<open>
  The interleaving of \<open>then\<close> and a setter on the heap of promises and futures. The steps are the
  operations the two members consist of, in their order; the relation \<open>race_step\<close> is their
  abstraction. A simulation carries the properties of the abstract relation over and says
  what the next future holds in the end; run without interleaving, the steps make what
  \<open>Future_then\<close> and the setter make.
\<close>

section \<open>Two threads on the heap\<close>

text \<open>
  \<open>made\<close> is the closure that \<open>then\<close> builds, \<open>taken\<close> the future that \<open>FireContinuation\<close> takes from the
  state; both are local to their threads. \<open>passed\<close> lists the futures the closure was run with,
  \<open>met\<close> is the ghost flag \<open>overlap\<close>.
\<close>

record ('v, 'f) threads =
  heap_now :: "('v, 'f) heap"
  then_thread :: then_pc
  setter_thread :: setter_pc
  made :: "'f closure"
  taken :: Future
  passed :: "Future list"
  met :: bool

definition then_between :: "('v, 'f) threads \<Rightarrow> bool" where
  "then_between t \<longleftrightarrow> then_thread t = Then_not_ready \<or> then_thread t = Then_continuation_set"

inductive thread_step ::
  "('v, 'f) callables \<Rightarrow> ('v, 'f) fire \<Rightarrow> then_kind \<Rightarrow> 'f \<Rightarrow> addr \<Rightarrow> addr \<Rightarrow> addr \<Rightarrow> 'v content \<Rightarrow>
   ('v, 'f) threads \<Rightarrow> ('v, 'f) threads \<Rightarrow> bool"
  for cbs fire k f p a s c where
  prologue: "then_thread t = Then_start \<Longrightarrow>
    pbind Promise_ctor (\<lambda>np. pbind (Promise_get_future np) (\<lambda>nf. Promise_move_ctor np)) (heap_now t) = (Ret q, h) \<Longrightarrow>
    thread_step cbs fire k f p a s c t
      (t\<lparr>heap_now := h, made := Continuation k False f q, then_thread := Then_locked\<rparr>)"
| is_ready: "then_thread t = Then_locked \<Longrightarrow>
    Future_is_ready (Future_ctor (Some a) (Some s)) (heap_now t) = (Ret True, heap_now t) \<Longrightarrow>
    thread_step cbs fire k f p a s c t (t\<lparr>then_thread := Then_run\<rparr>)"
| is_pending: "then_thread t = Then_locked \<Longrightarrow>
    Future_is_ready (Future_ctor (Some a) (Some s)) (heap_now t) = (Ret False, heap_now t) \<Longrightarrow>
    thread_step cbs fire k f p a s c t (t\<lparr>then_thread := Then_not_ready\<rparr>)"
| assign_continuation: "then_thread t = Then_not_ready \<Longrightarrow> h = heap_now t \<Longrightarrow>
    thread_step cbs fire k f p a s c t
      (t\<lparr>heap_now := h\<lparr>states := (states h)[s := (states h ! s)\<lparr>unique_continuation := Some (made t)\<rparr>]\<rparr>,
         then_thread := Then_continuation_set\<rparr>)"
| assign_future: "then_thread t = Then_continuation_set \<Longrightarrow> h = heap_now t \<Longrightarrow>
    thread_step cbs fire k f p a s c t
      (t\<lparr>heap_now := h\<lparr>states := (states h)[s := (states h ! s)\<lparr>delegate_future := Some a\<rparr>]\<rparr>,
         then_thread := Then_future_set\<rparr>)"
| unlock_state: "then_thread t = Then_future_set \<Longrightarrow>
    thread_step cbs fire k f p a s c t (t\<lparr>then_thread := Then_done\<rparr>)"
| run_now: "then_thread t = Then_run \<Longrightarrow>
    run_closure cbs fire (made t) (Future_ctor (Some a) (Some s)) (heap_now t) = (r, h) \<Longrightarrow>
    thread_step cbs fire k f p a s c t
      (t\<lparr>heap_now := h, passed := passed t @ [Future_ctor (Some a) (Some s)], then_thread := Then_done\<rparr>)"
| lock_promise: "setter_thread t = Set_start \<Longrightarrow> \<not> mutex_held (promise_at (heap_now t) p) \<Longrightarrow>
    thread_step cbs fire k f p a s c t (t\<lparr>heap_now := locked p (heap_now t), setter_thread := Set_locked\<rparr>)"
| set_content: "setter_thread t = Set_locked \<Longrightarrow>
    std_set (delegate_promise (promise_at (heap_now t) p)) c (heap_now t) = (Ret (), h) \<Longrightarrow>
    thread_step cbs fire k f p a s c t (t\<lparr>heap_now := h, setter_thread := Set_stored\<rparr>)"
| no_continuation: "setter_thread t = Set_stored \<Longrightarrow> \<not> HasContinuation s (heap_now t) \<Longrightarrow>
    thread_step cbs fire k f p a s c t
      (t\<lparr>heap_now := unlocked p (heap_now t), setter_thread := Set_done, met := met t \<or> then_between t\<rparr>)"
| continuation: "setter_thread t = Set_stored \<Longrightarrow> HasContinuation s (heap_now t) \<Longrightarrow>
    thread_step cbs fire k f p a s c t
      (t\<lparr>setter_thread := Set_has_continuation, met := met t \<or> then_between t\<rparr>)"
| take_future: "setter_thread t = Set_has_continuation \<Longrightarrow> State_get_future s (heap_now t) = (Ret F, h) \<Longrightarrow>
    thread_step cbs fire k f p a s c t
      (t\<lparr>heap_now := h, taken := F, setter_thread := Set_run (Future_valid F), met := met t \<or> then_between t\<rparr>)"
| run_stored: "setter_thread t = Set_run v \<Longrightarrow> unique_continuation (states (heap_now t) ! s) = Some K \<Longrightarrow>
    run_closure cbs fire K (taken t) (heap_now t) = (r, h) \<Longrightarrow>
    thread_step cbs fire k f p a s c t
      (t\<lparr>heap_now := unlocked p h, passed := passed t @ [taken t], setter_thread := Set_done\<rparr>)"

inductive_cases thread_stepE: "thread_step cbs fire k f p a s c t t'"

definition threads_init :: "('v, 'f) heap \<Rightarrow> ('v, 'f) threads" where
  "threads_init h =
     \<lparr>heap_now = h, then_thread = Then_start, setter_thread = Set_start, made = InnerContinuation False False 0,
      taken = Future_default, passed = [], met = False\<rparr>"

section \<open>The abstraction\<close>

definition abs_race :: "addr \<Rightarrow> addr \<Rightarrow> ('v, 'f) threads \<Rightarrow> race" where
  "abs_race a s t =
     \<lparr>ready = content_at (heap_now t) a \<noteq> Pending,
      has_continuation = HasContinuation s (heap_now t),
      has_future = delegate_future (states (heap_now t) ! s) \<noteq> None,
      then_at = then_thread t, setter_at = setter_thread t,
      runs = map Future_valid (passed t), overlap = met t\<rparr>"

text \<open>
  The setting: the promise at \<open>p\<close> owns \<open>a\<close> and \<open>s\<close> and nothing waits on it yet; the callable
  leaves the heap alone, makes \<open>d\<close> of the content \<open>c\<close>, and \<open>e\<close> of a future that has no state.
\<close>

definition race_setting ::
  "('v, 'f) callables \<Rightarrow> then_kind \<Rightarrow> 'f \<Rightarrow> addr \<Rightarrow> addr \<Rightarrow> addr \<Rightarrow> 'v content \<Rightarrow> 'v content \<Rightarrow> 'v content \<Rightarrow>
   ('v, 'f) heap \<Rightarrow> bool" where
  "race_setting cbs k f p a s c d e h \<longleftrightarrow>
     owns h p a s \<and> content_at h a = Pending \<and>
     states h ! s = \<lparr>unique_continuation = None, delegate_future = None\<rparr> \<and> c \<noteq> Pending \<and> direct k \<and>
     (\<exists>out. pure_call cbs k f a s c out \<and> outcome_content out = Some d) \<and>
     (\<exists>out. (\<forall>h. delivered cbs k f (Future_ctor None (Some s)) h = (out, h)) \<and> outcome_content out = Some e)"

text \<open>What the next future holds: nothing until the closure has run.\<close>

definition next_content :: "'v content \<Rightarrow> 'v content \<Rightarrow> Future list \<Rightarrow> 'v content" where
  "next_content d e gs = (case gs of [] \<Rightarrow> Pending | G # _ \<Rightarrow> if Future_valid G then d else e)"

text \<open>The concrete invariant; \<open>A\<close>, \<open>S\<close>, \<open>q\<close> are what \<open>then\<close> creates.\<close>

definition threads_inv ::
  "then_kind \<Rightarrow> 'f \<Rightarrow> addr \<Rightarrow> addr \<Rightarrow> addr \<Rightarrow> 'v content \<Rightarrow> 'v content \<Rightarrow> 'v content \<Rightarrow> addr \<Rightarrow> addr \<Rightarrow> addr \<Rightarrow>
   ('v, 'f) threads \<Rightarrow> bool" where
  "threads_inv k f p a s c d e A S q t \<longleftrightarrow>
     (let h = heap_now t in
      p < length (promises h) \<and> a < length (shared h) \<and> s < length (states h) \<and>
      promises h ! p = \<lparr>delegate_promise = Some a, extra_state = Some s,
                        mutex_held = setter_thread t \<notin> {Set_start, Set_done}\<rparr> \<and>
      content_at h a = (if setter_thread t \<in> {Set_start, Set_locked} then Pending else c) \<and>
      (if then_thread t = Then_start
       then length (shared h) = A \<and> length (states h) = S \<and> Suc (length (promises h)) = q
       else made t = Continuation k False f q \<and> owns h q A S \<and>
            unique_continuation (states h ! S) = None \<and> content_at h A = next_content d e (passed t)) \<and>
      (unique_continuation (states h ! s) = None \<or> unique_continuation (states h ! s) = Some (Continuation k False f q)) \<and>
      (delegate_future (states h ! s) = None \<or> delegate_future (states h ! s) = Some a) \<and>
      (\<forall>v. setter_thread t = Set_run v \<longrightarrow> taken t = Future_ctor (if v then Some a else None) (Some s)) \<and>
      p < q \<and> a < A \<and> s < S)"

lemma threads_inv_init:
  assumes "race_setting cbs k f p a s c d e h"
  shows "threads_inv k f p a s c d e (length (shared h)) (length (states h)) (next_promise h) (threads_init h)"
    and "abs_race a s (threads_init h) = race_init"
  using assms
  by (simp_all add: race_setting_def threads_inv_def threads_init_def owns_def next_promise_def
      abs_race_def race_init_def HasContinuation_def)

section \<open>Simulation\<close>

lemma closure_run:
  assumes "direct k" "owns h q A S" "content_at h A = Pending" "unique_continuation (states h ! S) = None"
    and "delivered cbs k f F h = (out, h)" "outcome_content out = Some x"
  shows "run_closure cbs (fire_within cbs (Suc n)) (Continuation k False f q) F h = (Ret (), store A x h)"
  by (rule run_direct_content [OF assms(1,5,6) settle_quiet [OF assms(2-4)]])

lemma pbind_pret_right: "pbind m pret = m"
  by (rule ext) (simp add: pbind_def pret_def split: prod.split outcome.split)

lemma prologue_eq:
  "pbind Promise_ctor (\<lambda>np. pbind (Promise_get_future np) (\<lambda>nf. Promise_move_ctor np)) h =
     (Ret (next_promise h), spawn h)"
  using then_prologue [of "\<lambda>q _. pret q" h] by (simp add: pbind_pret_right) (simp add: pret_def)

text \<open>The steps of the two threads, one lemma for each kind of effect.\<close>

definition simulates where
  "simulates k f p a s c d e A S q t t' \<longleftrightarrow>
     threads_inv k f p a s c d e A S q t' \<and> race_step (abs_race a s t) (abs_race a s t')"

lemma sim_prologue:
  assumes "threads_inv k f p a s c d e A S q t" "then_thread t = Then_start" "passed t = []"
  shows "simulates k f p a s c d e A S q t
    (t\<lparr>heap_now := spawn (heap_now t), made := Continuation k False f (next_promise (heap_now t)),
       then_thread := Then_locked\<rparr>)"
proof -
  let ?h = "heap_now t" and ?t = "t\<lparr>heap_now := spawn (heap_now t),
    made := Continuation k False f (next_promise (heap_now t)), then_thread := Then_locked\<rparr>"
  have dom: "a < length (shared ?h)" "s < length (states ?h)" "p < length (promises ?h)"
    using assms(1) by (simp_all add: threads_inv_def Let_def)
  have "abs_race a s ?t = (abs_race a s t)\<lparr>then_at := Then_locked\<rparr>"
    using dom by (simp add: abs_race_def spawn_simps HasContinuation_def)
  moreover have "race_step (abs_race a s t) ((abs_race a s t)\<lparr>then_at := Then_locked\<rparr>)"
    by (rule race_step.then_lock) (simp add: abs_race_def assms)
  moreover have "promises (spawn ?h) ! p = promises ?h ! p" using dom by (simp add: spawn_def nth_append)
  moreover have "owns (spawn ?h) q A S" "q = next_promise ?h" "unique_continuation (states (spawn ?h) ! S) = None"
    "content_at (spawn ?h) A = Pending"
    using assms(1,2) spawn_simps(5,7,8) [of ?h] by (auto simp: threads_inv_def Let_def next_promise_def)
  ultimately show ?thesis
    using assms dom by (auto simp: simulates_def threads_inv_def Let_def spawn_simps next_content_def)
qed

lemma sim_then_test:
  assumes "threads_inv k f p a s c d e A S q t" "then_thread t = Then_locked"
  shows "content_at (heap_now t) a \<noteq> Pending \<Longrightarrow> simulates k f p a s c d e A S q t (t\<lparr>then_thread := Then_run\<rparr>)"
    and "content_at (heap_now t) a = Pending \<Longrightarrow> simulates k f p a s c d e A S q t (t\<lparr>then_thread := Then_not_ready\<rparr>)"
  using assms race_step.then_ready [of "abs_race a s t"] race_step.then_pending [of "abs_race a s t"]
  by (simp_all add: simulates_def threads_inv_def Let_def abs_race_def)

lemma sim_then_assign:
  assumes inv: "threads_inv k f p a s c d e A S q t"
  shows "then_thread t = Then_not_ready \<Longrightarrow> simulates k f p a s c d e A S q t
      (t\<lparr>heap_now := (heap_now t)\<lparr>states := (states (heap_now t))[s := (states (heap_now t) ! s)
           \<lparr>unique_continuation := Some (made t)\<rparr>]\<rparr>, then_thread := Then_continuation_set\<rparr>)"
    and "then_thread t = Then_continuation_set \<Longrightarrow> simulates k f p a s c d e A S q t
      (t\<lparr>heap_now := (heap_now t)\<lparr>states := (states (heap_now t))[s := (states (heap_now t) ! s)
           \<lparr>delegate_future := Some a\<rparr>]\<rparr>, then_thread := Then_future_set\<rparr>)"
    and "then_thread t = Then_future_set \<Longrightarrow> simulates k f p a s c d e A S q t (t\<lparr>then_thread := Then_done\<rparr>)"
  using inv race_step.then_set_continuation [of "abs_race a s t"] race_step.then_set_future [of "abs_race a s t"]
    race_step.then_unlock [of "abs_race a s t"]
  by (auto simp: simulates_def threads_inv_def Let_def abs_race_def content_at_def owns_def HasContinuation_def
      nth_list_update)

lemma sim_run_now:
  assumes inv: "threads_inv k f p a s c d e A S q t" and "then_thread t = Then_run" and none: "passed t = []"
    and c: "content_at (heap_now t) a \<noteq> Pending" and k: "direct k"
    and call: "pure_call cbs k f a s c out" "outcome_content out = Some d"
  shows "run_closure cbs (fire_within cbs (Suc n)) (made t) (Future_ctor (Some a) (Some s)) (heap_now t) =
      (Ret (), store A d (heap_now t))"
    and "simulates k f p a s c d e A S q t
      (t\<lparr>heap_now := store A d (heap_now t), passed := passed t @ [Future_ctor (Some a) (Some s)],
         then_thread := Then_done\<rparr>)"
proof -
  let ?h = "heap_now t"
  have made: "made t = Continuation k False f q" and own: "owns ?h q A S"
    and quiet: "unique_continuation (states ?h ! S) = None" and pend: "content_at ?h A = Pending"
    and ac: "content_at ?h a = c"
    using inv assms(2) none c by (auto simp: threads_inv_def Let_def next_content_def split: if_splits)
  have "delivered cbs k f (Future_ctor (Some a) (Some s)) ?h = (out, ?h)"
    using pure_callD [OF call(1) ac] by (simp add: Future_ctor_def)
  then show "run_closure cbs (fire_within cbs (Suc n)) (made t) (Future_ctor (Some a) (Some s)) ?h =
      (Ret (), store A d ?h)"
    unfolding made by (rule closure_run [OF k own pend quiet _ call(2)])
  show "simulates k f p a s c d e A S q t
      (t\<lparr>heap_now := store A d ?h, passed := passed t @ [Future_ctor (Some a) (Some s)], then_thread := Then_done\<rparr>)"
    using inv assms(2,3) own race_step.then_run [of "abs_race a s t"]
    by (auto simp: simulates_def threads_inv_def Let_def abs_race_def HasContinuation_def next_content_def
        Future_valid_def Future_ctor_def owns_def)
qed

lemma sim_lock:
  assumes inv: "threads_inv k f p a s c d e A S q t"
  shows "setter_thread t = Set_start \<Longrightarrow> simulates k f p a s c d e A S q t
      (t\<lparr>heap_now := locked p (heap_now t), setter_thread := Set_locked\<rparr>)"
    and "setter_thread t = Set_stored \<Longrightarrow> \<not> HasContinuation s (heap_now t) \<Longrightarrow> simulates k f p a s c d e A S q t
      (t\<lparr>heap_now := unlocked p (heap_now t), setter_thread := Set_done, met := met t \<or> then_between t\<rparr>)"
    and "setter_thread t = Set_stored \<Longrightarrow> HasContinuation s (heap_now t) \<Longrightarrow> simulates k f p a s c d e A S q t
      (t\<lparr>setter_thread := Set_has_continuation, met := met t \<or> then_between t\<rparr>)"
  using inv race_step.setter_lock [of "abs_race a s t"] race_step.setter_none [of "abs_race a s t"]
    race_step.setter_some [of "abs_race a s t"]
  by (auto simp: simulates_def threads_inv_def Let_def abs_race_def HasContinuation_def owns_locked
      in_window_def then_between_def locked_def unlocked_def promise_at_def set_promise_def content_at_def owns_def)

lemma sim_store:
  assumes inv: "threads_inv k f p a s c d e A S q t" and "setter_thread t = Set_locked" "c \<noteq> Pending"
  shows "std_set (delegate_promise (promise_at (heap_now t) p)) c (heap_now t) = (Ret (), store a c (heap_now t))"
    and "simulates k f p a s c d e A S q t (t\<lparr>heap_now := store a c (heap_now t), setter_thread := Set_stored\<rparr>)"
  using assms race_step.setter_store [of "abs_race a s t"]
  by (auto simp: simulates_def threads_inv_def Let_def abs_race_def HasContinuation_def std_set_eq promise_at_def)

lemma sim_take:
  assumes inv: "threads_inv k f p a s c d e A S q t" and pc: "setter_thread t = Set_has_continuation"
    and G: "State_get_future s (heap_now t) = (Ret G, h)"
  shows "simulates k f p a s c d e A S q t
    (t\<lparr>heap_now := h, taken := G, setter_thread := Set_run (Future_valid G), met := met t \<or> then_between t\<rparr>)"
proof -
  have h: "h = detach s (heap_now t)" "G = Future_ctor (delegate_future (states (heap_now t) ! s)) (Some s)"
    using G by (simp_all add: State_get_future_def detach_def)
  have "states (detach s (heap_now t)) ! S = states (heap_now t) ! S" if "s < S" for S
    using that by (simp add: detach_def)
  with assms race_step.setter_take [of "abs_race a s t"] show ?thesis
    by (auto simp: h simulates_def threads_inv_def Let_def abs_race_def HasContinuation_def Future_valid_def
        Future_ctor_def then_between_def in_window_def) (simp_all add: detach_def)
qed

lemma sim_run_stored:
  assumes inv: "threads_inv k f p a s c d e A S q t" and pc: "setter_thread t = Set_run v"
    and K: "unique_continuation (states (heap_now t) ! s) = Some K"
    and none: "passed t = []" "then_thread t \<noteq> Then_start" and k: "direct k"
    and call: "pure_call cbs k f a s c out" "outcome_content out = Some d"
      "\<forall>h. delivered cbs k f (Future_ctor None (Some s)) h = (out', h)" "outcome_content out' = Some e"
  shows "run_closure cbs (fire_within cbs (Suc n)) K (taken t) (heap_now t) =
      (Ret (), store A (if v then d else e) (heap_now t))"
    and "simulates k f p a s c d e A S q t
      (t\<lparr>heap_now := unlocked p (store A (if v then d else e) (heap_now t)), passed := passed t @ [taken t],
         setter_thread := Set_done\<rparr>)"
proof -
  let ?h = "heap_now t"
  have K': "K = Continuation k False f q" and own: "owns ?h q A S"
    and quiet: "unique_continuation (states ?h ! S) = None" and pend: "content_at ?h A = Pending"
    and ac: "content_at ?h a = c" and G: "taken t = Future_ctor (if v then Some a else None) (Some s)"
    and pq: "p \<noteq> q"
    using inv pc none K by (auto simp: threads_inv_def Let_def next_content_def)
  have "delivered cbs k f (taken t) ?h = (if v then out else out', ?h)"
    using pure_callD [OF call(1) ac] call(3) by (simp add: G Future_ctor_def)
  then show "run_closure cbs (fire_within cbs (Suc n)) K (taken t) ?h = (Ret (), store A (if v then d else e) ?h)"
    unfolding K' by (rule closure_run [OF k own pend quiet]) (simp add: call)
  show "simulates k f p a s c d e A S q t
      (t\<lparr>heap_now := unlocked p (store A (if v then d else e) ?h), passed := passed t @ [taken t],
         setter_thread := Set_done\<rparr>)"
    using inv pc none own pq race_step.setter_run [of "abs_race a s t" v] G
    by (auto simp: simulates_def threads_inv_def Let_def abs_race_def HasContinuation_def next_content_def
        Future_valid_def Future_ctor_def owns_locked unlocked_def set_promise_def promise_at_def owns_def
        content_at_def store_def nth_list_update)
qed

lemma thread_step_simulates:
  assumes step: "thread_step cbs (fire_within cbs (Suc n)) k f p a s c t t'"
    and set: "race_setting cbs k f p a s c d e h0"
    and inv: "threads_inv k f p a s c d e A S q t" and reach: "race_reachable (abs_race a s t)"
  shows "simulates k f p a s c d e A S q t t'"
proof -
  obtain out out' where k: "direct k" "c \<noteq> Pending"
    and call: "pure_call cbs k f a s c out" "outcome_content out = Some d"
      "\<forall>h. delivered cbs k f (Future_ctor None (Some s)) h = (out', h)" "outcome_content out' = Some e"
    using set by (auto simp: race_setting_def)
  have r: "race_inv (abs_race a s t)" using reach by (rule race_inv_reachable)
  have start: "passed t = []" if "then_thread t = Then_start"
    using r that by (simp add: race_inv_def abs_race_def)
  have run: "passed t = []" "content_at (heap_now t) a \<noteq> Pending" if "then_thread t = Then_run"
    using r that by (simp_all add: race_inv_def abs_race_def)
  have stored: "passed t = []" "then_thread t \<noteq> Then_start" if "setter_thread t = Set_run v" for v
    using r that by (auto simp: race_inv_def abs_race_def will_run_setter_def)
  have ready: "Future_is_ready (Future_ctor (Some a) (Some s)) h = (Ret (content_at h a \<noteq> Pending), h)" for h :: "('a, 'b) heap"
    by (simp add: is_ready_eq Future_ctor_def)
  note sims = sim_then_test [OF inv] sim_then_assign [OF inv] sim_lock [OF inv] sim_take [OF inv]
  from step show ?thesis
  proof cases
    case (prologue q' h)
    then show ?thesis using sim_prologue [OF inv _ start] by (simp add: prologue_eq)
  next
    case (run_now r' h)
    then show ?thesis
      using sim_run_now(1) [OF inv _ run(1) run(2) k(1) call(1,2), where n = n]
        sim_run_now(2) [OF inv _ run(1) run(2) k(1) call(1,2)] by simp
  next
    case (set_content h)
    then show ?thesis using sim_store [OF inv _ k(2)] by simp
  next
    case (run_stored v K r' h)
    then show ?thesis
      using sim_run_stored(1) [OF inv run_stored(2,3) stored [OF run_stored(2)] k(1) call, where n = n]
        sim_run_stored(2) [OF inv run_stored(2,3) stored [OF run_stored(2)] k(1) call] by simp
  qed (use sims ready in \<open>simp_all\<close>)
qed

lemma threads_simulate:
  assumes run: "(thread_step cbs (fire_within cbs (Suc n)) k f p a s c)\<^sup>*\<^sup>* (threads_init h) t"
    and set: "race_setting cbs k f p a s c d e h"
  shows "threads_inv k f p a s c d e (length (shared h)) (length (states h)) (next_promise h) t \<and>
    race_reachable (abs_race a s t)"
  using run
proof induction
  case base
  show ?case
    using threads_inv_init [OF set] race_reachable.init by simp
next
  case (step t t')
  then have "simulates k f p a s c d e (length (shared h)) (length (states h)) (next_promise h) t t'"
    using thread_step_simulates [OF step(2) set] by blast
  with step(3) race_reachable.step show ?case unfolding simulates_def by blast
qed

section \<open>Without interleaving\<close>

text \<open>The two runs in which one thread does all of its steps before the other begins.\<close>

lemma run_on:
  assumes "(thread_step cbs fire k f p a s c)\<^sup>*\<^sup>* x y" "thread_step cbs fire k f p a s c y z" "z = z'"
  shows "(thread_step cbs fire k f p a s c)\<^sup>*\<^sup>* x z'"
  using assms by auto

lemma run_then_first:
  fixes cbs :: "('v, 'f) callables"
  assumes set: "race_setting cbs k f p a s c d e h"
  defines "K \<equiv> Continuation k False f (next_promise h)"
  defines "h1 \<equiv> attach s K (Some a) (spawn h)"
  shows "(thread_step cbs (fire_within cbs (Suc n)) k f p a s c)\<^sup>*\<^sup>* (threads_init h)
    \<lparr>heap_now = unlocked p (store (length (shared h)) d (detach s (locked p (store a c h1)))),
     then_thread = Then_done, setter_thread = Set_done, made = K, taken = Future_ctor (Some a) (Some s),
     passed = [Future_ctor (Some a) (Some s)], met = False\<rparr>"
proof -
  let ?F = "Future_ctor (Some a) (Some s)" and ?R = "thread_step cbs (fire_within cbs (Suc n)) k f p a s c"
  let ?st = "\<lambda>H tp sp G gs. \<lparr>heap_now = H, then_thread = tp, setter_thread = sp, made = K, taken = G, passed = gs, met = False\<rparr>"
  have own: "owns h p a s" and pend: "content_at h a = Pending" and c: "c \<noteq> Pending"
    and none: "states h ! s = \<lparr>unique_continuation = None, delegate_future = None\<rparr>"
    and k: "direct k" using set by (simp_all add: race_setting_def)
  obtain out where call: "pure_call cbs k f a s c out" "outcome_content out = Some d"
    using set by (auto simp: race_setting_def)
  have dom: "a < length (shared h)" "s < length (states h)" "p < length (promises h)"
    using own by (simp_all add: owns_def)
  have own1: "owns h1 p a s" "content_at h1 a = Pending" "HasContinuation s h1" "s < length (states h1)"
    using own pend dom by (simp_all add: h1_def spawn_simps HasContinuation_def)
  let ?L = "store a c (locked p h1)"
  let ?X = "(spawn h)\<lparr>states := (states (spawn h))[s := (states (spawn h) ! s)\<lparr>unique_continuation := Some K\<rparr>]\<rparr>"
  have h1: "?X\<lparr>states := (states ?X)[s := (states ?X ! s)\<lparr>delegate_future := Some a\<rparr>]\<rparr> = h1"
    using dom by (cases "states h ! s") (simp add: h1_def attach_def spawn_simps)
  have "?R\<^sup>*\<^sup>* (threads_init h) (threads_init h)" by simp
  then have "?R\<^sup>*\<^sup>* (threads_init h) (?st (spawn h) Then_locked Set_start Future_default [])"
    by (rule run_on [OF _ thread_step.prologue [where q = "next_promise h" and h = "spawn h"]])
      (simp_all add: threads_init_def prologue_eq K_def)
  then have "?R\<^sup>*\<^sup>* (threads_init h) (?st (spawn h) Then_not_ready Set_start Future_default [])"
    by (rule run_on [OF _ thread_step.is_pending]) (use pend dom in \<open>simp_all add: is_ready_eq Future_ctor_def spawn_simps\<close>)
  then have "?R\<^sup>*\<^sup>* (threads_init h) (?st ?X Then_continuation_set Set_start Future_default [])"
    by (rule run_on [OF _ thread_step.assign_continuation [where h = "spawn h"]]) simp_all
  then have "?R\<^sup>*\<^sup>* (threads_init h) (?st h1 Then_future_set Set_start Future_default [])"
    by (rule run_on [OF _ thread_step.assign_future [where h = ?X]]) (simp_all add: h1 [symmetric])
  then have "?R\<^sup>*\<^sup>* (threads_init h) (?st h1 Then_done Set_start Future_default [])"
    by (rule run_on [OF _ thread_step.unlock_state]) simp_all
  then have "?R\<^sup>*\<^sup>* (threads_init h) (?st (locked p h1) Then_done Set_locked Future_default [])"
    by (rule run_on [OF _ thread_step.lock_promise]) (use own1 in \<open>simp_all add: owns_def promise_at_def\<close>)
  then have "?R\<^sup>*\<^sup>* (threads_init h) (?st ?L Then_done Set_stored Future_default [])"
    by (rule run_on [OF _ thread_step.set_content [where h = ?L]])
      (use own1 in \<open>simp_all add: owns_def promise_at_def locked_def set_promise_def std_set_eq content_at_def store_def\<close>)
  then have "?R\<^sup>*\<^sup>* (threads_init h) (?st ?L Then_done Set_has_continuation Future_default [])"
    by (rule run_on [OF _ thread_step.continuation]) (use own1 in \<open>simp_all add: HasContinuation_def then_between_def\<close>)
  then have taken: "?R\<^sup>*\<^sup>* (threads_init h) (?st (detach s ?L) Then_done (Set_run True) ?F [])"
    by (rule run_on [OF _ thread_step.take_future [where F = ?F and h = "detach s ?L"]])
      (use dom in \<open>simp_all add: State_get_future_def detach_def Future_valid_def Future_ctor_def then_between_def
        h1_def spawn_simps\<close>)
  have ran: "run_closure cbs (fire_within cbs (Suc n)) K ?F (detach s ?L) =
      (Ret (), store (length (shared h)) d (detach s ?L))"
    unfolding K_def
  proof (rule closure_run [OF k])
    show "owns (detach s ?L) (next_promise h) (length (shared h)) (length (states h))"
      using dom by (simp add: h1_def owns_locked spawn_simps next_promise_def) (simp add: spawn_simps(8) next_promise_def [symmetric])
    show "delivered cbs k f ?F (detach s ?L) = (out, detach s ?L)"
      using pure_callD [OF call(1), of "detach s ?L"] dom by (simp add: Future_ctor_def h1_def spawn_simps)
  qed (use dom call in \<open>simp_all add: h1_def spawn_simps\<close>)
  have cont: "unique_continuation (states (detach s ?L) ! s) = Some K"
    using dom by (simp add: h1_def spawn_simps)
  show ?thesis
    by (rule run_on [OF taken thread_step.run_stored [where v = True and K = K
          and h = "store (length (shared h)) d (detach s ?L)"]])
      (use ran cont in \<open>simp_all add: store_locked\<close>)
qed

lemma run_setter_first:
  fixes cbs :: "('v, 'f) callables"
  assumes set: "race_setting cbs k f p a s c d e h"
  defines "K \<equiv> Continuation k False f (next_promise h)"
  shows "(thread_step cbs (fire_within cbs (Suc n)) k f p a s c)\<^sup>*\<^sup>* (threads_init h)
    \<lparr>heap_now = store (length (shared h)) d (spawn (store a c h)),
     then_thread = Then_done, setter_thread = Set_done, made = K, taken = Future_default,
     passed = [Future_ctor (Some a) (Some s)], met = False\<rparr>"
proof -
  let ?F = "Future_ctor (Some a) (Some s)" and ?R = "thread_step cbs (fire_within cbs (Suc n)) k f p a s c"
  let ?I = "InnerContinuation False False 0" and ?h = "store a c h"
  let ?st = "\<lambda>H tp sp K gs. \<lparr>heap_now = H, then_thread = tp, setter_thread = sp, made = K, taken = Future_default,
    passed = gs, met = False\<rparr>"
  have own: "owns h p a s" and pend: "content_at h a = Pending" and c: "c \<noteq> Pending"
    and none: "states h ! s = \<lparr>unique_continuation = None, delegate_future = None\<rparr>"
    and k: "direct k" using set by (simp_all add: race_setting_def)
  obtain out where call: "pure_call cbs k f a s c out" "outcome_content out = Some d"
    using set by (auto simp: race_setting_def)
  have dom: "a < length (shared h)" "s < length (states h)" "p < length (promises h)"
    using own by (simp_all add: owns_def)
  have del: "delegate_promise (promise_at (locked p h) p) = Some a"
    using own by (simp add: promise_at_def locked_owned [OF own]) (simp add: owns_def)
  have "?R\<^sup>*\<^sup>* (threads_init h) (threads_init h)" by simp
  then have "?R\<^sup>*\<^sup>* (threads_init h) (?st (locked p h) Then_start Set_locked ?I [])"
    by (rule run_on [OF _ thread_step.lock_promise])
      (use own in \<open>simp_all add: threads_init_def owns_def promise_at_def\<close>)
  then have "?R\<^sup>*\<^sup>* (threads_init h) (?st (locked p ?h) Then_start Set_stored ?I [])"
    by (rule run_on [OF _ thread_step.set_content [where h = "locked p ?h"]])
      (use pend del in \<open>simp_all add: std_set_eq store_locked\<close>)
  then have "?R\<^sup>*\<^sup>* (threads_init h) (?st ?h Then_start Set_done ?I [])"
    by (rule run_on [OF _ thread_step.no_continuation])
      (use none own in \<open>simp_all add: HasContinuation_def then_between_def\<close>)
  then have "?R\<^sup>*\<^sup>* (threads_init h) (?st (spawn ?h) Then_locked Set_done K [])"
    by (rule run_on [OF _ thread_step.prologue [where q = "next_promise h" and h = "spawn ?h"]])
      (simp_all add: prologue_eq K_def next_promise_def)
  then have ready: "?R\<^sup>*\<^sup>* (threads_init h) (?st (spawn ?h) Then_run Set_done K [])"
    by (rule run_on [OF _ thread_step.is_ready])
      (use c dom in \<open>simp_all add: is_ready_eq Future_ctor_def spawn_simps\<close>)
  have ran: "run_closure cbs (fire_within cbs (Suc n)) K ?F (spawn ?h) =
      (Ret (), store (length (shared h)) d (spawn ?h))"
    unfolding K_def
  proof (rule closure_run [OF k])
    show "owns (spawn ?h) (next_promise h) (length (shared h)) (length (states h))"
      using spawn_simps(8) [of ?h] by (simp add: next_promise_def)
    show "content_at (spawn ?h) (length (shared h)) = Pending"
      "unique_continuation (states (spawn ?h) ! length (states h)) = None"
      using spawn_simps(5,7) [of ?h] by simp_all
    show "delivered cbs k f ?F (spawn ?h) = (out, spawn ?h)"
      using pure_callD [OF call(1), of "spawn ?h"] dom by (simp add: Future_ctor_def spawn_simps)
  qed (rule call(2))
  show ?thesis
    by (rule run_on [OF ready thread_step.run_now [where h = "store (length (shared h)) d (spawn ?h)"]])
      (use ran in simp_all)
qed

section \<open>Every abstract interleaving happens on the heap\<close>

lemma race_step_moves:
  "race_step r r' \<Longrightarrow> (then_at r' = then_at r) \<noteq> (setter_at r' = setter_at r)"
  by (erule race_stepE) simp_all

text \<open>Each thread has one next step.\<close>

definition then_next :: "race \<Rightarrow> race" where
  "then_next r =
     (case then_at r of
        Then_start \<Rightarrow> r\<lparr>then_at := Then_locked\<rparr>
      | Then_locked \<Rightarrow> r\<lparr>then_at := (if ready r then Then_run else Then_not_ready)\<rparr>
      | Then_not_ready \<Rightarrow> r\<lparr>then_at := Then_continuation_set, has_continuation := True\<rparr>
      | Then_continuation_set \<Rightarrow> r\<lparr>then_at := Then_future_set, has_future := True\<rparr>
      | Then_future_set \<Rightarrow> r\<lparr>then_at := Then_done\<rparr>
      | Then_run \<Rightarrow> r\<lparr>then_at := Then_done, runs := runs r @ [True]\<rparr>
      | Then_done \<Rightarrow> r)"

definition setter_next :: "race \<Rightarrow> race" where
  "setter_next r =
     (case setter_at r of
        Set_start \<Rightarrow> r\<lparr>setter_at := Set_locked\<rparr>
      | Set_locked \<Rightarrow> r\<lparr>setter_at := Set_stored, ready := True\<rparr>
      | Set_stored \<Rightarrow> r\<lparr>setter_at := (if has_continuation r then Set_has_continuation else Set_done),
                         overlap := overlap r \<or> in_window r\<rparr>
      | Set_has_continuation \<Rightarrow> r\<lparr>setter_at := Set_run (has_future r), has_future := False,
                                  overlap := overlap r \<or> in_window r\<rparr>
      | Set_run v \<Rightarrow> r\<lparr>setter_at := Set_done, runs := runs r @ [v]\<rparr>
      | Set_done \<Rightarrow> r)"

lemma race_step_next:
  "race_step r r' \<Longrightarrow> (then_at r' \<noteq> then_at r \<longrightarrow> r' = then_next r) \<and> (setter_at r' \<noteq> setter_at r \<longrightarrow> r' = setter_next r)"
  by (erule race_stepE) (simp_all add: then_next_def setter_next_def)

lemma thread_then_moves:
  assumes set: "race_setting cbs k f p a s c d e h0"
    and inv: "threads_inv k f p a s c d e A S q t" and reach: "race_reachable (abs_race a s t)"
    and pc: "then_thread t \<noteq> Then_done"
  shows "\<exists>t'. thread_step cbs (fire_within cbs (Suc n)) k f p a s c t t' \<and> then_thread t' \<noteq> then_thread t"
proof (cases "then_thread t")
  case Then_start
  then show ?thesis using thread_step.prologue [OF Then_start prologue_eq] by fastforce
next
  case Then_locked
  then show ?thesis
    using thread_step.is_ready [OF Then_locked, of a s] thread_step.is_pending [OF Then_locked, of a s]
    by (cases "content_at (heap_now t) a = Pending") (fastforce simp: is_ready_eq Future_ctor_def)+
next
  case Then_not_ready
  then show ?thesis using thread_step.assign_continuation [OF Then_not_ready refl] by fastforce
next
  case Then_continuation_set
  then show ?thesis using thread_step.assign_future [OF Then_continuation_set refl] by fastforce
next
  case Then_future_set
  then show ?thesis using thread_step.unlock_state [OF Then_future_set] by fastforce
next
  case Then_run
  obtain r h where "run_closure cbs (fire_within cbs (Suc n)) (made t) (Future_ctor (Some a) (Some s)) (heap_now t) = (r, h)"
    by force
  from thread_step.run_now [OF Then_run this, of k f p c] show ?thesis using Then_run by fastforce
qed (use pc in simp)

lemma thread_setter_moves:
  assumes set: "race_setting cbs k f p a s c d e h0"
    and inv: "threads_inv k f p a s c d e A S q t" and reach: "race_reachable (abs_race a s t)"
    and pc: "setter_thread t \<noteq> Set_done"
  shows "\<exists>t'. thread_step cbs (fire_within cbs (Suc n)) k f p a s c t t' \<and> setter_thread t' \<noteq> setter_thread t"
proof (cases "setter_thread t")
  case Set_start
  then have "\<not> mutex_held (promise_at (heap_now t) p)"
    using inv by (simp add: threads_inv_def Let_def promise_at_def)
  from thread_step.lock_promise [OF Set_start this, of cbs _ k f a s c] Set_start show ?thesis by fastforce
next
  case Set_locked
  have "c \<noteq> Pending" using set by (simp add: race_setting_def)
  from thread_step.set_content [OF Set_locked sim_store(1) [OF inv Set_locked this]] Set_locked
  show ?thesis by fastforce
next
  case Set_stored
  then show ?thesis
    using thread_step.no_continuation [OF Set_stored] thread_step.continuation [OF Set_stored]
    by (cases "HasContinuation s (heap_now t)") fastforce+
next
  case Set_has_continuation
  obtain F h where "State_get_future s (heap_now t) = (Ret F, h)" by (simp add: State_get_future_def)
  from thread_step.take_future [OF Set_has_continuation this] Set_has_continuation show ?thesis by fastforce
next
  case (Set_run v)
  have "race_inv (abs_race a s t)" using reach by (rule race_inv_reachable)
  then have "HasContinuation s (heap_now t)"
    using Set_run by (simp add: race_inv_def abs_race_def will_run_setter_def)
  then obtain K where K: "unique_continuation (states (heap_now t) ! s) = Some K"
    by (auto simp: HasContinuation_def)
  obtain r h where "run_closure cbs (fire_within cbs (Suc n)) K (taken t) (heap_now t) = (r, h)" by force
  from thread_step.run_stored [OF Set_run K this] Set_run show ?thesis by fastforce
qed (use pc in simp)

lemma race_step_concrete:
  assumes set: "race_setting cbs k f p a s c d e h0"
    and inv: "threads_inv k f p a s c d e A S q t" and reach: "race_reachable (abs_race a s t)"
    and step: "race_step (abs_race a s t) r'"
  shows "\<exists>t'. thread_step cbs (fire_within cbs (Suc n)) k f p a s c t t' \<and> abs_race a s t' = r'"
proof (cases "then_at r' = then_thread t")
  case False
  then have "then_thread t \<noteq> Then_done" using step by (auto simp: abs_race_def elim: race_stepE)
  then obtain t' where t': "thread_step cbs (fire_within cbs (Suc n)) k f p a s c t t'" "then_thread t' \<noteq> then_thread t"
    using thread_then_moves [OF set inv reach] by blast
  then have "race_step (abs_race a s t) (abs_race a s t')"
    using thread_step_simulates [OF t'(1) set inv reach] by (simp add: simulates_def)
  from race_step_next [OF this] race_step_next [OF step] t' False show ?thesis by (auto simp: abs_race_def)
next
  case True
  then have moved: "setter_at r' \<noteq> setter_thread t"
    using race_step_moves [OF step] by (simp add: abs_race_def)
  then have "setter_thread t \<noteq> Set_done" using step by (auto simp: abs_race_def elim: race_stepE)
  then obtain t' where t': "thread_step cbs (fire_within cbs (Suc n)) k f p a s c t t'" "setter_thread t' \<noteq> setter_thread t"
    using thread_setter_moves [OF set inv reach] by blast
  then have "race_step (abs_race a s t) (abs_race a s t')"
    using thread_step_simulates [OF t'(1) set inv reach] by (simp add: simulates_def)
  from race_step_next [OF this] race_step_next [OF step] t' moved show ?thesis by (auto simp: abs_race_def)
qed

lemma race_reachable_concrete:
  assumes set: "race_setting cbs k f p a s c d e h" and reach: "race_reachable r"
  shows "\<exists>t. (thread_step cbs (fire_within cbs (Suc n)) k f p a s c)\<^sup>*\<^sup>* (threads_init h) t \<and> abs_race a s t = r"
  using reach
proof induction
  case init
  show ?case using threads_inv_init(2) [OF set] by blast
next
  case (step r r')
  then obtain t where t: "(thread_step cbs (fire_within cbs (Suc n)) k f p a s c)\<^sup>*\<^sup>* (threads_init h) t"
    "abs_race a s t = r" by blast
  from threads_simulate [OF t(1) set] race_step_concrete [OF set, of _ _ _ t r' n] step(2) t
  show ?case by (blast intro: rtranclp.rtrancl_into_rtrancl)
qed

section \<open>The properties\<close>

text \<open>The example: a fresh promise, a callable that adds 7, the value 5.\<close>

lemma add_invalid:
  "delivered add_callables KValue f (Future_ctor None (Some s)) h =
     (Throws (AraException \<lparr>exn_type = vt_Exception (mDomain (std_errc 3)), error_code = std_errc 3\<rparr>), h)"
  by (simp add: add_callables_def Future_get_def GetResult_eq Future_ctor_def pbind_def pret_def split_def
      ErrorCode_ThrowAsException_def ErrorDomain_ThrowAsException_def ThrowOrTerminate_def
      Exception_ctor_def ErrorCode_Domain_def std_errc_def)

lemma race_setting_example:
  "race_setting add_callables KValue 7 0 0 0 (Stored (HasV (Val 5))) (Stored (HasV (Val 12)))
     (Stored (HasE (std_errc 4))) fresh_heap"
proof -
  let ?ex = "Throws (AraException \<lparr>exn_type = vt_Exception (mDomain (std_errc 3)), error_code = std_errc 3\<rparr>)"
  have "pure_call add_callables KValue 7 0 0 (Stored (HasV (Val 5))) (Ret (HasV (Val 12)))"
    using add_delivered [of _ 0 5 7 0] by (simp add: pure_call_def)
  moreover have "outcome_content (Ret (HasV (Val 12))) = Some (Stored (HasV (Val (12 :: int))))" by simp
  moreover have "outcome_content ?ex = Some (Stored (HasE (std_errc 4)))" by (simp add: std_errc_def)
  moreover have "owns fresh_heap 0 0 0" "content_at fresh_heap 0 = Pending"
    "states fresh_heap ! 0 = \<lparr>unique_continuation = None, delegate_future = None\<rparr>"
    by (simp_all add: fresh_heap_eq owns_def content_at_def)
  ultimately show ?thesis
    unfolding race_setting_def using add_invalid [of 7 0] by (auto simp: direct_def simp del: outcome_content.simps)
qed

text \<open>
  C4. The heap operations of \<open>then\<close> and of a setter, interleaved in any way, and the abstract
  race simulate each other: every reachable state maps to a reachable one and has just the
  steps of its image. So the closure runs at most once; neither thread waits for ever, since a
  state in which a call has not ended has a step and every step lowers a rank.
  When both calls have ended, the shared state holds what was set, the mutex is free, and the
  next future holds what the callable made of the future it was given, or nothing if the
  continuation was lost; without overlap it holds what the callable made of the set content.
\<close>

theorem Race_refines_heap:
  assumes run: "(thread_step cbs (fire_within cbs (Suc n)) k f p a s c)\<^sup>*\<^sup>* (threads_init h) t"
    and set: "race_setting cbs k f p a s c d e h"
  shows "race_reachable (abs_race a s t)
    \<and> length (passed t) \<le> 1
    \<and> (race_finished (abs_race a s t) \<longrightarrow>
         content_at (heap_now t) a = c \<and> \<not> mutex_held (promise_at (heap_now t) p) \<and>
         content_at (heap_now t) (length (shared h)) = next_content d e (passed t))
    \<and> (race_finished (abs_race a s t) \<and> \<not> met t \<longrightarrow>
         length (passed t) = 1 \<and> content_at (heap_now t) (length (shared h)) = d)
    \<and> (\<forall>r. race_step (abs_race a s t) r \<longleftrightarrow>
         (\<exists>t'. thread_step cbs (fire_within cbs (Suc n)) k f p a s c t t' \<and> abs_race a s t' = r))
    \<and> (\<not> race_finished (abs_race a s t) \<longrightarrow>
         (\<exists>t'. thread_step cbs (fire_within cbs (Suc n)) k f p a s c t t'))
    \<and> (\<forall>t'. thread_step cbs (fire_within cbs (Suc n)) k f p a s c t t' \<longrightarrow>
         then_rank (then_thread t') + setter_rank (setter_thread t')
           < then_rank (then_thread t) + setter_rank (setter_thread t))"
proof -
  have inv: "threads_inv k f p a s c d e (length (shared h)) (length (states h)) (next_promise h) t"
    and reach: "race_reachable (abs_race a s t)"
    using threads_simulate [OF run set] by simp_all
  have "length (runs (abs_race a s t)) \<le> 1"
    "race_finished (abs_race a s t) \<and> \<not> overlap (abs_race a s t) \<longrightarrow> runs (abs_race a s t) = [True]"
    using Future_race_once [OF reach] by simp_all
  then have once: "length (passed t) \<le> 1"
    and valid: "race_finished (abs_race a s t) \<and> \<not> met t \<longrightarrow> map Future_valid (passed t) = [True]"
    by (simp_all add: abs_race_def)
  have fin: "race_finished (abs_race a s t) \<longrightarrow>
         content_at (heap_now t) a = c \<and> \<not> mutex_held (promise_at (heap_now t) p) \<and>
         content_at (heap_now t) (length (shared h)) = next_content d e (passed t)"
    using inv by (auto simp: race_finished_def abs_race_def threads_inv_def Let_def promise_at_def)
  moreover have "next_content d e (passed t) = d" if "map Future_valid (passed t) = [True]"
    using that by (auto simp: next_content_def)
  moreover have "length (passed t) = 1" if "map Future_valid (passed t) = [True]"
    using that by auto
  moreover have same: "race_step (abs_race a s t) r \<longleftrightarrow>
      (\<exists>t'. thread_step cbs (fire_within cbs (Suc n)) k f p a s c t t' \<and> abs_race a s t' = r)" for r
    using race_step_concrete [OF set inv reach] thread_step_simulates [OF _ set inv reach]
    by (auto simp: simulates_def)
  moreover have "\<exists>t'. thread_step cbs (fire_within cbs (Suc n)) k f p a s c t t'"
    if "\<not> race_finished (abs_race a s t)"
    using race_step_exists [OF that] same by blast
  moreover have "then_rank (then_thread t') + setter_rank (setter_thread t')
      < then_rank (then_thread t) + setter_rank (setter_thread t)"
    if "thread_step cbs (fire_within cbs (Suc n)) k f p a s c t t'" for t'
    using race_step_decreases [of "abs_race a s t" "abs_race a s t'"] same [of "abs_race a s t'"] that
    by (auto simp: abs_race_def)
  ultimately show ?thesis using reach once valid by auto
qed

theorem Race_refines_heap_witness:
  "\<exists>t. (thread_step add_callables (fire_within add_callables 1) KValue 7 0 0 0 (Stored (HasV (Val 5))))\<^sup>*\<^sup>*
         (threads_init fresh_heap) t \<and> race_finished (abs_race 0 0 t) \<and> content_at (heap_now t) 1 = Stored (HasV (Val 12))"
proof -
  let ?t = "\<lparr>heap_now = store (length (shared fresh_heap)) (Stored (HasV (Val 12)))
      (spawn (store 0 (Stored (HasV (Val 5))) fresh_heap)),
     then_thread = Then_done, setter_thread = Set_done, made = Continuation KValue False 7 (next_promise fresh_heap),
     taken = Future_default, passed = [Future_ctor (Some 0) (Some 0)], met = False\<rparr>"
  note run = run_setter_first [OF race_setting_example, of 0]
  have fin: "race_finished (abs_race 0 0 ?t)" "\<not> met ?t" by (simp_all add: race_finished_def abs_race_def)
  then have "content_at (heap_now ?t) (length (shared fresh_heap)) = Stored (HasV (Val 12))"
    using Race_refines_heap [OF run race_setting_example] by blast
  then have "content_at (heap_now ?t) 1 = Stored (HasV (Val 12))" by (simp only: fresh_facts(3))
  with run fin show ?thesis by (simp only: One_nat_def) blast
qed

text \<open>
  C15. The steps of the two threads are those of the members: run one thread after the other, in
  either order, they end in exactly the heap that \<open>Future_then\<close> and the setter, called in that
  order, leave.
\<close>

theorem Race_sequential:
  fixes n :: nat
  assumes set: "race_setting cbs k f p a s (Stored (HasV v)) d e h"
  defines "fire \<equiv> fire_within cbs (Suc n)" and "F \<equiv> Future_ctor (Some a) (Some s)"
  shows "\<exists>t u F1 h1 G1 g1.
      (thread_step cbs fire k f p a s (Stored (HasV v)))\<^sup>*\<^sup>* (threads_init h) t
    \<and> Future_then cbs fire k f F h = (Ret (next_future h, F1), h1)
    \<and> Promise_set_value_lvalue (fire_within cbs (Suc (Suc n))) p v h1 = (Ret (), heap_now t)
    \<and> (thread_step cbs fire k f p a s (Stored (HasV v)))\<^sup>*\<^sup>* (threads_init h) u
    \<and> Promise_set_value_lvalue (fire_within cbs (Suc (Suc n))) p v h = (Ret (), g1)
    \<and> Future_then cbs fire k f F g1 = (Ret (next_future h, G1), heap_now u)
    \<and> race_finished (abs_race a s t) \<and> race_finished (abs_race a s u) \<and> \<not> met t \<and> \<not> met u"
proof -
  let ?c = "Stored (HasV v)" and ?A = "length (shared h)"
  have own: "owns h p a s" and pend: "content_at h a = Pending" and k: "direct k"
    and quiet: "unique_continuation (states h ! s) = None"
    using set by (simp_all add: race_setting_def)
  obtain out where call: "pure_call cbs k f a s ?c out" "outcome_content out = Some d"
    using set by (auto simp: race_setting_def)
  have dom: "a < ?A" "s < length (states h)" using own by (simp_all add: owns_def)
  have F: "F = \<lparr>delegate_future_of = Some a, extra_state_of = Some s\<rparr>" by (simp add: F_def Future_ctor_def)
  have first: "Future_then cbs fire k f F h = (Ret (next_future h, F\<lparr>delegate_future_of := None\<rparr>),
      attach s (Continuation k False f (next_promise h)) (Some a) (spawn h))"
    using pend by (simp add: then_overloads then_generic_eq [OF F dom])
  have second: "Promise_set_value_lvalue (fire_within cbs (Suc (Suc n))) p v
      (attach s (Continuation k False f (next_promise h)) (Some a) (spawn h)) =
      (Ret (), unlocked p (store ?A d (detach s (locked p (store a ?c
        (attach s (Continuation k False f (next_promise h)) (Some a) (spawn h)))))))"
    unfolding settle_cases by (rule settle_attached [OF own pend _ k call refl]) simp
  have set_first: "Promise_set_value_lvalue (fire_within cbs (Suc (Suc n))) p v h = (Ret (), store a ?c h)"
    unfolding settle_cases by (rule settle_quiet [OF own pend quiet])
  have "delivered cbs k f F (spawn (store a ?c h)) = (out, spawn (store a ?c h))"
    using pure_callD [OF call(1), of "spawn (store a ?c h)"] dom by (simp add: F spawn_simps)
  then have "then_generic cbs fire k False f F (store a ?c h) =
      (Ret (next_future (store a ?c h), Future_default), store ?A d (spawn (store a ?c h)))"
    unfolding fire_def using dom Future_Then.then_ready [OF F _ _ _ k _ call(2), where h = "store a ?c h"] by simp
  then have then_second: "Future_then cbs fire k f F (store a ?c h) =
      (Ret (next_future h, Future_default), store ?A d (spawn (store a ?c h)))"
    by (simp add: then_overloads next_future_def)
  show ?thesis
    using run_then_first [OF set, of n] run_setter_first [OF set, of n] first second set_first then_second
    unfolding fire_def [symmetric]
    by (intro exI conjI) (assumption | simp add: race_finished_def abs_race_def)+
qed

theorem Race_sequential_witness:
  "\<exists>t u. (thread_step add_callables (fire_within add_callables 1) KValue 7 0 0 0 (Stored (HasV (Val 5))))\<^sup>*\<^sup>*
         (threads_init fresh_heap) t
    \<and> (thread_step add_callables (fire_within add_callables 1) KValue 7 0 0 0 (Stored (HasV (Val 5))))\<^sup>*\<^sup>*
         (threads_init fresh_heap) u
    \<and> race_finished (abs_race 0 0 t) \<and> race_finished (abs_race 0 0 u)"
  using Race_sequential [OF race_setting_example, of 0] by auto

end
