(* ===== verification/Concurrent_Setters.thy ===== *)
theory Concurrent_Setters
  imports Future_Correct
begin

text \<open>
  Any number of threads that set the same promise. The members of \<open>Promise\<close> hold its mutex from
  their first statement to their last, so every interleaving of their parts has the effect
  of the calls one after the other in some order, and only one of them succeeds.
\<close>

section \<open>The threads\<close>

datatype 'v setter_call = Set_value "'v val" | Set_error ErrorCode | Set_exception cxx_exn

text \<open>One call of a setter, whole, and what it puts into the shared state.\<close>

fun call_setter :: "('v, 'f) fire \<Rightarrow> addr \<Rightarrow> 'v setter_call \<Rightarrow> ('v, 'f, unit) proc" where
  "call_setter fire p (Set_value v) = Promise_set_value_lvalue fire p v"
| "call_setter fire p (Set_error e) = Promise_SetError_lvalue fire p e"
| "call_setter fire p (Set_exception ex) = Promise_set_exception fire p ex"

fun content_of :: "'v setter_call \<Rightarrow> 'v content" where
  "content_of (Set_value v) = Stored (HasV v)"
| "content_of (Set_error e) = Stored (HasE e)"
| "content_of (Set_exception ex) = StoredException ex"

text \<open>
  The parts of a call: it waits for the mutex, stores, fires the continuation; it leaves by
  a return or an exception, which gives the mutex back.
\<close>

datatype setter_phase = Waiting | Holding | Filled | Finished "(cxx_exn, unit) outcome"

record ('v, 'f) setters =
  heap_of :: "('v, 'f) heap"
  phases :: "setter_phase list"

definition leaves :: "('x, 'a) outcome \<Rightarrow> bool" where
  "leaves r \<longleftrightarrow> returns r \<or> throws r"

inductive setters_step ::
  "('v, 'f) fire \<Rightarrow> addr \<Rightarrow> 'v setter_call list \<Rightarrow> ('v, 'f) setters \<Rightarrow> ('v, 'f) setters \<Rightarrow> bool"
  for fire p calls where
  lock: "i < length calls \<Longrightarrow> phases S ! i = Waiting \<Longrightarrow> p < length (promises (heap_of S)) \<Longrightarrow>
    \<not> mutex_held (promise_at (heap_of S) p) \<Longrightarrow>
    setters_step fire p calls S
      (S\<lparr>heap_of := locked p (heap_of S), phases := (phases S)[i := Holding]\<rparr>)"
| fill: "i < length calls \<Longrightarrow> phases S ! i = Holding \<Longrightarrow>
    std_set (delegate_promise (promise_at (heap_of S) p)) (content_of (calls ! i)) (heap_of S) = (Ret (), h) \<Longrightarrow>
    setters_step fire p calls S (S\<lparr>heap_of := h, phases := (phases S)[i := Filled]\<rparr>)"
| fill_throws: "i < length calls \<Longrightarrow> phases S ! i = Holding \<Longrightarrow>
    std_set (delegate_promise (promise_at (heap_of S) p)) (content_of (calls ! i)) (heap_of S) = (Throws ex, h) \<Longrightarrow>
    setters_step fire p calls S
      (S\<lparr>heap_of := unlocked p h, phases := (phases S)[i := Finished (Throws ex)]\<rparr>)"
| fire_and_leave: "i < length calls \<Longrightarrow> phases S ! i = Filled \<Longrightarrow>
    fire (extra_state (promise_at (heap_of S) p)) (heap_of S) = (r, h) \<Longrightarrow> leaves r \<Longrightarrow>
    setters_step fire p calls S
      (S\<lparr>heap_of := unlocked p h, phases := (phases S)[i := Finished r]\<rparr>)"

definition setters_init :: "('v, 'f) heap \<Rightarrow> 'v setter_call list \<Rightarrow> ('v, 'f) setters" where
  "setters_init h calls = \<lparr>heap_of = h, phases = replicate (length calls) Waiting\<rparr>"

fun is_finished :: "setter_phase \<Rightarrow> bool" where
  "is_finished (Finished r) = True"
| "is_finished _ = False"

definition all_finished :: "('v, 'f) setters \<Rightarrow> bool" where
  "all_finished S \<longleftrightarrow> list_all is_finished (phases S)"

lemma all_finished_iff:
  "length (phases S) = n \<Longrightarrow> all_finished S \<longleftrightarrow> (\<forall>j < n. \<exists>r. phases S ! j = Finished r)"
proof -
  have "is_finished ph \<longleftrightarrow> (\<exists>r. ph = Finished r)" for ph by (cases ph) simp_all
  then show "length (phases S) = n \<Longrightarrow> ?thesis" by (simp add: all_finished_def list_all_length)
qed

section \<open>The calls one after the other\<close>

fun run_setters ::
  "('v, 'f) fire \<Rightarrow> addr \<Rightarrow> 'v setter_call list \<Rightarrow> ('v, 'f) heap \<Rightarrow>
   (cxx_exn, unit) outcome list \<times> ('v, 'f) heap" where
  "run_setters fire p [] h = ([], h)"
| "run_setters fire p (c # cs) h =
     (let (r, h1) = call_setter fire p c h; (rs, h2) = run_setters fire p cs h1 in (r # rs, h2))"

lemma run_setters_snoc:
  "run_setters fire p (cs @ [c]) h =
     (let (rs, h1) = run_setters fire p cs h; (r, h2) = call_setter fire p c h1 in (rs @ [r], h2))"
  by (induction cs arbitrary: h) (simp_all add: split_def Let_def)

lemma call_setter_settle: "call_setter fire p c = settle fire p (content_of c)"
  by (cases c) (simp_all add: settle_cases)

text \<open>A call on a free mutex, in its parts.\<close>

lemma call_setter_parts:
  assumes "\<not> mutex_held (promise_at g p)"
    and "std_set (delegate_promise (promise_at (locked p g) p)) (content_of c) (locked p g) = (r, h)"
  shows "call_setter fire p c g =
    (if r = Ret () then map_prod id (unlocked p) (fire (extra_state (promise_at h p)) h)
     else (r, unlocked p h))"
  using assms
  by (cases r) (auto simp: call_setter_settle settle_def with_lock_def locked_def [symmetric]
      unlocked_def [symmetric] pbind_def split_def Let_def prod_eq_iff)

section \<open>Mutual exclusion\<close>

definition resting :: "setter_phase \<Rightarrow> bool" where
  "resting ph \<longleftrightarrow> ph \<noteq> Holding \<and> ph \<noteq> Filled"

text \<open>
  \<open>g\<close> is the heap the finished calls left. At most one call has begun since: it holds the
  mutex, and it has stored its content or not.
\<close>

definition one_inside ::
  "addr \<Rightarrow> 'v setter_call list \<Rightarrow> ('v, 'f) heap \<Rightarrow> nat \<Rightarrow> ('v, 'f) setters \<Rightarrow> bool" where
  "one_inside p calls g i S \<longleftrightarrow>
     i < length calls \<and> p < length (promises g) \<and> \<not> mutex_held (promise_at g p) \<and>
     (\<forall>j < length calls. j \<noteq> i \<longrightarrow> resting (phases S ! j)) \<and>
     (phases S ! i = Holding \<and> heap_of S = locked p g \<or>
      phases S ! i = Filled \<and>
      std_set (delegate_promise (promise_at (locked p g) p)) (content_of (calls ! i)) (locked p g) =
        (Ret (), heap_of S))"

definition exclusive ::
  "addr \<Rightarrow> 'v setter_call list \<Rightarrow> ('v, 'f) heap \<Rightarrow> ('v, 'f) setters \<Rightarrow> bool" where
  "exclusive p calls g S \<longleftrightarrow>
     heap_of S = g \<and> (\<forall>j < length calls. resting (phases S ! j)) \<or> (\<exists>i. one_inside p calls g i S)"

text \<open>The finished calls, in the order in which they left, are a sequential run.\<close>

definition sequential ::
  "('v, 'f) fire \<Rightarrow> addr \<Rightarrow> 'v setter_call list \<Rightarrow> ('v, 'f) heap \<Rightarrow> nat list \<Rightarrow> ('v, 'f) heap \<Rightarrow>
   ('v, 'f) setters \<Rightarrow> bool" where
  "sequential fire p calls h order g S \<longleftrightarrow>
     length (phases S) = length calls \<and> distinct order \<and>
     set order = {i. i < length calls \<and> (\<exists>r. phases S ! i = Finished r)} \<and>
     (\<exists>rs. run_setters fire p (map ((!) calls) order) h = (rs, g) \<and>
        map ((!) (phases S)) order = map Finished rs)"

definition setters_inv where
  "setters_inv fire p calls h S \<longleftrightarrow>
     (\<exists>order g. sequential fire p calls h order g S \<and> exclusive p calls g S)"

lemma std_set_keeps:
  "promises (snd (std_set pr c h)) = promises h" "states (snd (std_set pr c h)) = states h"
  by (simp_all add: std_set_def split: option.split)

lemma one_inside_held:
  assumes "one_inside p calls g i S"
  shows "mutex_held (promise_at (heap_of S) p)"
proof -
  have "promises (heap_of S) = promises (locked p g)"
    using assms std_set_keeps(1) [of "delegate_promise (promise_at (locked p g) p)" "content_of (calls ! i)" "locked p g"]
    by (auto simp: one_inside_def)
  moreover have "mutex_held (promise_at (locked p g) p)"
    using assms by (simp add: one_inside_def locked_def promise_at_set)
  ultimately show ?thesis by (simp add: promise_at_def)
qed

lemma exclusive_free:
  "exclusive p calls g S \<Longrightarrow> \<not> mutex_held (promise_at (heap_of S) p) \<Longrightarrow>
   heap_of S = g \<and> (\<forall>j < length calls. resting (phases S ! j))"
  by (auto simp: exclusive_def dest: one_inside_held)

lemma exclusive_inside:
  "exclusive p calls g S \<Longrightarrow> i < length calls \<Longrightarrow> \<not> resting (phases S ! i) \<Longrightarrow> one_inside p calls g i S"
  by (auto simp: exclusive_def one_inside_def)

lemma sequential_waits:
  assumes "sequential fire p calls h order g S" "i < length calls"
    "\<not> (\<exists>r. phases S ! i = Finished r)" "\<not> (\<exists>r. ph = Finished r)"
  shows "sequential fire p calls h order g (S\<lparr>heap_of := h', phases := (phases S)[i := ph]\<rparr>)"
proof -
  have "i \<notin> set order" using assms(1,3) by (simp add: sequential_def)
  then have "map ((!) ((phases S)[i := ph])) order = map ((!) (phases S)) order"
    by (intro map_cong refl) (metis nth_list_update_neq)
  moreover have "{j. j < length calls \<and> (\<exists>r. (phases S)[i := ph] ! j = Finished r)} =
      {j. j < length calls \<and> (\<exists>r. phases S ! j = Finished r)}"
    using assms by (auto simp: sequential_def nth_list_update)
  ultimately show ?thesis using assms(1) by (simp add: sequential_def del: map_eq_conv)
qed

lemma sequential_leaves:
  assumes seq: "sequential fire p calls h order g S" and i: "i < length calls"
    and new: "\<not> (\<exists>r. phases S ! i = Finished r)"
    and call: "call_setter fire p (calls ! i) g = (r, g')"
  shows "sequential fire p calls h (order @ [i]) g' (S\<lparr>heap_of := g', phases := (phases S)[i := Finished r]\<rparr>)"
proof -
  have "i \<notin> set order" using seq new by (simp add: sequential_def)
  then have "map ((!) ((phases S)[i := Finished r])) order = map ((!) (phases S)) order"
    by (intro map_cong refl) (metis nth_list_update_neq)
  moreover have "{j. j < length calls \<and> (\<exists>q. (phases S)[i := Finished r] ! j = Finished q)} =
      insert i {j. j < length calls \<and> (\<exists>q. phases S ! j = Finished q)}"
    using seq i by (auto simp: sequential_def nth_list_update)
  ultimately show ?thesis
    using seq i \<open>i \<notin> set order\<close> call
    by (auto simp: sequential_def run_setters_snoc simp del: map_eq_conv)
qed

lemma inside_leaves:
  assumes inside: "one_inside p calls g i S" and len: "length (phases S) = length calls"
  shows "exclusive p calls g' (S\<lparr>heap_of := g', phases := (phases S)[i := Finished r]\<rparr>)"
  using assms by (auto simp: exclusive_def one_inside_def nth_list_update resting_def)

lemma inside_ends:
  assumes seq: "sequential fire p calls h order g S" and inside: "one_inside p calls g i S"
    and call: "call_setter fire p (calls ! i) g = (r, g')"
  shows "setters_inv fire p calls h (S\<lparr>heap_of := g', phases := (phases S)[i := Finished r]\<rparr>)"
proof -
  have i: "i < length calls" "\<not> (\<exists>r. phases S ! i = Finished r)"
    using inside by (auto simp: one_inside_def)
  have "length (phases S) = length calls" using seq by (simp add: sequential_def)
  then show ?thesis
    using sequential_leaves [OF seq i call] inside_leaves [OF inside] by (auto simp: setters_inv_def)
qed

lemma inside_waits:
  assumes seq: "sequential fire p calls h order g S" and i: "i < length calls" "\<not> (\<exists>r. phases S ! i = Finished r)"
    and inside: "one_inside p calls g i (S\<lparr>heap_of := h', phases := (phases S)[i := ph]\<rparr>)"
    and ph: "\<not> (\<exists>r. ph = Finished r)"
  shows "setters_inv fire p calls h (S\<lparr>heap_of := h', phases := (phases S)[i := ph]\<rparr>)"
  using sequential_waits [OF seq i ph] inside by (auto simp: setters_inv_def exclusive_def)

lemma setters_step_inv:
  assumes "setters_step fire p calls S S'" and inv: "setters_inv fire p calls h S"
  shows "setters_inv fire p calls h S'"
proof -
  obtain order g where seq: "sequential fire p calls h order g S" and ex: "exclusive p calls g S"
    using inv by (auto simp: setters_inv_def)
  have len: "length (phases S) = length calls" using seq by (simp add: sequential_def)
  have inside: "one_inside p calls g i S" if "i < length calls" "phases S ! i = Holding \<or> phases S ! i = Filled" for i
    using exclusive_inside [OF ex that(1)] that(2) by (auto simp: resting_def)
  from assms(1) show ?thesis
  proof cases
    case (lock i)
    have "heap_of S = g" "\<forall>j < length calls. resting (phases S ! j)"
      using exclusive_free [OF ex lock(5)] by simp_all
    then have "one_inside p calls g i S'"
      using lock len by (auto simp: one_inside_def nth_list_update)
    then show ?thesis using inside_waits [OF seq lock(2)] lock(1,3) by simp
  next
    case (fill i h1)
    then have "one_inside p calls g i S'"
      using inside [OF fill(2)] len by (auto simp: one_inside_def nth_list_update)
    then show ?thesis using inside_waits [OF seq fill(2)] fill(1,3) by simp
  next
    case (fill_throws i ex h1)
    then have "call_setter fire p (calls ! i) g = (Throws ex, unlocked p h1)"
      using inside [OF fill_throws(2)] call_setter_parts [of g p "calls ! i" "Throws ex" h1 fire]
      by (auto simp: one_inside_def)
    then show ?thesis using inside_ends [OF seq inside] fill_throws by simp
  next
    case (fire_and_leave i r h1)
    then have "call_setter fire p (calls ! i) g = (r, unlocked p h1)"
      using inside [OF fire_and_leave(2)] call_setter_parts [of g p "calls ! i" "Ret ()" "heap_of S" fire]
      by (auto simp: one_inside_def)
    then show ?thesis using inside_ends [OF seq inside] fire_and_leave by simp
  qed
qed

lemma setters_run_inv:
  "(setters_step fire p calls)\<^sup>*\<^sup>* (setters_init h calls) S \<Longrightarrow> setters_inv fire p calls h S"
proof (induction rule: rtranclp_induct)
  case base
  have "sequential fire p calls h [] h (setters_init h calls)" "exclusive p calls h (setters_init h calls)"
    by (auto simp: sequential_def exclusive_def setters_init_def resting_def)
  then show ?case by (auto simp: setters_inv_def)
qed (rule setters_step_inv)

section \<open>One call wins\<close>

lemma content_of_ready [simp]: "content_of c \<noteq> Pending"
  by (cases c) simp_all

lemma run_setters_satisfied:
  assumes "owns h p a s" "content_at h a \<noteq> Pending"
  shows "run_setters fire p cs h = (replicate (length cs) (Throws (StdFutureError future_errc_already_satisfied)), h)"
  by (induction cs) (simp_all add: call_setter_settle settle_satisfied [OF assms])

lemma run_setters_first:
  assumes own: "owns h p a s" and quiet: "content_at h a = Pending" "unique_continuation (states h ! s) = None"
  shows "run_setters (fire_within cbs (Suc n)) p (c # cs) h =
    (Ret () # replicate (length cs) (Throws (StdFutureError future_errc_already_satisfied)),
     store a (content_of c) h)"
proof -
  have "owns (store a (content_of c) h) p a s" "content_at (store a (content_of c) h) a \<noteq> Pending"
    using own by (simp_all add: owns_def [of h])
  then show ?thesis
    by (simp add: call_setter_settle settle_quiet [OF own quiet] run_setters_satisfied del: fire_within.simps)
qed

lemma run_setters_owns:
  assumes own: "owns h p a s" and quiet: "content_at h a = Pending" "unique_continuation (states h ! s) = None"
    and run: "run_setters (fire_within cbs (Suc n)) p cs h = (rs, g)"
  shows "owns g p a s" "unique_continuation (states g ! s) = None"
  using run run_setters_first [OF own quiet, of cbs n] own quiet
  by (cases cs; auto simp del: fire_within.simps)+

lemma setters_progress:
  assumes run: "(setters_step (fire_within cbs (Suc n)) p calls)\<^sup>*\<^sup>* (setters_init h calls) S"
    and own: "owns h p a s" and quiet: "content_at h a = Pending" "unique_continuation (states h ! s) = None"
    and left: "\<not> all_finished S"
  shows "\<exists>S'. setters_step (fire_within cbs (Suc n)) p calls S S'"
proof -
  let ?fire = "fire_within cbs (Suc n)"
  obtain order g where seq: "sequential ?fire p calls h order g S" and ex: "exclusive p calls g S"
    using setters_run_inv [OF run] by (auto simp: setters_inv_def simp del: fire_within.simps)
  have g: "owns g p a s" "unique_continuation (states g ! s) = None"
    using seq run_setters_owns [OF own quiet] by (auto simp: sequential_def simp del: fire_within.simps)
  obtain i where i: "i < length calls" "\<not> (\<exists>r. phases S ! i = Finished r)"
    using left seq all_finished_iff [of S "length calls"] by (auto simp: sequential_def)
  from ex show ?thesis
    unfolding exclusive_def
  proof (elim disjE conjE exE)
    assume rest: "heap_of S = g" "\<forall>j < length calls. resting (phases S ! j)"
    then have "phases S ! i = Waiting" using i by (cases "phases S ! i") (auto simp: resting_def)
    then show ?thesis
      using setters_step.lock [OF i(1), of S p] g(1) rest(1) by (auto simp: owns_def promise_at_def)
  next
    fix j assume inside: "one_inside p calls g j S"
    then have j: "j < length calls" by (simp add: one_inside_def)
    obtain r k where store: "std_set (delegate_promise (promise_at (heap_of S) p)) (content_of (calls ! j)) (heap_of S) = (r, k)"
      by fastforce
    then have "r = Ret () \<or> (\<exists>e. r = Throws e)"
      by (auto simp: std_set_def split: option.splits if_splits)
    moreover have "fst (?fire (extra_state (promise_at (heap_of S) p)) (heap_of S)) = Ret ()" if "phases S ! j = Filled"
    proof -
      have set: "std_set (delegate_promise (promise_at (locked p g) p)) (content_of (calls ! j)) (locked p g) =
          (Ret (), heap_of S)"
        using inside that by (auto simp: one_inside_def)
      then have "states (heap_of S) = states g" "promises (heap_of S) = promises (locked p g)"
        using std_set_keeps [of "delegate_promise (promise_at (locked p g) p)" "content_of (calls ! j)" "locked p g"]
        by simp_all
      then have "extra_state (promise_at (heap_of S) p) = Some s" "unique_continuation (states (heap_of S) ! s) = None"
        using g by (simp_all add: locked_owned [OF g(1)] promise_at_def owns_def)
      then show ?thesis using fire_none [of "heap_of S" s cbs n] by (simp del: fire_within.simps)
    qed
    ultimately show ?thesis
      using inside store setters_step.fill [OF j, of S p] setters_step.fill_throws [OF j, of S p]
        setters_step.fire_and_leave [OF j, of S ?fire p "Ret ()"]
      by (auto simp: one_inside_def leaves_def prod_eq_iff simp del: fire_within.simps)
  qed
qed

text \<open>Every step brings a thread nearer to its end.\<close>

fun parts_left :: "setter_phase \<Rightarrow> nat" where
  "parts_left Waiting = 3"
| "parts_left Holding = 2"
| "parts_left Filled = 1"
| "parts_left (Finished r) = 0"

lemma setters_step_length: "setters_step fire p calls S S' \<Longrightarrow> length (phases S') = length (phases S)"
  by (induction rule: setters_step.induct) simp_all

lemma setters_step_parts:
  assumes "setters_step fire p calls S S'" "length (phases S) = length calls"
  shows "sum_list (map parts_left (phases S')) < sum_list (map parts_left (phases S))"
proof -
  have less: "sum_list (map parts_left ((phases S)[i := ph])) < sum_list (map parts_left (phases S))"
    if "i < length (phases S)" "parts_left ph < parts_left (phases S ! i)" for i ph
    using that member_le_sum_list [of "parts_left (phases S ! i)" "map parts_left (phases S)"]
    by (simp add: map_update sum_list_update)
  show ?thesis
    using assms(1) by cases (use assms(2) less in simp_all)
qed

lemma setters_steps_bounded:
  "(setters_step fire p calls ^^ k) (setters_init h calls) S \<Longrightarrow>
   length (phases S) = length calls \<and> k + sum_list (map parts_left (phases S)) \<le> 3 * length calls"
proof (induction k arbitrary: S)
  case 0
  then show ?case by (auto simp: setters_init_def sum_list_replicate)
next
  case (Suc k)
  then obtain T where T: "(setters_step fire p calls ^^ k) (setters_init h calls) T" "setters_step fire p calls T S"
    by auto
  with Suc.IH [OF T(1)] setters_step_parts [OF T(2)] setters_step_length [OF T(2)] show ?case by simp
qed

text \<open>
  C9. Setters of one promise in any number of threads are linearizable: whatever the interleaving,
  when all have ended their outcomes and the heap are those of the calls one after the other in
  some order. On a pending promise without continuation exactly one of them succeeds, its content
  is what the future gets, and all others throw \<open>promise_already_satisfied\<close>; there is no
  deadlock, and a schedule has at most three steps for each thread.
\<close>

theorem Setters_linearizable:
  fixes h :: "('v, 'f) heap" and cbs :: "('v, 'f) callables" and n :: nat
  defines "fire \<equiv> fire_within cbs (Suc n)"
  assumes run: "(setters_step fire p calls ^^ k) (setters_init h calls) S"
  shows "k \<le> 3 * length calls
    \<and> (all_finished S \<longrightarrow>
        (\<exists>order rs. distinct order \<and> set order = {..<length calls}
          \<and> run_setters fire p (map ((!) calls) order) h = (rs, heap_of S)
          \<and> map ((!) (phases S)) order = map Finished rs))
    \<and> (owns h p a s \<and> content_at h a = Pending \<and> unique_continuation (states h ! s) = None \<longrightarrow>
        (\<not> all_finished S \<longrightarrow> (\<exists>S'. setters_step fire p calls S S')) \<and>
        (all_finished S \<and> calls \<noteq> [] \<longrightarrow>
          (\<exists>i < length calls. phases S ! i = Finished (Ret ())
            \<and> content_at (heap_of S) a = content_of (calls ! i)
            \<and> (\<forall>j < length calls. j \<noteq> i \<longrightarrow> phases S ! j = Finished (Throws (StdFutureError 2))))))"
proof -
  have star: "(setters_step fire p calls)\<^sup>*\<^sup>* (setters_init h calls) S"
    using run by (rule relpowp_imp_rtranclp)
  have order: "\<exists>order rs. distinct order \<and> set order = {..<length calls}
      \<and> run_setters fire p (map ((!) calls) order) h = (rs, heap_of S)
      \<and> map ((!) (phases S)) order = map Finished rs" if fin: "all_finished S"
  proof -
    obtain order g where seq: "sequential fire p calls h order g S" and ex: "exclusive p calls g S"
      using setters_run_inv [OF star] by (auto simp: setters_inv_def)
    have "\<exists>r. phases S ! j = Finished r" if "j < length calls" for j
      using fin seq that all_finished_iff [of S "length calls"] by (auto simp: sequential_def)
    then have "set order = {..<length calls}" "heap_of S = g"
      using seq ex by (force simp: sequential_def exclusive_def one_inside_def)+
    with seq show ?thesis by (auto simp: sequential_def)
  qed
  have winner: "\<exists>i < length calls. phases S ! i = Finished (Ret ())
      \<and> content_at (heap_of S) a = content_of (calls ! i)
      \<and> (\<forall>j < length calls. j \<noteq> i \<longrightarrow> phases S ! j = Finished (Throws (StdFutureError 2)))"
    if own: "owns h p a s" and quiet: "content_at h a = Pending" "unique_continuation (states h ! s) = None"
      and fin: "all_finished S" "calls \<noteq> []"
  proof -
    obtain order rs where o: "distinct order" "set order = {..<length calls}"
        "run_setters fire p (map ((!) calls) order) h = (rs, heap_of S)"
        "map ((!) (phases S)) order = map Finished rs"
      using order [OF fin(1)] by blast
    then obtain i rest where i: "order = i # rest" using fin(2) by (cases order) auto
    then have "rs = Ret () # replicate (length rest) (Throws (StdFutureError 2))"
        and heap: "heap_of S = store a (content_of (calls ! i)) h"
      using o(3) run_setters_first [OF own quiet, of cbs n] by (auto simp: fire_def future_errc_defs)
    then have ph: "phases S ! i = Finished (Ret ())" "\<forall>j \<in> set rest. phases S ! j = Finished (Throws (StdFutureError 2))"
      using o(4) by (simp_all add: i map_eq_conv flip: map_replicate_const)
    have "a < length (shared h)" using own by (simp add: owns_def)
    moreover have "i < length calls" using o(2) i by auto
    moreover have "j \<in> set rest" if "j < length calls" "j \<noteq> i" for j using that o(2) i by auto
    ultimately show ?thesis using ph heap by auto
  qed
  show ?thesis
    using setters_steps_bounded [OF run] order winner setters_progress [OF star [unfolded fire_def]]
    by (auto simp: fire_def)
qed

text \<open>Two threads: the second one wins.\<close>

lemma two_setters:
  fixes c d :: "int setter_call"
  defines "fire \<equiv> fire_within no_callables 1" and "h \<equiv> store 0 (content_of d) fresh_heap"
  shows "(setters_step fire 0 [c, d] ^^ 5) (setters_init fresh_heap [c, d])
    \<lparr>heap_of = h, phases = [Finished (Throws (StdFutureError 2)), Finished (Ret ())]\<rparr>"
proof -
  let ?step = "setters_step fire 0 [c, d]"
  let ?S = "\<lambda>h x y. \<lparr>heap_of = h, phases = [x, y]\<rparr> :: (int, int) setters"
  have own: "owns fresh_heap 0 0 0" "owns h 0 0 0" and len: "0 < length (shared fresh_heap)"
    and c: "content_at fresh_heap 0 = Pending" "content_at h 0 = content_of d"
    and quiet: "unique_continuation (states fresh_heap ! 0) = None"
    by (simp_all add: fresh_heap_eq owns_def content_at_def h_def store_def)
  have free: "0 < length (promises g)" "\<not> mutex_held (promise_at g 0)"
      "delegate_promise (promise_at (locked 0 g) 0) = Some 0" "extra_state (promise_at (locked 0 g) 0) = Some 0"
    if "owns g 0 0 0" for g :: "(int, int) heap"
    using that by (simp_all add: owns_def promise_at_def locked_owned [OF that])
  have "?step (setters_init fresh_heap [c, d]) (?S (locked 0 fresh_heap) Waiting Holding)"
    using setters_step.lock [of 1 "[c, d]" "setters_init fresh_heap [c, d]" 0 fire] free [OF own(1)]
    by (simp add: setters_init_def)
  moreover have "?step (?S (locked 0 fresh_heap) Waiting Holding) (?S (locked 0 h) Waiting Filled)"
    using setters_step.fill [of 1 "[c, d]" "?S (locked 0 fresh_heap) Waiting Holding" 0 "locked 0 h" fire]
      free [OF own(1)] c(1) by (simp add: std_set_eq store_locked h_def)
  moreover have "?step (?S (locked 0 h) Waiting Filled) (?S h Waiting (Finished (Ret ())))"
  proof -
    have "fire (Some 0) (locked 0 h) = (Ret (), locked 0 h)"
      unfolding fire_def One_nat_def by (rule fire_none) (simp add: h_def quiet)
    then show ?thesis
      using setters_step.fire_and_leave [of 1 "[c, d]" "?S (locked 0 h) Waiting Filled" fire 0 "Ret ()" "locked 0 h"]
        free [OF own(2)] own(2) by (simp add: leaves_def)
  qed
  moreover have "?step (?S h Waiting (Finished (Ret ()))) (?S (locked 0 h) Holding (Finished (Ret ())))"
    using setters_step.lock [of 0 "[c, d]" "?S h Waiting (Finished (Ret ()))" 0 fire] free [OF own(2)] by simp
  moreover have "?step (?S (locked 0 h) Holding (Finished (Ret ())))
      (?S h (Finished (Throws (StdFutureError 2))) (Finished (Ret ())))"
    using setters_step.fill_throws [of 0 "[c, d]" "?S (locked 0 h) Holding (Finished (Ret ()))" 0
        "StdFutureError 2" "locked 0 h" fire] free [OF own(2)] own(2) c(2)
    by (simp add: std_set_eq future_errc_defs)
  ultimately show ?thesis
    by (auto simp: numeral_eq_Suc relcompp_apply)
qed

theorem Setters_linearizable_witness:
  "\<exists>S. (setters_step (fire_within no_callables 1) 0 [Set_value (Val 1), Set_error (std_errc 3)] ^^ 5)
         (setters_init fresh_heap [Set_value (Val 1), Set_error (std_errc 3)]) S
     \<and> content_at (heap_of S) 0 = Stored (HasE (std_errc 3))"
proof -
  let ?S = "\<lparr>heap_of = store 0 (Stored (HasE (std_errc 3))) fresh_heap,
    phases = [Finished (Throws (StdFutureError 2)), Finished (Ret ())]\<rparr>"
  have run: "(setters_step (fire_within no_callables (Suc 0)) 0 [Set_value (Val 1), Set_error (std_errc 3)] ^^ 5)
      (setters_init fresh_heap [Set_value (Val 1), Set_error (std_errc 3)]) ?S"
    using two_setters [of "Set_value (Val 1)" "Set_error (std_errc 3)"] by simp
  have "owns fresh_heap 0 0 0" "content_at fresh_heap 0 = Pending" "unique_continuation (states fresh_heap ! 0) = None"
      "all_finished ?S"
    by (simp_all add: fresh_heap_eq owns_def content_at_def all_finished_def)
  then have "content_at (heap_of ?S) 0 = Stored (HasE (std_errc 3))"
    using Setters_linearizable [OF run, of 0 0] by (auto simp: less_Suc_eq numeral_2_eq_2)
  with run show ?thesis by auto
qed

end
