(* ===== verification/Concurrent_Moves.thy ===== *)
theory Concurrent_Moves
  imports Concurrent_Setters
begin

text \<open>
  A setter of a promise, or \<open>get_future\<close>, in one thread and the move constructor of the same
  promise in another.
  \<open>Promise<T>\<close> declares its lock before its handles, so its move constructor takes the mutex of
  the source first; \<open>Promise<void>\<close> declares it last and moves the handles before. The first is
  linearizable, the second is not.
\<close>

section \<open>The threads\<close>

text \<open>
  The parts of the move constructor are the initialisations of its members. \<open>Took_promise\<close> and
  \<open>Took_both\<close> carry the handles that the new object holds already.
\<close>

datatype move_phase =
    Not_started
  | Source_locked
  | Took_promise "addr option"
  | Took_both "addr option" "addr option"
  | Constructed addr

record ('v, 'f) move_threads =
  common :: "('v, 'f) heap"
  setting :: setter_phase
  moving :: move_phase

text \<open>One step of the thread that runs the setter \<open>c\<close>: the parts of \<open>setters_step\<close>.\<close>

definition setter_moves ::
  "('v, 'f) fire \<Rightarrow> addr \<Rightarrow> 'v setter_call \<Rightarrow> ('v, 'f) move_threads \<Rightarrow> ('v, 'f) move_threads \<Rightarrow> bool" where
  "setter_moves fire p c S S' \<longleftrightarrow>
     (\<exists>h ph. setters_step fire p [c] \<lparr>heap_of = common S, phases = [setting S]\<rparr> \<lparr>heap_of = h, phases = [ph]\<rparr>
        \<and> S' = S\<lparr>common := h, setting := ph\<rparr>)"

definition take_promise :: "addr \<Rightarrow> ('v, 'f) heap \<Rightarrow> ('v, 'f) heap" where
  "take_promise p h = set_promise p ((promise_at h p)\<lparr>delegate_promise := None\<rparr>) h"

definition take_state :: "addr \<Rightarrow> ('v, 'f) heap \<Rightarrow> ('v, 'f) heap" where
  "take_state p h = set_promise p ((promise_at h p)\<lparr>extra_state := None\<rparr>) h"

text \<open>\<open>Promise(Promise &&other)\<close>: lock, two moves, unlock.\<close>

inductive Promise_moves ::
  "addr \<Rightarrow> ('v, 'f) move_threads \<Rightarrow> ('v, 'f) move_threads \<Rightarrow> bool" for p where
  lock_source: "moving S = Not_started \<Longrightarrow> p < length (promises (common S)) \<Longrightarrow>
    \<not> mutex_held (promise_at (common S) p) \<Longrightarrow>
    Promise_moves p S (S\<lparr>common := locked p (common S), moving := Source_locked\<rparr>)"
| move_promise: "moving S = Source_locked \<Longrightarrow>
    Promise_moves p S
      (S\<lparr>common := take_promise p (common S), moving := Took_promise (delegate_promise (promise_at (common S) p))\<rparr>)"
| move_state: "moving S = Took_promise d \<Longrightarrow>
    Promise_moves p S
      (S\<lparr>common := take_state p (common S), moving := Took_both d (extra_state (promise_at (common S) p))\<rparr>)"
| unlock_source: "moving S = Took_both d e \<Longrightarrow>
    new_promise \<lparr>delegate_promise = d, extra_state = e, mutex_held = False\<rparr> (unlocked p (common S)) = (Ret q, h) \<Longrightarrow>
    Promise_moves p S (S\<lparr>common := h, moving := Constructed q\<rparr>)"

text \<open>\<open>Promise<void>(Promise &&other)\<close>: two moves, lock, unlock.\<close>

inductive PV_moves ::
  "addr \<Rightarrow> ('v, 'f) move_threads \<Rightarrow> ('v, 'f) move_threads \<Rightarrow> bool" for p where
  move_promise: "moving S = Not_started \<Longrightarrow> p < length (promises (common S)) \<Longrightarrow>
    PV_moves p S
      (S\<lparr>common := take_promise p (common S), moving := Took_promise (delegate_promise (promise_at (common S) p))\<rparr>)"
| move_state: "moving S = Took_promise d \<Longrightarrow>
    PV_moves p S
      (S\<lparr>common := take_state p (common S), moving := Took_both d (extra_state (promise_at (common S) p))\<rparr>)"
| lock_source: "moving S = Took_both d e \<Longrightarrow> \<not> mutex_held (promise_at (common S) p) \<Longrightarrow>
    new_promise \<lparr>delegate_promise = d, extra_state = e, mutex_held = False\<rparr> (common S) = (Ret q, h) \<Longrightarrow>
    PV_moves p S (S\<lparr>common := h, moving := Constructed q\<rparr>)"

definition moves_init :: "('v, 'f) heap \<Rightarrow> ('v, 'f) move_threads" where
  "moves_init h = \<lparr>common = h, setting = Waiting, moving = Not_started\<rparr>"

definition T_step ::
  "('v, 'f) fire \<Rightarrow> addr \<Rightarrow> 'v setter_call \<Rightarrow> ('v, 'f) move_threads \<Rightarrow> ('v, 'f) move_threads \<Rightarrow> bool" where
  "T_step fire p c S S' \<longleftrightarrow> setter_moves fire p c S S' \<or> Promise_moves p S S'"

definition void_step ::
  "('v, 'f) fire \<Rightarrow> addr \<Rightarrow> 'v setter_call \<Rightarrow> ('v, 'f) move_threads \<Rightarrow> ('v, 'f) move_threads \<Rightarrow> bool" where
  "void_step fire p c S S' \<longleftrightarrow> setter_moves fire p c S S' \<or> PV_moves p S S'"

lemma setter_moves_cases [consumes 1, case_names lock fill throw leave]:
  assumes "setter_moves fire p c S S'"
  obtains
    "setting S = Waiting" "p < length (promises (common S))" "\<not> mutex_held (promise_at (common S) p)"
      "S' = S\<lparr>common := locked p (common S), setting := Holding\<rparr>"
  | h where "setting S = Holding"
      "std_set (delegate_promise (promise_at (common S) p)) (content_of c) (common S) = (Ret (), h)"
      "S' = S\<lparr>common := h, setting := Filled\<rparr>"
  | ex h where "setting S = Holding"
      "std_set (delegate_promise (promise_at (common S) p)) (content_of c) (common S) = (Throws ex, h)"
      "S' = S\<lparr>common := unlocked p h, setting := Finished (Throws ex)\<rparr>"
  | r h where "setting S = Filled" "fire (extra_state (promise_at (common S) p)) (common S) = (r, h)" "leaves r"
      "S' = S\<lparr>common := unlocked p h, setting := Finished r\<rparr>"
proof -
  obtain h ph where step: "setters_step fire p [c] \<lparr>heap_of = common S, phases = [setting S]\<rparr> \<lparr>heap_of = h, phases = [ph]\<rparr>"
    and S': "S' = S\<lparr>common := h, setting := ph\<rparr>"
    using assms by (auto simp: setter_moves_def)
  from step show thesis
    by cases (use S' that in auto)
qed

lemma setter_moves_intros:
  "setting S = Waiting \<Longrightarrow> p < length (promises (common S)) \<Longrightarrow> \<not> mutex_held (promise_at (common S) p) \<Longrightarrow>
   setter_moves fire p c S (S\<lparr>common := locked p (common S), setting := Holding\<rparr>)"
  "setting S = Holding \<Longrightarrow>
   std_set (delegate_promise (promise_at (common S) p)) (content_of c) (common S) = (Ret (), h) \<Longrightarrow>
   setter_moves fire p c S (S\<lparr>common := h, setting := Filled\<rparr>)"
  using setters_step.lock [of 0 "[c]" "\<lparr>heap_of = common S, phases = [setting S]\<rparr>" p fire]
    setters_step.fill [of 0 "[c]" "\<lparr>heap_of = common S, phases = [setting S]\<rparr>" p h fire]
  by (auto simp: setter_moves_def)

section \<open>Promise<T>: the move constructor waits\<close>

text \<open>Where each thread is, relative to the heap \<open>g\<close> in which it began.\<close>

definition setter_from ::
  "('v, 'f) fire \<Rightarrow> addr \<Rightarrow> 'v setter_call \<Rightarrow> ('v, 'f) heap \<Rightarrow> ('v, 'f) move_threads \<Rightarrow> bool" where
  "setter_from fire p c g S \<longleftrightarrow>
     (case setting S of
        Waiting \<Rightarrow> common S = g
      | Holding \<Rightarrow> p < length (promises g) \<and> \<not> mutex_held (promise_at g p) \<and> common S = locked p g
      | Filled \<Rightarrow> p < length (promises g) \<and> \<not> mutex_held (promise_at g p) \<and>
          std_set (delegate_promise (promise_at (locked p g) p)) (content_of c) (locked p g) = (Ret (), common S)
      | Finished r \<Rightarrow> call_setter fire p c g = (r, common S))"

definition mover_from :: "addr \<Rightarrow> ('v, 'f) heap \<Rightarrow> ('v, 'f) move_threads \<Rightarrow> bool" where
  "mover_from p g S \<longleftrightarrow>
     (case moving S of
        Not_started \<Rightarrow> common S = g
      | Source_locked \<Rightarrow> p < length (promises g) \<and> \<not> mutex_held (promise_at g p) \<and> common S = locked p g
      | Took_promise d \<Rightarrow> p < length (promises g) \<and> \<not> mutex_held (promise_at g p) \<and>
          common S = take_promise p (locked p g) \<and> d = delegate_promise (promise_at g p)
      | Took_both d e \<Rightarrow> p < length (promises g) \<and> \<not> mutex_held (promise_at g p) \<and>
          common S = take_state p (take_promise p (locked p g)) \<and>
          d = delegate_promise (promise_at g p) \<and> e = extra_state (promise_at g p)
      | Constructed q \<Rightarrow> Promise_move_ctor p g = (Ret q, common S))"

definition moves_inv ::
  "('v, 'f) fire \<Rightarrow> addr \<Rightarrow> 'v setter_call \<Rightarrow> ('v, 'f) heap \<Rightarrow> ('v, 'f) move_threads \<Rightarrow> bool" where
  "moves_inv fire p c h S \<longleftrightarrow>
     moving S = Not_started \<and> setter_from fire p c h S \<or>
     (\<exists>r g. setting S = Finished r \<and> call_setter fire p c h = (r, g) \<and> mover_from p g S) \<or>
     setting S = Waiting \<and> mover_from p h S \<or>
     (\<exists>q g. moving S = Constructed q \<and> Promise_move_ctor p h = (Ret q, g) \<and> setter_from fire p c g S)"

lemma held_locked: "p < length (promises g) \<Longrightarrow> mutex_held (promise_at (locked p g) p)"
  by (simp add: locked_def promise_at_set)

lemma held_taken:
  "p < length (promises g) \<Longrightarrow> mutex_held (promise_at (take_promise p g) p) = mutex_held (promise_at g p)"
  "p < length (promises g) \<Longrightarrow> mutex_held (promise_at (take_state p g) p) = mutex_held (promise_at g p)"
  by (simp_all add: take_promise_def take_state_def promise_at_set)

lemma taken_length [simp]:
  "length (promises (take_promise p g)) = length (promises g)"
  "length (promises (take_state p g)) = length (promises g)"
  by (simp_all add: take_promise_def take_state_def set_promise_def)

lemma handles_locked:
  "p < length (promises g) \<Longrightarrow> delegate_promise (promise_at (locked p g) p) = delegate_promise (promise_at g p)"
  "p < length (promises g) \<Longrightarrow> extra_state (promise_at (take_promise p (locked p g)) p) = extra_state (promise_at g p)"
  by (simp_all add: locked_def take_promise_def promise_at_def set_promise_def)

lemma setter_inside_held:
  assumes "setter_from fire p c g S" "setting S = Holding \<or> setting S = Filled"
  shows "mutex_held (promise_at (common S) p)"
proof -
  have "promises (common S) = promises (locked p g)" "p < length (promises g)"
    using assms std_set_keeps(1) [of "delegate_promise (promise_at (locked p g) p)" "content_of c" "locked p g"]
    by (auto simp: setter_from_def)
  then show ?thesis using held_locked [of p g] by (simp add: promise_at_def)
qed

lemma mover_inside_held:
  assumes "mover_from p g S" "moving S \<noteq> Not_started" "\<And>q. moving S \<noteq> Constructed q"
  shows "mutex_held (promise_at (common S) p)"
  using assms by (auto simp: mover_from_def held_locked held_taken split: move_phase.splits)

lemma setter_from_step:
  assumes "setter_moves fire p c S S'" and src: "setter_from fire p c g S"
  shows "setter_from fire p c g S' \<and> moving S' = moving S"
  using assms(1)
proof (cases rule: setter_moves_cases)
  case (throw ex h)
  then have "call_setter fire p c g = (Throws ex, unlocked p h)"
    using src call_setter_parts [of g p c "Throws ex" h fire] by (simp add: setter_from_def)
  with throw show ?thesis by (simp add: setter_from_def)
next
  case (leave r h)
  then have "call_setter fire p c g = (r, unlocked p h)"
    using src call_setter_parts [of g p c "Ret ()" "common S" fire] by (simp add: setter_from_def)
  with leave show ?thesis by (simp add: setter_from_def)
qed (use src in \<open>simp_all add: setter_from_def\<close>)

lemma taken_handles:
  assumes "p < length (promises g)"
  shows "unlocked p (take_state p (take_promise p (locked p g))) =
    set_promise p ((promise_at g p)\<lparr>delegate_promise := None, extra_state := None, mutex_held := False\<rparr>) g"
  using assms
  by (simp add: unlocked_def take_state_def take_promise_def locked_def promise_at_def set_promise_def)

lemma mover_from_step:
  assumes "Promise_moves p S S'" and src: "mover_from p g S"
  shows "mover_from p g S' \<and> setting S' = setting S"
  using assms(1)
proof cases
  case (unlock_source d e q h)
  have g: "p < length (promises g)" "\<not> mutex_held (promise_at g p)"
    using src unlock_source(2) by (simp_all add: mover_from_def)
  have "Promise_move_ctor p g = new_promise \<lparr>delegate_promise = d, extra_state = e, mutex_held = False\<rparr>
      (unlocked p (common S))"
    using src unlock_source(2) g taken_handles [OF g(1)]
    by (cases "promise_at g p") (simp add: mover_from_def Promise_move_ctor_def)
  with unlock_source show ?thesis by (simp add: mover_from_def)
qed (use src in \<open>simp_all add: mover_from_def handles_locked\<close>)

lemma phases_from:
  "setting S = Waiting \<Longrightarrow> setter_from fire p c g S \<longleftrightarrow> common S = g"
  "moving S = Not_started \<Longrightarrow> mover_from p g S \<longleftrightarrow> common S = g"
  by (simp_all add: setter_from_def mover_from_def)

text \<open>
  One of the two has not begun or is done whenever the other moves. What is left to check is
  the step with which the second one begins.
\<close>

lemma setter_moves_inv:
  assumes step: "setter_moves fire p c S S'" and inv: "moves_inv fire p c h S"
  shows "moves_inv fire p c h S'"
proof -
  have not_done: "setting S \<noteq> Finished r" for r
    using step by (cases rule: setter_moves_cases) simp_all
  consider "moving S = Not_started" "setter_from fire p c h S"
    | "setting S = Waiting" "mover_from p h S" "moving S \<noteq> Not_started"
    | q g where "moving S = Constructed q" "Promise_move_ctor p h = (Ret q, g)" "setter_from fire p c g S"
    using inv not_done by (cases "moving S = Not_started") (auto simp: moves_inv_def phases_from)
  then show ?thesis
  proof cases
    case 2
    have "\<not> mutex_held (promise_at (common S) p)"
      using step by (cases rule: setter_moves_cases) (simp_all add: 2)
    then obtain q where "moving S = Constructed q" using mover_inside_held [OF 2(2,3)] by blast
    then have "Promise_move_ctor p h = (Ret q, common S)" "setter_from fire p c (common S) S"
      using 2 by (simp_all add: mover_from_def phases_from)
    with setter_from_step [OF step] \<open>moving S = Constructed q\<close> show ?thesis
      by (auto simp: moves_inv_def)
  qed (use setter_from_step [OF step] in \<open>auto simp: moves_inv_def\<close>)
qed

lemma Promise_moves_inv:
  assumes step: "Promise_moves p S S'" and inv: "moves_inv fire p c h S"
  shows "moves_inv fire p c h S'"
proof -
  have not_done: "moving S \<noteq> Constructed q" for q
    using step by cases simp_all
  consider "moving S = Not_started" "setter_from fire p c h S" "setting S \<noteq> Waiting"
    | r g where "setting S = Finished r" "call_setter fire p c h = (r, g)" "mover_from p g S"
    | "setting S = Waiting" "mover_from p h S"
    using inv not_done by (cases "setting S = Waiting") (auto simp: moves_inv_def phases_from)
  then show ?thesis
  proof cases
    case 1
    have "\<not> mutex_held (promise_at (common S) p)"
      using step by cases (simp_all add: 1)
    then obtain r where "setting S = Finished r"
      using setter_inside_held [OF 1(2)] 1(3) by (cases "setting S") auto
    then have "call_setter fire p c h = (r, common S)" "mover_from p (common S) S"
      using 1 by (simp_all add: setter_from_def phases_from)
    with mover_from_step [OF step] \<open>setting S = Finished r\<close> show ?thesis
      by (auto simp: moves_inv_def)
  qed (use mover_from_step [OF step] in \<open>auto simp: moves_inv_def\<close>)
qed

lemma T_reachable_inv:
  assumes "(T_step fire p c)\<^sup>*\<^sup>* (moves_init h) S"
  shows "moves_inv fire p c h S"
  using assms
proof induction
  case base
  show ?case by (simp add: moves_inv_def moves_init_def phases_from)
next
  case (step S S')
  then show ?case by (auto simp: T_step_def intro: setter_moves_inv Promise_moves_inv)
qed

lemma both_done:
  assumes "moves_inv fire p c h S" "setting S = Finished r" "moving S = Constructed q"
  shows "(\<exists>g. call_setter fire p c h = (r, g) \<and> Promise_move_ctor p g = (Ret q, common S)) \<or>
    (\<exists>g. Promise_move_ctor p h = (Ret q, g) \<and> call_setter fire p c g = (r, common S))"
  using assms by (auto simp: moves_inv_def setter_from_def mover_from_def)

lemma filled_state:
  assumes inv: "moves_inv fire p c h S" and filled: "setting S = Filled" and p: "p < length (promises h)"
  shows "extra_state (promise_at (common S) p) = extra_state (promise_at h p)"
proof -
  have kept: "extra_state (promise_at (common S) p) = extra_state (promise_at g p)" "p < length (promises g)"
      "delegate_promise (promise_at g p) \<noteq> None" if "setter_from fire p c g S" for g
  proof -
    have g: "p < length (promises g)"
        and set: "std_set (delegate_promise (promise_at (locked p g) p)) (content_of c) (locked p g) = (Ret (), common S)"
      using that filled by (simp_all add: setter_from_def)
    have "promises (common S) = promises (locked p g)"
      using set std_set_keeps(1) [of "delegate_promise (promise_at (locked p g) p)" "content_of c" "locked p g"] by simp
    then show "extra_state (promise_at (common S) p) = extra_state (promise_at g p)"
      using g by (simp add: promise_at_def locked_def set_promise_def)
    show "p < length (promises g)" by (rule g)
    show "delegate_promise (promise_at g p) \<noteq> None"
      using set handles_locked(1) [OF g]
      by (cases "delegate_promise (promise_at g p)") (simp_all add: std_set_def)
  qed
  consider "setter_from fire p c h S"
    | q g where "Promise_move_ctor p h = (Ret q, g)" "setter_from fire p c g S"
    using inv filled by (auto simp: moves_inv_def)
  then show ?thesis
  proof cases
    case 2
    then have "delegate_promise (promise_at g p) = None"
      using p
      by (auto simp: Promise_move_ctor_def new_promise_def promise_at_def set_promise_def nth_append
        split: if_splits)
    then show ?thesis using kept(3) [OF 2(2)] by simp
  qed (use kept in simp)
qed

section \<open>Promise<void>: the handles go while the setter holds the mutex\<close>

definition robbed :: "addr \<Rightarrow> ('v, 'f) heap \<Rightarrow> ('v, 'f) heap" where
  "robbed p h = take_state p (take_promise p h)"

lemma setter_fills:
  assumes own: "owns h p a s" and pending: "content_at h a = Pending"
  shows "setter_moves fire p c (moves_init h) \<lparr>common = locked p h, setting = Holding, moving = Not_started\<rparr>"
    and "setter_moves fire p c \<lparr>common = locked p h, setting = Holding, moving = Not_started\<rparr>
      \<lparr>common = store a (content_of c) (locked p h), setting = Filled, moving = Not_started\<rparr>"
proof -
  let ?S = "\<lambda>h x y. \<lparr>common = h, setting = x, moving = y\<rparr>" and ?l = "locked p h"
  have p: "p < length (promises h)" "\<not> mutex_held (promise_at h p)" "delegate_promise (promise_at ?l p) = Some a"
    using own by (simp_all add: owns_def promise_at_def locked_def set_promise_def)
  then show "setter_moves fire p c (moves_init h) (?S ?l Holding Not_started)"
    using setter_moves_intros(1) [of "moves_init h" p fire c] by (simp add: moves_init_def)
  show "setter_moves fire p c (?S ?l Holding Not_started) (?S (store a (content_of c) ?l) Filled Not_started)"
    using setter_moves_intros(2) [of "?S ?l Holding Not_started" p c "store a (content_of c) ?l" fire] p pending
    by (simp add: std_set_eq content_at_def locked_def set_promise_def)
qed

lemma void_moves_inside:
  assumes own: "owns h p a s" and pending: "content_at h a = Pending"
  shows "(void_step fire p c)\<^sup>*\<^sup>* (moves_init h)
    \<lparr>common = robbed p (store a (content_of c) (locked p h)), setting = Filled, moving = Took_both (Some a) (Some s)\<rparr>"
    and "extra_state (promise_at (robbed p (store a (content_of c) (locked p h))) p) = None"
proof -
  let ?S = "\<lambda>h x y. \<lparr>common = h, setting = x, moving = y\<rparr>" and ?step = "void_step fire p c"
  let ?l = "locked p h" and ?f = "store a (content_of c) (locked p h)"
  have p: "delegate_promise (promise_at ?l p) = Some a" "promises ?f = promises ?l"
      "p < length (promises ?l)" "extra_state (promise_at ?l p) = Some s"
    using own by (simp_all add: owns_def promise_at_def locked_def set_promise_def)
  have "?step (moves_init h) (?S ?l Holding Not_started)" "?step (?S ?l Holding Not_started) (?S ?f Filled Not_started)"
    using setter_fills [OF own pending, of fire c] by (simp_all add: void_step_def)
  moreover have "?step (?S ?f Filled Not_started) (?S (take_promise p ?f) Filled (Took_promise (Some a)))"
    using PV_moves.move_promise [of "?S ?f Filled Not_started" p] p by (simp add: void_step_def promise_at_def)
  moreover have "?step (?S (take_promise p ?f) Filled (Took_promise (Some a)))
      (?S (robbed p ?f) Filled (Took_both (Some a) (Some s)))"
    using PV_moves.move_state [of "?S (take_promise p ?f) Filled (Took_promise (Some a))" "Some a" p] p
    by (simp add: void_step_def robbed_def promise_at_def take_promise_def set_promise_def)
  ultimately show "?step\<^sup>*\<^sup>* (moves_init h) (?S (robbed p ?f) Filled (Took_both (Some a) (Some s)))"
    by (meson converse_rtranclp_into_rtranclp r_into_rtranclp)
  show "extra_state (promise_at (robbed p ?f) p) = None"
    using p by (simp add: robbed_def take_state_def promise_at_set)
qed

section \<open>get_future does not lock\<close>

text \<open>
  \<open>get_future\<close> takes the standard future from the one member and copies the pointer to the state
  from the other, without the mutex. The compiler may evaluate its two arguments in this order.
\<close>

datatype ask_phase = Not_asked | Retrieved std_future | Got Future

inductive get_future_moves ::
  "addr \<Rightarrow> ('v, 'f) move_threads \<times> ask_phase \<Rightarrow> ('v, 'f) move_threads \<times> ask_phase \<Rightarrow> bool" for p where
  retrieve: "std_get_future (delegate_promise (promise_at (common S) p)) (common S) = (Ret df, h) \<Longrightarrow>
    get_future_moves p (S, Not_asked) (S\<lparr>common := h\<rparr>, Retrieved df)"
| copy_state: "get_future_moves p (S, Retrieved df)
    (S, Got (Future_ctor df (extra_state (promise_at (common S) p))))"
| other_thread: "Promise_moves p S S' \<Longrightarrow> get_future_moves p (S, x) (S', x)"

text \<open>The parts of the constructor, without another thread in between, are the constructor.\<close>

lemma Promise_moves_run:
  assumes "moving S = Not_started" "p < length (promises (common S))" "\<not> mutex_held (promise_at (common S) p)"
  obtains q h where "Promise_move_ctor p (common S) = (Ret q, h)"
    "(Promise_moves p)\<^sup>*\<^sup>* S (S\<lparr>common := h, moving := Constructed q\<rparr>)"
proof -
  let ?g = "common S" and ?d = "delegate_promise (promise_at (common S) p)" and ?e = "extra_state (promise_at (common S) p)"
  obtain q h where new: "new_promise \<lparr>delegate_promise = ?d, extra_state = ?e, mutex_held = False\<rparr>
      (unlocked p (take_state p (take_promise p (locked p ?g)))) = (Ret q, h)"
    by (simp add: new_promise_def)
  then have ctor: "Promise_move_ctor p ?g = (Ret q, h)"
    using assms taken_handles [OF assms(2)] by (cases "promise_at ?g p") (simp add: Promise_move_ctor_def)
  note handles = handles_locked [OF assms(2)]
  have "(Promise_moves p)\<^sup>*\<^sup>* S (S\<lparr>common := locked p ?g, moving := Source_locked\<rparr>)"
    using Promise_moves.lock_source [OF assms] by blast
  also have "Promise_moves p (S\<lparr>common := locked p ?g, moving := Source_locked\<rparr>)
      (S\<lparr>common := take_promise p (locked p ?g), moving := Took_promise ?d\<rparr>)"
    using Promise_moves.move_promise [of "S\<lparr>common := locked p ?g, moving := Source_locked\<rparr>" p] handles by simp
  also (rtranclp.rtrancl_into_rtrancl) have "Promise_moves p
      (S\<lparr>common := take_promise p (locked p ?g), moving := Took_promise ?d\<rparr>)
      (S\<lparr>common := take_state p (take_promise p (locked p ?g)), moving := Took_both ?d ?e\<rparr>)"
    using Promise_moves.move_state [of "S\<lparr>common := take_promise p (locked p ?g), moving := Took_promise ?d\<rparr>" ?d p]
      handles by simp
  also (rtranclp.rtrancl_into_rtrancl) have "Promise_moves p
      (S\<lparr>common := take_state p (take_promise p (locked p ?g)), moving := Took_both ?d ?e\<rparr>)
      (S\<lparr>common := h, moving := Constructed q\<rparr>)"
    using Promise_moves.unlock_source [of "S\<lparr>common := take_state p (take_promise p (locked p ?g)),
      moving := Took_both ?d ?e\<rparr>" ?d ?e p q h] new by simp
  finally (rtranclp.rtrancl_into_rtrancl) show thesis using ctor that by blast
qed

lemma future_without_state:
  assumes own: "owns h p a s" and fresh: "\<not> retrieved (shared h ! a)"
  obtains V q where "(get_future_moves p)\<^sup>*\<^sup>* (moves_init h, Not_asked)
      (V, Got \<lparr>delegate_future_of = Some a, extra_state_of = None\<rparr>)" "moving V = Constructed q"
proof -
  let ?g = "h\<lparr>shared := (shared h)[a := (shared h ! a)\<lparr>retrieved := True\<rparr>]\<rparr>"
  let ?S = "(moves_init h)\<lparr>common := ?g\<rparr>"
  have g: "moving ?S = Not_started" "p < length (promises (common ?S))" "\<not> mutex_held (promise_at (common ?S) p)"
    using own by (simp_all add: owns_def promise_at_def moves_init_def)
  obtain q h' where ctor: "Promise_move_ctor p (common ?S) = (Ret q, h')"
    and run: "(Promise_moves p)\<^sup>*\<^sup>* ?S (?S\<lparr>common := h', moving := Constructed q\<rparr>)"
    using Promise_moves_run [OF g] by blast
  let ?V = "?S\<lparr>common := h', moving := Constructed q\<rparr>"
  have "get_future_moves p (moves_init h, Not_asked) (?S, Retrieved (Some a))"
    using get_future_moves.retrieve [of "moves_init h" p "Some a" ?g] own fresh
    by (simp add: moves_init_def std_get_future_def owns_def promise_at_def)
  moreover have "(get_future_moves p)\<^sup>*\<^sup>* (?S, Retrieved (Some a)) (?V, Retrieved (Some a))"
    using run by induction (auto intro: get_future_moves.other_thread rtranclp.rtrancl_into_rtrancl)
  moreover have "extra_state (promise_at (common ?V) p) = None"
    using ctor g by (auto simp: Promise_move_ctor_def new_promise_def promise_at_def set_promise_def nth_append)
  then have "get_future_moves p (?V, Retrieved (Some a)) (?V, Got \<lparr>delegate_future_of = Some a, extra_state_of = None\<rparr>)"
    using get_future_moves.copy_state [of p ?V "Some a"] by (simp add: Future_ctor_def)
  ultimately have "(get_future_moves p)\<^sup>*\<^sup>* (moves_init h, Not_asked)
      (?V, Got \<lparr>delegate_future_of = Some a, extra_state_of = None\<rparr>)"
    by (meson converse_rtranclp_into_rtranclp rtranclp.rtrancl_into_rtrancl)
  then show thesis by (rule that) simp
qed

lemma then_without_state:
  "Future_then cbs fire k f \<lparr>delegate_future_of = d, extra_state_of = None\<rparr> h = (Undefined, h)"
  by (cases k) (simp_all add: Future_then_future_def Future_then_result_def Future_then_value_def
      Future_then_void_def pfail_def)

text \<open>
  C10. Promise_move_race. Moving a promise while another thread sets it. For \<open>Promise<T>\<close> every
  interleaving is linearizable: when both are done, the outcomes and the heap are those of
  the setter before the move or of the move before the setter; the continuation is fired on
  the state that the promise had. For \<open>Promise<void>\<close> the constructor moves the handles before
  it waits for the mutex, so there is an interleaving in which the setter has stored its
  content, the handles are gone, and \<open>extra_state_->FireContinuation()\<close> dereferences null.
  \<open>get_future\<close> takes no lock at all: a move that comes between its two reads, of \<open>Promise<T>\<close>
  too, gives a valid future without a state, and \<open>then\<close> on it dereferences null.
\<close>

theorem Promise_move_race:
  assumes own: "owns h p a s" and pending: "content_at h a = Pending"
    and run: "(T_step fire p c)\<^sup>*\<^sup>* (moves_init h) S"
  shows "(setting S = Filled \<longrightarrow> extra_state (promise_at (common S) p) = Some s)
    \<and> (\<forall>r q. setting S = Finished r \<and> moving S = Constructed q \<longrightarrow>
        (\<exists>g. call_setter fire p c h = (r, g) \<and> Promise_move_ctor p g = (Ret q, common S)) \<or>
        (\<exists>g. Promise_move_ctor p h = (Ret q, g) \<and> call_setter fire p c g = (r, common S)))
    \<and> (\<exists>V. (void_step fire p c)\<^sup>*\<^sup>* (moves_init h) V \<and> setting V = Filled
        \<and> content_at (common V) a = content_of c
        \<and> FireContinuation run_c (extra_state (promise_at (common V) p)) (common V) = (Undefined, common V))
    \<and> (\<not> retrieved (shared h ! a) \<longrightarrow>
        (\<exists>V q F. (get_future_moves p)\<^sup>*\<^sup>* (moves_init h, Not_asked) (V, Got F) \<and> moving V = Constructed q
          \<and> Future_valid F \<and> Future_then cbs fire k f F (common V) = (Undefined, common V)))"
proof (intro conjI)
  note inv = T_reachable_inv [OF run]
  show "setting S = Filled \<longrightarrow> extra_state (promise_at (common S) p) = Some s"
    using filled_state [OF inv] own by (auto simp: owns_def promise_at_def)
  show "\<forall>r q. setting S = Finished r \<and> moving S = Constructed q \<longrightarrow>
      (\<exists>g. call_setter fire p c h = (r, g) \<and> Promise_move_ctor p g = (Ret q, common S)) \<or>
      (\<exists>g. Promise_move_ctor p h = (Ret q, g) \<and> call_setter fire p c g = (r, common S))"
    using both_done [OF inv] by blast
  have "content_at (robbed p (store a (content_of c) (locked p h))) a = content_of c"
    using own by (simp add: owns_def content_at_def robbed_def take_state_def take_promise_def
      set_promise_def store_def locked_def)
  then show "\<exists>V. (void_step fire p c)\<^sup>*\<^sup>* (moves_init h) V \<and> setting V = Filled
      \<and> content_at (common V) a = content_of c
      \<and> FireContinuation run_c (extra_state (promise_at (common V) p)) (common V) = (Undefined, common V)"
    using void_moves_inside [OF own pending] by (force simp: FireContinuation_def)
  show "\<not> retrieved (shared h ! a) \<longrightarrow>
      (\<exists>V q F. (get_future_moves p)\<^sup>*\<^sup>* (moves_init h, Not_asked) (V, Got F) \<and> moving V = Constructed q
        \<and> Future_valid F \<and> Future_then cbs fire k f F (common V) = (Undefined, common V))"
  proof
    assume "\<not> retrieved (shared h ! a)"
    from future_without_state [OF own this] obtain V q
      where V: "(get_future_moves p)\<^sup>*\<^sup>* (moves_init h, Not_asked)
        (V, Got \<lparr>delegate_future_of = Some a, extra_state_of = None\<rparr>)" "moving V = Constructed q" .
    show "\<exists>V q F. (get_future_moves p)\<^sup>*\<^sup>* (moves_init h, Not_asked) (V, Got F) \<and> moving V = Constructed q
        \<and> Future_valid F \<and> Future_then cbs fire k f F (common V) = (Undefined, common V)"
      by (rule exI, rule exI, rule exI, intro conjI, rule V(1), rule V(2))
        (simp_all add: Future_valid_def then_without_state)
  qed
qed

theorem Promise_move_race_witness:
  "\<exists>(S :: (int, int) move_threads) (V :: (int, int) move_threads).
     setting S = Filled \<and> extra_state (promise_at (common S) 0) = Some 0
     \<and> (void_step (fire_within no_callables 1) 0 (Set_value (Val 7)))\<^sup>*\<^sup>* (moves_init fresh_heap) V
     \<and> setting V = Filled
     \<and> FireContinuation (run_closure no_callables (fire_within no_callables 0))
         (extra_state (promise_at (common V) 0)) (common V) = (Undefined, common V)"
proof -
  let ?fire = "fire_within no_callables 1 :: (int, int) fire" and ?c = "Set_value (Val (7::int))"
  have own: "owns (fresh_heap :: (int, int) heap) 0 0 0" "content_at (fresh_heap :: (int, int) heap) 0 = Pending"
    by (simp_all add: fresh_heap_eq owns_def content_at_def)
  let ?S = "\<lparr>common = store 0 (content_of ?c) (locked 0 fresh_heap), setting = Filled, moving = Not_started\<rparr>
    :: (int, int) move_threads"
  have "(T_step ?fire 0 ?c)\<^sup>*\<^sup>* (moves_init fresh_heap) ?S"
    using setter_fills [OF own, of ?fire ?c]
    by (intro converse_rtranclp_into_rtranclp [OF _ r_into_rtranclp]) (auto simp: T_step_def)
  note race = Promise_move_race [OF own this, of "run_closure no_callables (fire_within no_callables 0)"]
  have S: "setting ?S = Filled" "extra_state (promise_at (common ?S) 0) = Some 0"
    using race by simp_all
  obtain V where V: "(void_step ?fire 0 ?c)\<^sup>*\<^sup>* (moves_init fresh_heap) V" "setting V = Filled"
     "FireContinuation (run_closure no_callables (fire_within no_callables 0))
         (extra_state (promise_at (common V) 0)) (common V) = (Undefined, common V)"
    using race by blast
  show ?thesis by (rule exI [of _ ?S], rule exI [of _ V]) (intro conjI S V)
qed

end
