(* ===== verification/Critical_Sections.thy ===== *)
theory Critical_Sections
  imports Prelude
begin

text \<open>
  Threads that each run one call inside a critical section of the same mutex. A call is given
  by the step with which it enters and its parts, the last of which gives the mutex back. The
  locale \<open>critical_sections\<close> has what makes such calls linearizable, whatever they do
  inside; \<open>bounded_sections\<close> adds that a call has finitely many parts.
\<close>

section \<open>The threads\<close>

datatype ('pc, 'r) place = Outside | Inside 'pc | Left 'r

record ('h, 'pc, 'r) sections =
  memory :: 'h
  places :: "('pc, 'r) place list"

fun place_of :: "'pc + 'r \<Rightarrow> ('pc, 'r) place" where
  "place_of (Inl pc) = Inside pc"
| "place_of (Inr r) = Left r"

fun is_left :: "('pc, 'r) place \<Rightarrow> bool" where
  "is_left (Left r) = True"
| "is_left _ = False"

fun is_inside :: "('pc, 'r) place \<Rightarrow> bool" where
  "is_inside (Inside pc) = True"
| "is_inside _ = False"

text \<open>The next step of the thread \<open>i\<close>, if it has one.\<close>

definition advance ::
  "('c \<Rightarrow> 'h \<Rightarrow> ('pc \<times> 'h) option) \<Rightarrow> ('c \<Rightarrow> 'pc \<Rightarrow> 'h \<Rightarrow> (('pc + 'r) \<times> 'h) option) \<Rightarrow> 'c list \<Rightarrow>
   nat \<Rightarrow> ('h, 'pc, 'r) sections \<Rightarrow> ('h, 'pc, 'r) sections option" where
  "advance enter part calls i S =
     (if i < length calls
      then case places S ! i of
          Outside \<Rightarrow>
            map_option (\<lambda>(pc, h). \<lparr>memory = h, places = (places S)[i := Inside pc]\<rparr>) (enter (calls ! i) (memory S))
        | Inside pc \<Rightarrow>
            map_option (\<lambda>(x, h). \<lparr>memory = h, places = (places S)[i := place_of x]\<rparr>) (part (calls ! i) pc (memory S))
        | Left r \<Rightarrow> None
      else None)"

text \<open>A schedule names the thread of each step.\<close>

fun run_sections ::
  "('c \<Rightarrow> 'h \<Rightarrow> ('pc \<times> 'h) option) \<Rightarrow> ('c \<Rightarrow> 'pc \<Rightarrow> 'h \<Rightarrow> (('pc + 'r) \<times> 'h) option) \<Rightarrow> 'c list \<Rightarrow>
   nat list \<Rightarrow> ('h, 'pc, 'r) sections \<Rightarrow> ('h, 'pc, 'r) sections option" where
  "run_sections enter part calls [] S = Some S"
| "run_sections enter part calls (i # schedule) S =
     Option.bind (advance enter part calls i S) (run_sections enter part calls schedule)"

definition sections_init :: "'h \<Rightarrow> 'c list \<Rightarrow> ('h, 'pc, 'r) sections" where
  "sections_init h calls = \<lparr>memory = h, places = replicate (length calls) Outside\<rparr>"

lemma run_sections_snoc:
  "run_sections enter part calls (schedule @ [i]) S =
     Option.bind (run_sections enter part calls schedule S) (advance enter part calls i)"
proof (induction schedule arbitrary: S)
  case Nil
  then show ?case by (cases "advance enter part calls i S") simp_all
next
  case (Cons j schedule)
  then show ?case by (cases "advance enter part calls j S") simp_all
qed

lemma advance_length:
  "advance enter part calls i S = Some S' \<Longrightarrow> length (places S') = length (places S)"
  by (auto simp: advance_def split: if_splits place.splits)

lemma advance_cases [consumes 1, case_names enter part]:
  assumes "advance enter part calls i S = Some S'"
  obtains pc h where "i < length calls" "places S ! i = Outside" "enter (calls ! i) (memory S) = Some (pc, h)"
      "S' = \<lparr>memory = h, places = (places S)[i := Inside pc]\<rparr>"
    | pc x h where "i < length calls" "places S ! i = Inside pc" "part (calls ! i) pc (memory S) = Some (x, h)"
      "S' = \<lparr>memory = h, places = (places S)[i := place_of x]\<rparr>"
  using assms that by (auto simp: advance_def split: if_splits place.splits)

lemma advance_outside:
  "i < length calls \<Longrightarrow> places S ! i = Outside \<Longrightarrow> enter (calls ! i) (memory S) \<noteq> None \<Longrightarrow>
   \<exists>S'. advance enter part calls i S = Some S'"
  by (auto simp: advance_def)

lemma advance_inside:
  "i < length calls \<Longrightarrow> places S ! i = Inside pc \<Longrightarrow> part (calls ! i) pc (memory S) \<noteq> None \<Longrightarrow>
   \<exists>S'. advance enter part calls i S = Some S'"
  by (auto simp: advance_def)

section \<open>One call after the other\<close>

text \<open>The places of a call that began in \<open>g\<close>, with no other thread in between.\<close>

inductive within ::
  "('c \<Rightarrow> 'h \<Rightarrow> ('pc \<times> 'h) option) \<Rightarrow> ('c \<Rightarrow> 'pc \<Rightarrow> 'h \<Rightarrow> (('pc + 'r) \<times> 'h) option) \<Rightarrow> 'c \<Rightarrow> 'h \<Rightarrow> 'pc \<Rightarrow> 'h \<Rightarrow> bool"
  for enter part c g where
  enters: "enter c g = Some (pc, h) \<Longrightarrow> within enter part c g pc h"
| goes_on: "within enter part c g pc h \<Longrightarrow> part c pc h = Some (Inl pc', h') \<Longrightarrow> within enter part c g pc' h'"

inductive call_ends ::
  "('c \<Rightarrow> 'h \<Rightarrow> ('pc \<times> 'h) option) \<Rightarrow> ('c \<Rightarrow> 'pc \<Rightarrow> 'h \<Rightarrow> (('pc + 'r) \<times> 'h) option) \<Rightarrow> 'c \<Rightarrow> 'h \<Rightarrow> 'r \<Rightarrow> 'h \<Rightarrow> bool"
  for enter part c g where
  ends: "within enter part c g pc h \<Longrightarrow> part c pc h = Some (Inr r, g') \<Longrightarrow> call_ends enter part c g r g'"

inductive calls_end ::
  "('c \<Rightarrow> 'h \<Rightarrow> ('pc \<times> 'h) option) \<Rightarrow> ('c \<Rightarrow> 'pc \<Rightarrow> 'h \<Rightarrow> (('pc + 'r) \<times> 'h) option) \<Rightarrow>
   'c list \<Rightarrow> 'h \<Rightarrow> 'r list \<Rightarrow> 'h \<Rightarrow> bool"
  for enter part where
  none: "calls_end enter part [] h [] h"
| one_more: "calls_end enter part cs h rs g \<Longrightarrow> call_ends enter part c g r g' \<Longrightarrow>
    calls_end enter part (cs @ [c]) h (rs @ [r]) g'"

text \<open>
  The calls that have left, in the order in which they left, are a sequential run that ends in
  \<open>g\<close>; since then at most one call has entered.
\<close>

definition left_in_order where
  "left_in_order enter part calls h order g S \<longleftrightarrow>
     length (places S) = length calls \<and> distinct order \<and>
     set order = {i. i < length calls \<and> is_left (places S ! i)} \<and>
     (\<exists>rs. calls_end enter part (map ((!) calls) order) h rs g \<and> map ((!) (places S)) order = map Left rs)"

definition only_inside where
  "only_inside enter part calls g i S \<longleftrightarrow>
     i < length calls \<and> (\<exists>pc. places S ! i = Inside pc \<and> within enter part (calls ! i) g pc (memory S)) \<and>
     (\<forall>j < length calls. j \<noteq> i \<longrightarrow> \<not> is_inside (places S ! j))"

definition at_most_one where
  "at_most_one enter part calls g S \<longleftrightarrow>
     memory S = g \<and> (\<forall>j < length calls. \<not> is_inside (places S ! j)) \<or>
     (\<exists>i. only_inside enter part calls g i S)"

definition sections_inv where
  "sections_inv enter part calls h S \<longleftrightarrow>
     (\<exists>order g. left_in_order enter part calls h order g S \<and> at_most_one enter part calls g S)"

lemma sections_invI:
  "left_in_order enter part calls h order g S \<Longrightarrow> only_inside enter part calls g i S \<Longrightarrow>
   sections_inv enter part calls h S"
  unfolding sections_inv_def at_most_one_def by blast

lemma inside_only:
  assumes one: "at_most_one enter part calls g S" and i: "i < length calls" "is_inside (places S ! i)"
  shows "only_inside enter part calls g i S"
proof -
  obtain k where k: "only_inside enter part calls g k S"
    using one i unfolding at_most_one_def by blast
  moreover have "k = i" using k i unfolding only_inside_def by metis
  ultimately show ?thesis by simp
qed

lemma sections_inv_init: "sections_inv enter part calls h (sections_init h calls)"
proof -
  have "left_in_order enter part calls h [] h (sections_init h calls)"
    using calls_end.none by (auto simp: left_in_order_def sections_init_def)
  moreover have "at_most_one enter part calls h (sections_init h calls)"
    by (simp add: at_most_one_def sections_init_def)
  ultimately show ?thesis by (auto simp: sections_inv_def)
qed

lemma in_order_waits:
  assumes "left_in_order enter part calls h order g S" "i < length calls" "\<not> is_left (places S ! i)" "\<not> is_left pl"
  shows "left_in_order enter part calls h order g \<lparr>memory = h', places = (places S)[i := pl]\<rparr>"
proof -
  have "i \<notin> set order" using assms(1,3) by (simp add: left_in_order_def)
  then have "map ((!) ((places S)[i := pl])) order = map ((!) (places S)) order"
    by (intro map_cong refl) (metis nth_list_update_neq)
  moreover have "{j. j < length calls \<and> is_left ((places S)[i := pl] ! j)} =
      {j. j < length calls \<and> is_left (places S ! j)}"
    using assms by (auto simp: left_in_order_def nth_list_update)
  ultimately show ?thesis using assms(1) by (simp add: left_in_order_def del: map_eq_conv)
qed

lemma in_order_leaves:
  assumes seq: "left_in_order enter part calls h order g S" and i: "i < length calls" "\<not> is_left (places S ! i)"
    and call: "call_ends enter part (calls ! i) g r g'"
  shows "left_in_order enter part calls h (order @ [i]) g' \<lparr>memory = g', places = (places S)[i := Left r]\<rparr>"
proof -
  have new: "i \<notin> set order" using seq i(2) by (simp add: left_in_order_def)
  then have "map ((!) ((places S)[i := Left r])) order = map ((!) (places S)) order"
    by (intro map_cong refl) (metis nth_list_update_neq)
  moreover have "{j. j < length calls \<and> is_left ((places S)[i := Left r] ! j)} =
      insert i {j. j < length calls \<and> is_left (places S ! j)}"
    using seq i(1) by (auto simp: left_in_order_def nth_list_update)
  moreover obtain rs where "calls_end enter part (map ((!) calls) order) h rs g"
      "map ((!) (places S)) order = map Left rs"
    using seq by (auto simp: left_in_order_def)
  ultimately show ?thesis
    using seq i(1) new calls_end.one_more [OF _ call]
    by (auto simp: left_in_order_def simp del: map_eq_conv intro!: exI [of _ "rs @ [r]"])
qed

section \<open>Calls that exclude each other\<close>

locale critical_sections =
  fixes enter :: "'c \<Rightarrow> 'h \<Rightarrow> ('pc \<times> 'h) option"
    and part :: "'c \<Rightarrow> 'pc \<Rightarrow> 'h \<Rightarrow> (('pc + 'r) \<times> 'h) option"
    and busy :: "'h \<Rightarrow> bool"
  assumes enter_free: "enter c h = Some (pc, h') \<Longrightarrow> \<not> busy h"
    and enter_busy: "enter c h = Some (pc, h') \<Longrightarrow> busy h'"
    and part_busy: "busy h \<Longrightarrow> part c pc h = Some (Inl pc', h') \<Longrightarrow> busy h'"
begin

lemma within_busy: "within enter part c g pc h \<Longrightarrow> busy h"
  by (induction rule: within.induct) (auto intro: enter_busy part_busy)

lemma advance_inv:
  assumes "advance enter part calls i S = Some S'" and inv: "sections_inv enter part calls h S"
  shows "sections_inv enter part calls h S'"
proof -
  obtain order g where seq: "left_in_order enter part calls h order g S"
    and one: "at_most_one enter part calls g S"
    using inv by (auto simp: sections_inv_def)
  have len: "length (places S) = length calls" using seq by (simp add: left_in_order_def)
  from assms(1) show ?thesis
  proof (cases rule: advance_cases)
    case (enter pc h1)
    have free: "memory S = g" "\<forall>j < length calls. \<not> is_inside (places S ! j)"
      using one within_busy enter_free [OF enter(3)] by (auto simp: at_most_one_def only_inside_def)
    then have "within enter part (calls ! i) g pc h1"
      using enter(3) by (auto intro: within.enters)
    then have "only_inside enter part calls g i S'"
      using enter(1,4) len free(2) by (auto simp: only_inside_def)
    then show ?thesis
      using sections_invI [OF in_order_waits [OF seq enter(1)]] enter(2,4) by simp
  next
    case (part pc x h1)
    have inside: "within enter part (calls ! i) g pc (memory S)" "\<forall>j < length calls. j \<noteq> i \<longrightarrow> \<not> is_inside (places S ! j)"
      using inside_only [OF one part(1)] part(2) by (auto simp: only_inside_def)
    show ?thesis
    proof (cases x)
      case (Inl pc')
      then have "only_inside enter part calls g i S'"
        using inside part len within.goes_on [OF inside(1)] by (auto simp: only_inside_def)
      then show ?thesis
        using sections_invI [OF in_order_waits [OF seq part(1)]] part(2,4) Inl by simp
    next
      case (Inr r)
      then have "left_in_order enter part calls h (order @ [i]) h1 S'"
        using in_order_leaves [OF seq part(1)] call_ends.ends [OF inside(1)] part by simp
      moreover have "at_most_one enter part calls h1 S'"
        using inside(2) part len Inr by (auto simp: at_most_one_def nth_list_update)
      ultimately show ?thesis by (auto simp: sections_inv_def)
    qed
  qed
qed

lemma run_inv:
  "run_sections enter part calls schedule (sections_init h calls) = Some S \<Longrightarrow> sections_inv enter part calls h S"
  by (induction schedule arbitrary: S rule: rev_induct)
    (auto simp: sections_inv_init run_sections_snoc bind_eq_Some_conv intro: advance_inv)

text \<open>When all have left, there was an order; at no time are two inside.\<close>

lemma all_left:
  assumes run: "run_sections enter part calls schedule (sections_init h calls) = Some S"
    and left: "list_all is_left (places S)"
  obtains order rs where "distinct order" "set order = {..<length calls}"
    "calls_end enter part (map ((!) calls) order) h rs (memory S)" "map ((!) (places S)) order = map Left rs"
proof -
  obtain order g where seq: "left_in_order enter part calls h order g S"
    and one: "at_most_one enter part calls g S"
    using run_inv [OF run] by (auto simp: sections_inv_def)
  have all: "is_left (places S ! j)" if "j < length calls" for j
    using left seq that by (simp add: left_in_order_def list_all_length)
  then have "memory S = g" using one by (force simp: at_most_one_def only_inside_def)
  moreover have "set order = {..<length calls}" using seq all by (auto simp: left_in_order_def)
  ultimately show thesis using seq that by (auto simp: left_in_order_def)
qed

lemma exclusion:
  assumes run: "run_sections enter part calls schedule (sections_init h calls) = Some S"
    and "i < length calls" "j < length calls" "is_inside (places S ! i)" "is_inside (places S ! j)"
  shows "i = j"
proof -
  obtain g where "at_most_one enter part calls g S"
    using run_inv [OF run] by (auto simp: sections_inv_def)
  from inside_only [OF this assms(2,4)] show ?thesis using assms(3,5) unfolding only_inside_def by metis
qed

end

section \<open>Calls of finitely many parts\<close>

locale bounded_sections = critical_sections enter part busy
  for enter :: "'c \<Rightarrow> 'h \<Rightarrow> ('pc \<times> 'h) option"
    and part :: "'c \<Rightarrow> 'pc \<Rightarrow> 'h \<Rightarrow> (('pc + 'r) \<times> 'h) option" and busy :: "'h \<Rightarrow> bool" +
  fixes rank :: "'pc \<Rightarrow> nat" and bound :: nat
  assumes enter_rank: "enter c h = Some (pc, h') \<Longrightarrow> rank pc \<le> bound"
    and part_rank: "part c pc h = Some (Inl pc', h') \<Longrightarrow> rank pc' < rank pc"
begin

fun steps_left :: "('pc, 'r) place \<Rightarrow> nat" where
  "steps_left Outside = bound + 2"
| "steps_left (Inside pc) = rank pc + 1"
| "steps_left (Left r) = 0"

lemma advance_steps:
  assumes "advance enter part calls i S = Some S'" "length (places S) = length calls"
  shows "sum_list (map steps_left (places S')) < sum_list (map steps_left (places S))"
proof -
  have update: "sum_list (map steps_left ((places S)[i := pl])) < sum_list (map steps_left (places S))"
    if "i < length calls" "steps_left pl < steps_left (places S ! i)" for pl
  proof -
    have "steps_left (places S ! i) \<le> sum_list (map steps_left (places S))"
      using that(1) assms(2) by (simp add: member_le_sum_list)
    then show ?thesis
      using that assms(2) by (simp add: map_update sum_list_update)
  qed
  from assms(1) show ?thesis
  proof (cases rule: advance_cases)
    case (enter pc h)
    then show ?thesis using update [of "Inside pc"] enter_rank [OF enter(3)] by simp
  next
    case (part pc x h)
    then show ?thesis using update [of "place_of x"] part_rank by (cases x) auto
  qed
qed

lemma run_bounded:
  assumes "run_sections enter part calls schedule (sections_init h calls) = Some S"
  shows "length schedule \<le> (bound + 2) * length calls"
proof -
  have "length schedule + sum_list (map steps_left (places S)) \<le> (bound + 2) * length calls
      \<and> length (places S) = length calls"
    using assms
  proof (induction schedule arbitrary: S rule: rev_induct)
    case Nil
    then show ?case by (auto simp: sections_init_def sum_list_replicate)
  next
    case (snoc i schedule)
    then obtain T where T: "run_sections enter part calls schedule (sections_init h calls) = Some T"
        "advance enter part calls i T = Some S"
      by (auto simp: run_sections_snoc bind_eq_Some_conv)
    then show ?case
      using snoc.IH [OF T(1)] advance_steps [OF T(2)] advance_length [OF T(2)] by simp
  qed
  then show ?thesis by simp
qed

end

end
