(* ===== verification/Concurrent_Members.thy ===== *)
theory Concurrent_Members
  imports Critical_Sections Concurrent_Moves Heap_Steps
begin

text \<open>
  Any number of threads that call the members that lock the same promise: its setters, the constructor that
  moves from it, and the assignments and swaps in which it takes part. All of them hold its
  mutex, so they are an instance of \<open>critical_sections\<close>; their sequential runs are runs of the
  clients of \<open>Heap_Steps\<close>.
\<close>

section \<open>The calls and their parts\<close>

text \<open>\<open>Assign this other\<close> is \<open>this = std::move(other)\<close>, \<open>Swap this other\<close> is \<open>this.swap(other)\<close>.\<close>

datatype 'v member_call =
    Setter "'v setter_call"
  | Move_away
  | Assign addr addr
  | Swap addr addr

datatype member_pc =
    Entered
  | Stored_content
  | Delegate_taken "addr option"
  | Handles_taken "addr option" "addr option"
  | Delegates_done
  | Handles_done

type_synonym member_result = "(cxx_exn, addr option) outcome"

fun whole_call :: "('v, 'f) fire \<Rightarrow> addr \<Rightarrow> 'v member_call \<Rightarrow> ('v, 'f, addr option) proc" where
  "whole_call fire p (Setter c) = pbind (call_setter fire p c) (\<lambda>_. pret None)"
| "whole_call fire p Move_away = pbind (Promise_move_ctor p) (\<lambda>q. pret (Some q))"
| "whole_call fire p (Assign this other) = pbind (Promise_move_assign this other) (\<lambda>_. pret None)"
| "whole_call fire p (Swap this other) = pbind (Promise_swap this other) (\<lambda>_. pret None)"

definition can_lock :: "addr \<Rightarrow> ('v, 'f) heap \<Rightarrow> bool" where
  "can_lock p h \<longleftrightarrow> p < length (promises h) \<and> \<not> mutex_held (promise_at h p)"

fun enter_member :: "addr \<Rightarrow> 'v member_call \<Rightarrow> ('v, 'f) heap \<Rightarrow> (member_pc \<times> ('v, 'f) heap) option" where
  "enter_member p (Assign this other) h =
     (if this \<noteq> other \<and> p \<in> {this, other} \<and> can_lock this h \<and> can_lock other h
      then Some (Entered, locked other (locked this h)) else None)"
| "enter_member p (Swap this other) h =
     (if this \<noteq> other \<and> p \<in> {this, other} \<and> can_lock this h \<and> can_lock other h
      then Some (Entered, locked other (locked this h)) else None)"
| "enter_member p c h = (if can_lock p h then Some (Entered, locked p h) else None)"

text \<open>The statements of the assignment and of the swap.\<close>

definition assign_delegate :: "addr \<Rightarrow> addr \<Rightarrow> ('v, 'f) heap \<Rightarrow> ('v, 'f) heap" where
  "assign_delegate this other h =
     set_promise other ((promise_at h other)\<lparr>delegate_promise := None\<rparr>)
       (set_promise this ((promise_at h this)\<lparr>delegate_promise := delegate_promise (promise_at h other)\<rparr>)
         (std_abandon (delegate_promise (promise_at h this)) h))"

definition assign_state :: "addr \<Rightarrow> addr \<Rightarrow> ('v, 'f) heap \<Rightarrow> ('v, 'f) heap" where
  "assign_state this other h =
     set_promise other ((promise_at h other)\<lparr>extra_state := None\<rparr>)
       (set_promise this ((promise_at h this)\<lparr>extra_state := extra_state (promise_at h other)\<rparr>) h)"

definition swap_delegates :: "addr \<Rightarrow> addr \<Rightarrow> ('v, 'f) heap \<Rightarrow> ('v, 'f) heap" where
  "swap_delegates this other h =
     set_promise other ((promise_at h other)\<lparr>delegate_promise := delegate_promise (promise_at h this)\<rparr>)
       (set_promise this ((promise_at h this)\<lparr>delegate_promise := delegate_promise (promise_at h other)\<rparr>) h)"

definition swap_states :: "addr \<Rightarrow> addr \<Rightarrow> ('v, 'f) heap \<Rightarrow> ('v, 'f) heap" where
  "swap_states this other h =
     set_promise other ((promise_at h other)\<lparr>extra_state := extra_state (promise_at h this)\<rparr>)
       (set_promise this ((promise_at h this)\<lparr>extra_state := extra_state (promise_at h other)\<rparr>) h)"

text \<open>Destroying the two locks.\<close>

definition unlock_both :: "addr \<Rightarrow> addr \<Rightarrow> ('v, 'f) heap \<Rightarrow> ('v, 'f) heap" where
  "unlock_both this other h = unlocked this (unlocked other h)"

definition setter_part ::
  "('v, 'f) fire \<Rightarrow> addr \<Rightarrow> 'v setter_call \<Rightarrow> member_pc \<Rightarrow> ('v, 'f) heap \<Rightarrow>
   ((member_pc + member_result) \<times> ('v, 'f) heap) option" where
  "setter_part fire p c pc h =
     (case pc of
        Entered \<Rightarrow>
          (case std_set (delegate_promise (promise_at h p)) (content_of c) h of
             (Ret u, h') \<Rightarrow> Some (Inl Stored_content, h')
           | (Throws ex, h') \<Rightarrow> Some (Inr (Throws ex), unlocked p h')
           | _ \<Rightarrow> None)
      | Stored_content \<Rightarrow>
          (let (r, h') = fire (extra_state (promise_at h p)) h
           in if leaves r then Some (Inr (obind r (\<lambda>_. Ret None)), unlocked p h') else None)
      | _ \<Rightarrow> None)"

definition move_part ::
  "addr \<Rightarrow> member_pc \<Rightarrow> ('v, 'f) heap \<Rightarrow> ((member_pc + member_result) \<times> ('v, 'f) heap) option" where
  "move_part p pc h =
     (case pc of
        Entered \<Rightarrow> Some (Inl (Delegate_taken (delegate_promise (promise_at h p))), take_promise p h)
      | Delegate_taken d \<Rightarrow> Some (Inl (Handles_taken d (extra_state (promise_at h p))), take_state p h)
      | Handles_taken d e \<Rightarrow>
          (case new_promise \<lparr>delegate_promise = d, extra_state = e, mutex_held = False\<rparr> (unlocked p h) of
             (Ret q, h') \<Rightarrow> Some (Inr (Ret (Some q)), h')
           | _ \<Rightarrow> None)
      | _ \<Rightarrow> None)"

definition two_part ::
  "(('v, 'f) heap \<Rightarrow> ('v, 'f) heap) \<Rightarrow> (('v, 'f) heap \<Rightarrow> ('v, 'f) heap) \<Rightarrow> (('v, 'f) heap \<Rightarrow> ('v, 'f) heap) \<Rightarrow>
   member_pc \<Rightarrow> ('v, 'f) heap \<Rightarrow> ((member_pc + member_result) \<times> ('v, 'f) heap) option" where
  "two_part first second unlock pc h =
     (case pc of
        Entered \<Rightarrow> Some (Inl Delegates_done, first h)
      | Delegates_done \<Rightarrow> Some (Inl Handles_done, second h)
      | Handles_done \<Rightarrow> Some (Inr (Ret None), unlock h)
      | _ \<Rightarrow> None)"

fun part_member ::
  "('v, 'f) fire \<Rightarrow> addr \<Rightarrow> 'v member_call \<Rightarrow> member_pc \<Rightarrow> ('v, 'f) heap \<Rightarrow>
   ((member_pc + member_result) \<times> ('v, 'f) heap) option" where
  "part_member fire p (Setter c) = setter_part fire p c"
| "part_member fire p Move_away = move_part p"
| "part_member fire p (Assign this other) =
     two_part (assign_delegate this other) (assign_state this other) (unlock_both this other)"
| "part_member fire p (Swap this other) =
     two_part (swap_delegates this other) (swap_states this other) (unlock_both this other)"

fun run_members ::
  "('v, 'f) fire \<Rightarrow> addr \<Rightarrow> 'v member_call list \<Rightarrow> ('v, 'f) heap \<Rightarrow> member_result list \<times> ('v, 'f) heap" where
  "run_members fire p [] h = ([], h)"
| "run_members fire p (c # cs) h =
     (let (r, h1) = whole_call fire p c h; (rs, h2) = run_members fire p cs h1 in (r # rs, h2))"

lemma run_members_snoc:
  "run_members fire p (cs @ [c]) h =
     (let (rs, h1) = run_members fire p cs h; (r, h2) = whole_call fire p c h1 in (rs @ [r], h2))"
  by (induction cs arbitrary: h) (simp_all add: split_def Let_def)

section \<open>They exclude each other\<close>

definition holding :: "addr \<Rightarrow> ('v, 'f) heap \<Rightarrow> bool" where
  "holding p h \<longleftrightarrow> p < length (promises h) \<and> mutex_held (promise_at h p)"

fun member_rank :: "member_pc \<Rightarrow> nat" where
  "member_rank Entered = 2"
| "member_rank Stored_content = 0"
| "member_rank (Delegate_taken d) = 1"
| "member_rank (Handles_taken d e) = 0"
| "member_rank Delegates_done = 1"
| "member_rank Handles_done = 0"

lemmas moved_defs = take_promise_def take_state_def assign_delegate_def assign_state_def swap_delegates_def swap_states_def

lemma abandon_promises [simp]: "promises (std_abandon d h) = promises h"
  by (simp add: std_abandon_def split: option.split)

lemma parts_hold:
  "holding p h \<Longrightarrow> holding p (take_promise q h)" "holding p h \<Longrightarrow> holding p (take_state q h)"
  "holding p h \<Longrightarrow> holding p (assign_delegate t q h)" "holding p h \<Longrightarrow> holding p (assign_state t q h)"
  "holding p h \<Longrightarrow> holding p (swap_delegates t q h)" "holding p h \<Longrightarrow> holding p (swap_states t q h)"
  by (auto simp: holding_def moved_defs set_promise_def promise_at_def nth_updated)

lemma std_set_holds: "holding p h \<Longrightarrow> std_set d c h = (r, h') \<Longrightarrow> holding p h'"
  using std_set_keeps(1) [of d c h] by (simp add: holding_def promise_at_def)

lemma enter_member_locks:
  assumes "enter_member p c h = Some (pc, h')"
  shows "can_lock p h \<and> holding p h' \<and> pc = Entered"
  using assms
  by (cases c)
    (auto simp: can_lock_def holding_def locked_def set_promise_def promise_at_def nth_list_update split: if_splits)

lemma setter_part_cases:
  assumes "setter_part fire p c pc h = Some (x, h')"
  obtains "pc = Entered" "x = Inl Stored_content"
      "std_set (delegate_promise (promise_at h p)) (content_of c) h = (Ret (), h')"
    | ex g where "pc = Entered" "x = Inr (Throws ex)" "h' = unlocked p g"
      "std_set (delegate_promise (promise_at h p)) (content_of c) h = (Throws ex, g)"
    | r g where "pc = Stored_content" "x = Inr (obind r (\<lambda>_. Ret None))" "h' = unlocked p g"
      "fire (extra_state (promise_at h p)) h = (r, g)" "leaves r"
proof (cases pc)
  case Entered
  obtain r g where set: "std_set (delegate_promise (promise_at h p)) (content_of c) h = (r, g)" by fastforce
  show thesis
  proof (cases r)
    case (Ret u)
    then show thesis using assms set by (intro that(1)) (simp_all add: setter_part_def Entered)
  next
    case (Throws ex)
    then show thesis using assms set by (intro that(2) [of ex g]) (simp_all add: setter_part_def Entered)
  qed (use assms set in \<open>simp_all add: setter_part_def Entered\<close>)
next
  case Stored_content
  obtain r g where fire: "fire (extra_state (promise_at h p)) h = (r, g)" by fastforce
  then have "leaves r" "x = Inr (obind r (\<lambda>_. Ret None))" "h' = unlocked p g"
    using assms by (simp_all add: setter_part_def Stored_content split: if_splits)
  with fire show thesis by (intro that(3) [of r g]) (simp_all add: Stored_content)
qed (use assms in \<open>simp_all add: setter_part_def\<close>)

lemma part_member_inl:
  assumes part: "part_member fire p c pc h = Some (Inl pc', h')"
  shows "(holding p h \<longrightarrow> holding p h') \<and> member_rank pc' < member_rank pc"
proof (cases c)
  case (Setter d)
  with part show ?thesis by (auto elim!: setter_part_cases dest: std_set_holds)
next
  case Move_away
  with part show ?thesis
    by (auto simp: move_part_def new_promise_def parts_hold split: member_pc.splits)
next
  case (Assign t q)
  with part show ?thesis by (auto simp: two_part_def parts_hold split: member_pc.splits)
next
  case (Swap t q)
  with part show ?thesis by (auto simp: two_part_def parts_hold split: member_pc.splits)
qed

interpretation members: bounded_sections "enter_member p" "part_member fire p" "holding p" member_rank 2
  for p :: addr and fire :: "('v, 'f) fire"
proof
  fix c :: "'v member_call" and h h' :: "('v, 'f) heap" and pc
  assume "enter_member p c h = Some (pc, h')"
  from enter_member_locks [OF this] show "\<not> holding p h" "holding p h'" "member_rank pc \<le> 2"
    by (simp_all add: can_lock_def holding_def)
qed (use part_member_inl in blast)+

section \<open>A call by itself\<close>

definition two_from where
  "two_from first second this other g pc h \<longleftrightarrow>
     this \<noteq> other \<and> can_lock this g \<and> can_lock other g \<and>
     (let L = locked other (locked this g)
      in pc = Entered \<and> h = L \<or> pc = Delegates_done \<and> h = first L \<or> pc = Handles_done \<and> h = second (first L))"

text \<open>The heap at each place of a call that began in \<open>g\<close>.\<close>

fun member_from :: "addr \<Rightarrow> 'v member_call \<Rightarrow> ('v, 'f) heap \<Rightarrow> member_pc \<Rightarrow> ('v, 'f) heap \<Rightarrow> bool" where
  "member_from p (Setter c) g pc h \<longleftrightarrow> can_lock p g \<and>
     (pc = Entered \<and> h = locked p g \<or>
      pc = Stored_content \<and>
        std_set (delegate_promise (promise_at (locked p g) p)) (content_of c) (locked p g) = (Ret (), h))"
| "member_from p Move_away g pc h \<longleftrightarrow> can_lock p g \<and>
     (pc = Entered \<and> h = locked p g \<or>
      pc = Delegate_taken (delegate_promise (promise_at g p)) \<and> h = take_promise p (locked p g) \<or>
      pc = Handles_taken (delegate_promise (promise_at g p)) (extra_state (promise_at g p)) \<and>
        h = take_state p (take_promise p (locked p g)))"
| "member_from p (Assign this other) g pc h \<longleftrightarrow>
     two_from (assign_delegate this other) (assign_state this other) this other g pc h"
| "member_from p (Swap this other) g pc h \<longleftrightarrow>
     two_from (swap_delegates this other) (swap_states this other) this other g pc h"

lemma within_member:
  "within (enter_member p) (part_member fire p) c g pc h \<Longrightarrow> member_from p c g pc h"
proof (induction rule: within.induct)
  case (enters pc h)
  then show ?case by (cases c) (auto simp: two_from_def Let_def split: if_splits)
next
  case (goes_on pc h pc' h')
  show ?case
  proof (cases c)
    case (Setter d)
    with goes_on show ?thesis by (auto elim!: setter_part_cases)
  next
    case Move_away
    with goes_on show ?thesis
      by (auto simp: move_part_def new_promise_def handles_locked can_lock_def)
  next
    case (Assign t q)
    with goes_on show ?thesis by (auto simp: two_part_def two_from_def Let_def)
  next
    case (Swap t q)
    with goes_on show ?thesis by (auto simp: two_part_def two_from_def Let_def)
  qed
qed

lemma two_ends:
  assumes "two_from first second t q g pc h" "two_part first second unlock pc h = Some (Inr r, g')"
  shows "t \<noteq> q" "can_lock t g" "can_lock q g" "r = Ret None" "g' = unlock (second (first (locked q (locked t g))))"
  using assms by (auto simp: two_from_def two_part_def Let_def)

text \<open>Two different promises, both free, after each of the statements.\<close>

lemma two_updates:
  assumes "t \<noteq> q" "t < length xs" "q < length xs"
  shows "xs[t := a, q := b, t := c] = xs[t := c, q := b]" "xs[t := a, q := b, q := d] = xs[t := a, q := d]"
    "xs[q := b, t := a] = xs[t := a, q := b]"
  using assms by (simp_all add: list_update_swap)

lemma free_update:
  "\<not> mutex_held x \<Longrightarrow> x\<lparr>delegate_promise := d, extra_state := e, mutex_held := False\<rparr> =
    x\<lparr>delegate_promise := d, extra_state := e\<rparr>"
  by (cases x) simp

lemma abandon_update: "std_abandon d (h\<lparr>promises := ps\<rparr>) = (std_abandon d h)\<lparr>promises := ps\<rparr>"
  by (simp add: std_abandon_def split: option.split)

lemma assign_whole:
  assumes "t \<noteq> q" "can_lock t g" "can_lock q g"
  shows "Promise_move_assign t q g =
    (Ret (), unlock_both t q (assign_state t q (assign_delegate t q (locked q (locked t g)))))"
  using assms
  by (simp add: Promise_move_assign_def with_locks_def can_lock_def unlock_both_def unlocked_def locked_def
      assign_state_def assign_delegate_def promise_at_def set_promise_def two_updates abandon_update free_update)

lemma swap_whole:
  assumes "t \<noteq> q" "can_lock t g" "can_lock q g"
  shows "Promise_swap t q g =
    (Ret (), unlock_both t q (swap_states t q (swap_delegates t q (locked q (locked t g)))))"
  using assms
  by (simp add: Promise_swap_def with_locks_def can_lock_def unlock_both_def unlocked_def locked_def
      swap_states_def swap_delegates_def promise_at_def set_promise_def two_updates free_update)

lemma call_ends_whole:
  assumes "call_ends (enter_member p) (part_member fire p) c g r g'"
  shows "whole_call fire p c g = (r, g')"
  using assms
proof cases
  case (ends pc h)
  note from_g = within_member [OF ends(1)]
  show ?thesis
  proof (cases c)
    case (Setter d)
    have lock: "\<not> mutex_held (promise_at g p)" using from_g by (simp add: Setter can_lock_def)
    note parts = call_setter_parts [OF lock, where c = d and fire = fire]
    from ends(2) Setter have "setter_part fire p d pc h = Some (Inr r, g')" by simp
    then show ?thesis
    proof (cases rule: setter_part_cases)
      case (2 ex h1)
      then show ?thesis using from_g parts by (simp add: Setter pbind_def)
    next
      case (3 r1 h1)
      then show ?thesis using from_g parts
        by (cases r1) (auto simp: Setter pbind_def pret_def)
    qed simp
  next
    case Move_away
    then have len: "p < length (promises g)" "\<not> mutex_held (promise_at g p)"
      using from_g by (simp_all add: can_lock_def)
    show ?thesis
      using ends(2) from_g len taken_handles [OF len(1)] Move_away
      by (cases "promise_at g p")
        (auto simp: move_part_def new_promise_def pbind_def pret_def Promise_move_ctor_def)
  next
    case (Assign t q)
    then show ?thesis
      using two_ends ends(2) from_g assign_whole [of t q g] by (fastforce simp: pbind_def pret_def)
  next
    case (Swap t q)
    then show ?thesis
      using two_ends ends(2) from_g swap_whole [of t q g] by (fastforce simp: pbind_def pret_def)
  qed
qed

lemma calls_end_run:
  "calls_end (enter_member p) (part_member fire p) cs h rs g \<Longrightarrow> run_members fire p cs h = (rs, g)"
  by (induction rule: calls_end.induct) (simp_all add: run_members_snoc call_ends_whole)

section \<open>Sequential runs are runs of the clients\<close>

lemma snd_pbind_pret: "snd (pbind m (\<lambda>x. pret (f x)) h) = snd (m h)"
  by (cases "fst (m h)"; cases "m h") (simp_all add: pbind_def pret_def)

lemma whole_call_client:
  assumes "call_ends (enter_member p) (part_member (fire_within cbs n) p) c g r g'"
  shows "client_step cbs n g g'"
proof -
  obtain pc h where from_g: "member_from p c g pc h"
    using assms by (auto elim!: call_ends.cases dest: within_member)
  have g': "g' = snd (whole_call (fire_within cbs n) p c g)"
    using call_ends_whole [OF assms] by simp
  show ?thesis
  proof (cases c)
    case (Setter d)
    then have "has_promise p g" using from_g by (simp add: has_promise_def can_lock_def)
    then show ?thesis
      unfolding g' Setter whole_call.simps snd_pbind_pret
      by (cases d) (simp_all add: client_step.set_value client_step.SetError client_step.set_exception)
  next
    case Move_away
    then have "has_promise p g" using from_g by (simp add: has_promise_def can_lock_def)
    then show ?thesis unfolding g' Move_away whole_call.simps snd_pbind_pret by (rule client_step.move_ctor)
  next
    case (Assign t q)
    then have "has_promise t g" "has_promise q g"
      using from_g by (simp_all add: two_from_def has_promise_def can_lock_def)
    then show ?thesis unfolding g' Assign whole_call.simps snd_pbind_pret by (rule client_step.move_assign)
  next
    case (Swap t q)
    then have "has_promise t g" "has_promise q g"
      using from_g by (simp_all add: two_from_def has_promise_def can_lock_def)
    then show ?thesis unfolding g' Swap whole_call.simps snd_pbind_pret by (rule client_step.swap)
  qed
qed

lemma calls_end_client:
  "calls_end (enter_member p) (part_member (fire_within cbs n) p) cs h rs g \<Longrightarrow> (client_step cbs n)\<^sup>*\<^sup>* h g"
  by (induction rule: calls_end.induct) (auto intro: whole_call_client rtranclp.rtrancl_into_rtrancl)

section \<open>No deadlock\<close>

fun concerns :: "addr \<Rightarrow> nat \<Rightarrow> 'v member_call \<Rightarrow> bool" where
  "concerns p len (Assign this other) \<longleftrightarrow> this \<noteq> other \<and> p \<in> {this, other} \<and> this < len \<and> other < len"
| "concerns p len (Swap this other) \<longleftrightarrow> this \<noteq> other \<and> p \<in> {this, other} \<and> this < len \<and> other < len"
| "concerns p len c \<longleftrightarrow> p < len"

definition all_free :: "('v, 'f) heap \<Rightarrow> bool" where
  "all_free h \<longleftrightarrow> list_all (\<lambda>pr. \<not> mutex_held pr) (promises h)"

lemma enter_defined:
  assumes "concerns p (length (promises h)) c" "all_free h" "mutexes_kept h g"
  shows "enter_member p c g \<noteq> None"
proof -
  have "can_lock q g" if "q < length (promises h)" for q
    using assms(2,3) that
    by (auto simp: can_lock_def all_free_def list_all_length mutexes_kept_def promise_at_def)
  then show ?thesis using assms(1) by (cases c) auto
qed

text \<open>A setter whose continuation does not leave holds its mutex for ever.\<close>

definition stuck_inside where
  "stuck_inside fire p S \<longleftrightarrow>
     Inside Stored_content \<in> set (places S) \<and>
     \<not> leaves (fst (fire (extra_state (promise_at (memory S) p)) (memory S)))"

lemma part_defined:
  assumes "member_from p c g pc h"
  shows "part_member fire p c pc h \<noteq> None \<or>
    pc = Stored_content \<and> \<not> leaves (fst (fire (extra_state (promise_at h p)) h))"
proof (cases c)
  case (Setter d)
  have "fst (std_set x y z) = Ret () \<or> (\<exists>ex. fst (std_set x y z) = Throws ex)" for x y and z :: "('a, 'b) heap"
    by (simp add: std_set_def split: option.split)
  from this [of "delegate_promise (promise_at h p)" "content_of d" h] show ?thesis
    using assms Setter
    by (cases "std_set (delegate_promise (promise_at h p)) (content_of d) h")
      (auto simp: setter_part_def split_def Let_def)
qed (use assms in \<open>auto simp: move_part_def new_promise_def two_part_def two_from_def Let_def\<close>)

lemma members_progress:
  assumes run: "run_sections (enter_member p) (part_member (fire_within cbs n) p) calls schedule
      (sections_init h calls) = Some S"
    and ok: "heap_ok h" "tame mutexes_kept cbs" "all_free h"
    and calls: "list_all (concerns p (length (promises h))) calls"
    and left: "\<not> list_all is_left (places S)"
  shows "(\<exists>i S'. advance (enter_member p) (part_member (fire_within cbs n) p) calls i S = Some S') \<or>
    stuck_inside (fire_within cbs n) p S"
proof -
  let ?enter = "enter_member p :: 'a member_call \<Rightarrow> ('a, 'b) heap \<Rightarrow> _" and ?part = "part_member (fire_within cbs n) p"
  obtain order g where seq: "left_in_order ?enter ?part calls h order g S"
    and one: "at_most_one ?enter ?part calls g S"
    using members.run_inv [OF run] by (auto simp: sections_inv_def)
  have len: "length (places S) = length calls" using seq by (simp add: left_in_order_def)
  show ?thesis
  proof (cases "\<exists>i. only_inside ?enter ?part calls g i S")
    case True
    then obtain i pc where i: "i < length calls" "places S ! i = Inside pc"
        "within ?enter ?part (calls ! i) g pc (memory S)"
      by (auto simp: only_inside_def)
    then have "Inside pc \<in> set (places S)" using len nth_mem [of i "places S"] by simp
    with part_defined [OF within_member [OF i(3)], of "fire_within cbs n"] show ?thesis
      using advance_inside [OF i(1,2), of ?part ?enter] by (auto simp: stuck_inside_def)
  next
    case False
    then have none: "memory S = g" "\<forall>j < length calls. \<not> is_inside (places S ! j)"
      using one by (auto simp: at_most_one_def)
    obtain i where i: "i < length calls" "\<not> is_left (places S ! i)"
      using left len by (auto simp: list_all_length)
    then have "places S ! i = Outside" using none(2) by (cases "places S ! i") auto
    moreover obtain rs where "calls_end ?enter ?part (map ((!) calls) order) h rs g"
      using seq by (auto simp: left_in_order_def)
    then have "mutexes_kept h g"
      using mutexes.client_run_respects [OF calls_end_client ok(2,1)] by blast
    then have "enter_member p (calls ! i) g \<noteq> None"
      using enter_defined [OF _ ok(3)] calls i(1) by (simp add: list_all_length)
    ultimately show ?thesis using advance_outside [OF i(1), of S ?enter ?part] none(1) by auto
  qed
qed

section \<open>The property\<close>

text \<open>
  C7. Any number of threads that call the members that take the mutex of one promise: the setters,
  the constructor that moves from it, and the assignments and swaps between it and another
  promise. Whatever the schedule, when all calls have ended their outcomes and the heap are those of
  the calls one after the other in some order, and then the heap is well-formed and its mutexes are
  as they were. No two threads are inside, a schedule has at most four steps for each call, and there
  is no deadlock, swaps and assignments in both directions included: as long as a call has not ended
  some thread can go on, unless a setter runs a continuation that does not come back. Three
  calls are no critical sections and left out: \<open>get_future\<close> takes no mutex, the assignment of a
  promise to itself does nothing, and swapping a promise with itself never gets its locks.
\<close>

theorem Promise_members_linearizable:
  fixes h :: "('v, 'f) heap" and cbs :: "('v, 'f) callables" and n :: nat
  defines "fire \<equiv> fire_within cbs n"
  assumes run: "run_sections (enter_member p) (part_member fire p) calls schedule (sections_init h calls) = Some S"
    and ok: "heap_ok h" "tame mutexes_kept cbs" "all_free h" "list_all (concerns p (length (promises h))) calls"
  shows "(list_all is_left (places S) \<longrightarrow>
        (\<exists>order rs. distinct order \<and> set order = {..<length calls}
          \<and> run_members fire p (map ((!) calls) order) h = (rs, memory S)
          \<and> map ((!) (places S)) order = map Left rs)
        \<and> heap_ok (memory S) \<and> mutexes_kept h (memory S))
    \<and> (\<not> list_all is_left (places S) \<longrightarrow>
        (\<exists>i S'. advance (enter_member p) (part_member fire p) calls i S = Some S') \<or> stuck_inside fire p S)
    \<and> (\<forall>i j. i < length calls \<and> j < length calls \<and> is_inside (places S ! i) \<and> is_inside (places S ! j) \<longrightarrow> i = j)
    \<and> length schedule \<le> 4 * length calls
    \<and> Promise_move_assign p p g = (Ret (), g)
    \<and> Promise_swap p p g = (Blocks, g) \<and> enter_member p (Swap p p) g = None"
proof (intro conjI impI)
  assume "list_all is_left (places S)"
  from members.all_left [OF run this] obtain order rs where o: "distinct order" "set order = {..<length calls}"
      "calls_end (enter_member p) (part_member fire p) (map ((!) calls) order) h rs (memory S)"
      "map ((!) (places S)) order = map Left rs" .
  from o calls_end_run [OF o(3)] show "\<exists>order rs. distinct order \<and> set order = {..<length calls}
          \<and> run_members fire p (map ((!) calls) order) h = (rs, memory S)
          \<and> map ((!) (places S)) order = map Left rs" by blast
  show "heap_ok (memory S)" "mutexes_kept h (memory S)"
    using mutexes.client_run_respects [OF calls_end_client [OF o(3) [unfolded fire_def]] ok(2,1)] by simp_all
qed (use members_progress [OF run [unfolded fire_def] ok] members.exclusion [OF run] members.run_bounded [OF run]
    in \<open>auto simp: fire_def Promise_move_assign_def Promise_swap_def with_locks_def\<close>)

text \<open>Two promises that are swapped in both directions while the first one is set.\<close>

definition two_promises :: "int content \<Rightarrow> (int, int) heap" where
  "two_promises c =
     \<lparr>shared = [\<lparr>content = Pending, retrieved = False\<rparr>, \<lparr>content = c, retrieved = False\<rparr>],
      states = replicate 2 \<lparr>unique_continuation = None, delegate_future = None\<rparr>,
      promises = [\<lparr>delegate_promise = Some 0, extra_state = Some 0, mutex_held = False\<rparr>,
                  \<lparr>delegate_promise = Some 1, extra_state = Some 1, mutex_held = False\<rparr>]\<rparr>"

definition three_calls :: "int member_call list" where
  "three_calls = [Swap 0 1, Setter (Set_value (Val 7)), Swap 1 0]"

lemma leaves_Ret [simp]: "leaves (Ret x)" "leaves (Throws e)"
  by (simp_all add: leaves_def throws_def)

lemma three_calls_run:
  "run_sections (enter_member 0) (part_member (fire_within busy_callables 1) 0) three_calls
     [0, 0, 0, 0, 1, 1, 1, 2, 2, 2, 2] (sections_init (two_promises Pending) three_calls) =
   Some \<lparr>memory = two_promises (Stored (HasV (Val 7))), places = replicate 3 (Left (Ret None))\<rparr>"
  by (simp add: three_calls_def two_promises_def sections_init_def advance_def can_lock_def locked_def unlocked_def
      unlock_both_def swap_delegates_def swap_states_def set_promise_def promise_at_def two_part_def setter_part_def
      std_set_def FireContinuation_def HasContinuation_def Let_def numeral_eq_Suc)

theorem Promise_members_linearizable_witness:
  "\<exists>S order rs. run_sections (enter_member 0) (part_member (fire_within busy_callables 1) 0) three_calls
       [0, 0, 0, 0, 1, 1, 1, 2, 2, 2, 2] (sections_init (two_promises Pending) three_calls) = Some S
     \<and> list_all is_left (places S) \<and> content_at (memory S) 1 = Stored (HasV (Val 7))
     \<and> run_members (fire_within busy_callables 1) 0 (map ((!) three_calls) order) (two_promises Pending) = (rs, memory S)
     \<and> all_free (memory S) \<and> heap_ok (memory S)"
proof -
  let ?S = "\<lparr>memory = two_promises (Stored (HasV (Val 7))), places = replicate 3 (Left (Ret None))\<rparr>
    :: ((int, int) heap, member_pc, member_result) sections"
  have "heap_ok (two_promises Pending)"
    by (auto simp: two_promises_def heap_ok_def links_def continuations_def linked_def unshared_def less_Suc_eq numeral_eq_Suc)
  moreover have "all_free (two_promises c)" for c by (simp add: two_promises_def all_free_def)
  moreover have "list_all (concerns 0 (length (promises (two_promises Pending)))) three_calls"
    by (simp add: two_promises_def three_calls_def)
  ultimately have "(list_all is_left (places ?S) \<longrightarrow>
      (\<exists>order rs. run_members (fire_within busy_callables 1) 0 (map ((!) three_calls) order) (two_promises Pending) =
        (rs, memory ?S)) \<and> heap_ok (memory ?S))"
    using Promise_members_linearizable [OF three_calls_run _ busy_tame [OF mutexes.heap_growth_axioms]] by blast
  moreover have "list_all is_left (places ?S)" by (simp add: list_all_length)
  moreover have "content_at (memory ?S) 1 = Stored (HasV (Val 7))" by (simp add: two_promises_def content_at_def)
  ultimately show ?thesis using three_calls_run \<open>\<And>c. all_free (two_promises c)\<close> by fastforce
qed

end
