(* ===== verification/Unique_Function.thy ===== *)
theory Unique_Function
  imports Future
begin

text \<open>
  \<open>internal::unique_function\<close> and its \<open>wrapper\<close> (\<open>future.h\<close>), in which a \<open>State\<close> keeps its
  continuation: a \<open>std::function\<close> made to accept callables that can only be moved. The type
  parameter \<open>'c\<close> is the callable's type with the operations of \<open>elem_ops\<close>; the record \<open>State\<close> of
  \<open>Std_Future\<close> has the target alone, and the lemmas here say that this is the same.
\<close>

section \<open>The wrapper of a callable\<close>

record 'c wrapper =
  fn :: 'c

text \<open>
  The only specialization: \<open>Fn\<close> can be moved and not be copied. \<open>Fn\<close> is deduced from a forwarding
  reference, so for an lvalue it is a reference type, which can be copied.
\<close>

definition wrapper_exists :: "value_category \<Rightarrow> bool \<Rightarrow> bool \<Rightarrow> bool" where
  "wrapper_exists cat is_copy_constructible is_move_constructible \<longleftrightarrow>
     (let Fn_is_copy_constructible = (cat = LValue \<or> is_copy_constructible);
          Fn_is_move_constructible = (cat = LValue \<or> is_move_constructible)
      in \<not> Fn_is_copy_constructible \<and> Fn_is_move_constructible)"

text \<open>\<open>explicit wrapper(Fn &&)\<close>: the wrapper and what is left of its argument.\<close>

definition wrapper_ctor :: "('x, 't, 'c) elem_ops \<Rightarrow> 'c \<Rightarrow> ('x, 'c wrapper \<times> 'c) outcome" where
  "wrapper_ctor ops f = obind (move_ctor ops f) (\<lambda>(n, left). Ret (\<lparr>fn = n\<rparr>, left))"

definition wrapper_move_ctor :: "('x, 't, 'c) elem_ops \<Rightarrow> 'c wrapper \<Rightarrow> ('x, 'c wrapper \<times> 'c wrapper) outcome" where
  "wrapper_move_ctor ops rhs = obind (move_ctor ops (fn rhs)) (\<lambda>(n, left). Ret (\<lparr>fn = n\<rparr>, rhs\<lparr>fn := left\<rparr>))"

definition wrapper_move_assign ::
  "('x, 't, 'c) elem_ops \<Rightarrow> 'c wrapper \<Rightarrow> 'c wrapper \<Rightarrow> ('x, 'c wrapper \<times> 'c wrapper) outcome" where
  "wrapper_move_assign ops this rhs =
     obind (move_asgn ops (fn this) (fn rhs)) (\<lambda>(n, left). Ret (this\<lparr>fn := n\<rparr>, rhs\<lparr>fn := left\<rparr>))"

text \<open>
  The copy constructor: it moves out of its constant argument, and then throws an \<open>int\<close>. What is
  left of the argument comes second.
\<close>

definition wrapper_copy_ctor ::
  "(cxx_exn, 't, 'c) elem_ops \<Rightarrow> 'c wrapper \<Rightarrow> (cxx_exn, 'c wrapper) outcome \<times> 'c wrapper" where
  "wrapper_copy_ctor ops rhs =
     (case move_ctor ops (fn rhs) of
        Ret (n, left) \<Rightarrow> (Throws NonStdException, rhs\<lparr>fn := left\<rparr>)
      | Throws e \<Rightarrow> (Throws e, rhs)
      | Terminates m \<Rightarrow> (Terminates m, rhs)
      | Undefined \<Rightarrow> (Undefined, rhs)
      | Blocks \<Rightarrow> (Blocks, rhs))"

definition wrapper_copy_assign :: "'c wrapper \<Rightarrow> 'c wrapper \<Rightarrow> (cxx_exn, 'c wrapper) outcome" where
  "wrapper_copy_assign this rhs = Throws NonStdException"

definition wrapper_call :: "('c \<Rightarrow> 'r) \<Rightarrow> 'c wrapper \<Rightarrow> 'r" where
  "wrapper_call call_fn this = call_fn (fn this)"

section \<open>unique_function\<close>

text \<open>
  \<open>std::function\<close> after the C++ standard: its target or nothing. The constructor takes the
  callable by value and moves it into the target; assignment constructs and then swaps, so that
  a callable that throws leaves the old target.
\<close>

type_synonym 'c unique_function = "'c wrapper option"

definition unique_default :: "'c unique_function" where
  "unique_default = None"

definition std_function_ctor :: "('x, 't, 'c) elem_ops \<Rightarrow> 'c wrapper \<Rightarrow> ('x, 'c unique_function) outcome" where
  "std_function_ctor ops w =
     obind (wrapper_move_ctor ops w) (\<lambda>(parameter, _).
     obind (wrapper_move_ctor ops parameter) (\<lambda>(target, _). Ret (Some target)))"

text \<open>\<open>operator=(Fn &&)\<close>: what is left of the argument, and the new \<open>*this\<close>.\<close>

definition unique_assign ::
  "('x, 't, 'c) elem_ops \<Rightarrow> value_category \<Rightarrow> bool \<Rightarrow> bool \<Rightarrow> 'c unique_function \<Rightarrow> 'c \<Rightarrow>
   (('x, 'c) outcome \<times> 'c unique_function) option" where
  "unique_assign ops cat is_copy_constructible is_move_constructible this f =
     (if wrapper_exists cat is_copy_constructible is_move_constructible
      then Some (case obind (wrapper_ctor ops f) (\<lambda>(w, left).
                      obind (std_function_ctor ops w) (\<lambda>target. Ret (target, left))) of
                   Ret (target, left) \<Rightarrow> (Ret left, target)
                 | r \<Rightarrow> (obind r (\<lambda>(target, left). Ret left), this))
      else None)"

text \<open>
  The implicit copy constructor: the new object and what is left of the source. The implicit move
  constructor is not used by the code and not modelled: \<open>std::function\<close> leaves its source valid and
  unspecified.
\<close>

definition unique_copy_ctor ::
  "(cxx_exn, 't, 'c) elem_ops \<Rightarrow> 'c unique_function \<Rightarrow> (cxx_exn, 'c unique_function) outcome \<times> 'c unique_function" where
  "unique_copy_ctor ops rhs =
     (case rhs of
        None \<Rightarrow> (Ret None, None)
      | Some w \<Rightarrow> (let (r, w') = wrapper_copy_ctor ops w in (obind r (\<lambda>n. Ret (Some n)), Some w')))"

definition unique_bool :: "'c unique_function \<Rightarrow> bool" where
  "unique_bool this \<longleftrightarrow> this \<noteq> None"

definition unique_call ::
  "('c \<Rightarrow> 'a \<Rightarrow> ('v, 'f, unit) proc) \<Rightarrow> 'c unique_function \<Rightarrow> 'a \<Rightarrow> ('v, 'f, unit) proc" where
  "unique_call call_fn this arg =
     (case this of
        None \<Rightarrow> pfail (Throws (StdException ''bad_function_call''))
      | Some w \<Rightarrow> wrapper_call call_fn w arg)"

text \<open>The target, which is what the record \<open>State\<close> keeps.\<close>

definition target :: "'c unique_function \<Rightarrow> 'c option" where
  "target this = map_option fn this"

section \<open>Callables that can be moved\<close>

text \<open>A move hands the callable over and does not throw; a copy is not asked for.\<close>

locale movable_elems =
  fixes ops :: "('x, 't, 'c) elem_ops"
    and moved_out :: "'c \<Rightarrow> 'c"
  assumes moves: "move_ctor ops v = Ret (v, moved_out v)"
begin

lemma assign_eq:
  "unique_assign ops RValue False True this f = Some (Ret (moved_out f), Some \<lparr>fn = f\<rparr>)"
  by (simp add: unique_assign_def wrapper_exists_def wrapper_ctor_def std_function_ctor_def wrapper_move_ctor_def moves)

lemma assign_target: "map_option (target \<circ> snd) (unique_assign ops RValue False True this f) = Some (Some f)"
  by (simp add: assign_eq target_def)

end

sublocale regular_elems \<subseteq> movable_elems
  by unfold_locales (rule move_ctor_law)

text \<open>
  The lambdas of \<open>then\<close> capture a promise, so they can be moved and not be copied. The promise
  of a lambda keeps its address when the lambda is moved; the lambda that is left has a promise
  without a state, at \<open>dead\<close>.
\<close>

primrec moved_lambda :: "addr \<Rightarrow> 'f closure \<Rightarrow> 'f closure" where
  "moved_lambda dead (Continuation k void f p) = Continuation k void f dead"
| "moved_lambda dead (InnerContinuation void inner_void p) = InnerContinuation void inner_void dead"

definition lambda_ops :: "addr \<Rightarrow> (cxx_exn, unit, 'f closure) elem_ops" where
  "lambda_ops dead =
     \<lparr>type_of = (\<lambda>_. ()), copy_ctor = (\<lambda>_. Undefined), move_ctor = (\<lambda>k. Ret (k, moved_lambda dead k)),
      copy_asgn = (\<lambda>_ _. Undefined), move_asgn = (\<lambda>_ _. Undefined), conv_ctor = (\<lambda>_ _. Undefined)\<rparr>"

interpretation lambda: movable_elems "lambda_ops dead" "moved_lambda dead" for dead
  by unfold_locales (simp add: lambda_ops_def)

lemma unique_call_Some: "unique_call call_fn (Some w) = call_fn (fn w)"
  by (rule ext) (simp add: unique_call_def wrapper_call_def)

lemma fire_calls_target:
  assumes "unique_continuation (states h ! s) = target u"
  shows "FireContinuation call_fn (Some s) h =
    (if unique_bool u then pbind (State_get_future s) (unique_call call_fn u) h else (Ret (), h))"
  using assms
  by (cases u) (simp_all add: FireContinuation_eq target_def unique_bool_def unique_call_Some)

lemma set_keeps_target:
  assumes "s < length (states h)" "unique_assign ops cat cp mv u func = Some (Ret left, u')" "target u' = Some func"
  shows "unique_continuation (states (snd (SetContinuation s func predecessor h)) ! s) = target u'"
  using assms by (simp add: SetContinuation_def)

lemma assign_throws_keeps:
  "unique_assign ops cat cp mv u f = Some (r, u') \<Longrightarrow> \<not> returns r \<Longrightarrow> u' = u"
  by (auto simp: unique_assign_def split: if_splits outcome.splits prod.splits)

text \<open>
  C22. \<open>unique_function\<close> keeps the callable that is assigned to it, for callables that can be moved
  and not be copied: others do not compile, and neither does an lvalue. A throwing move leaves
  the old target. \<open>SetContinuation\<close> of \<open>State\<close> keeps what \<open>unique_function\<close> keeps, and
  \<open>FireContinuation\<close> calls it with the future, and calls nothing in a new \<open>State\<close>; an empty
  \<open>unique_function\<close> throws \<open>bad_function_call\<close>. Copying it compiles, throws an \<open>int\<close>, and
  leaves a callable that was moved from in the source, whose \<open>bool\<close> is still true.
\<close>

theorem unique_function_keeps_target:
  fixes h :: "('v, 'f) heap" and ops :: "(cxx_exn, 't, 'c) elem_ops"
  assumes s: "s < length (states h)"
  shows "(\<exists>u'. unique_assign (lambda_ops dead) RValue False True u k = Some (Ret (moved_lambda dead k), u')
        \<and> target u' = Some k
        \<and> (let h' = snd (SetContinuation s k predecessor h)
            in unique_continuation (states h' ! s) = target u'
              \<and> FireContinuation call_fn (Some s) h' = pbind (State_get_future s) (unique_call call_fn u') h')
        \<and> (\<exists>u''. unique_copy_ctor (lambda_ops dead) u' = (Throws NonStdException, u'')
              \<and> target u'' = Some (moved_lambda dead k) \<and> unique_bool u''))
    \<and> (\<forall>r v v'. unique_assign ops cat cp mv v c = Some (r, v') \<longrightarrow>
          cat = RValue \<and> \<not> cp \<and> mv \<and> (\<not> returns r \<longrightarrow> v' = v))
    \<and> unique_call call_fn unique_default fut h = (Throws (StdException ''bad_function_call''), h)
    \<and> (let h' = snd (State_ctor h) in FireContinuation call_fn (Some (length (states h))) h' = (Ret (), h'))"
proof (intro conjI)
  let ?u = "Some \<lparr>fn = k\<rparr>" and ?h = "snd (SetContinuation s k predecessor h)"
  have set: "unique_continuation (states ?h ! s) = target ?u"
    using set_keeps_target [OF s lambda.assign_eq] by (simp add: target_def)
  show "\<exists>u'. unique_assign (lambda_ops dead) RValue False True u k = Some (Ret (moved_lambda dead k), u')
        \<and> target u' = Some k
        \<and> (let h' = snd (SetContinuation s k predecessor h)
            in unique_continuation (states h' ! s) = target u'
              \<and> FireContinuation call_fn (Some s) h' = pbind (State_get_future s) (unique_call call_fn u') h')
        \<and> (\<exists>u''. unique_copy_ctor (lambda_ops dead) u' = (Throws NonStdException, u'')
              \<and> target u'' = Some (moved_lambda dead k) \<and> unique_bool u'')"
    using lambda.assign_eq [of dead u k] set fire_calls_target [OF set]
    by (intro exI [of _ ?u])
      (simp add: target_def unique_bool_def unique_default_def unique_copy_ctor_def
        wrapper_copy_ctor_def lambda_ops_def Let_def)
  show "\<forall>r v v'. unique_assign ops cat cp mv v c = Some (r, v') \<longrightarrow>
          cat = RValue \<and> \<not> cp \<and> mv \<and> (\<not> returns r \<longrightarrow> v' = v)"
    using assign_throws_keeps [of ops cat cp mv _ c]
    by (cases cat) (auto simp: unique_assign_def wrapper_exists_def split: if_splits)
qed (use s in \<open>simp_all add: unique_call_def unique_default_def pfail_def FireContinuation_eq State_ctor_def\<close>)

text \<open>A state whose continuation is assigned and fired, and what a copy of it leaves.\<close>

definition one_state :: "(int, int) heap" where
  "one_state = \<lparr>shared = [], states = [\<lparr>unique_continuation = None, delegate_future = None\<rparr>], promises = []\<rparr>"

theorem unique_function_keeps_target_witness:
  "\<exists>u' u''. unique_assign (lambda_ops 9) RValue False True unique_default (Continuation KVoid False (5 :: int) 0) =
       Some (Ret (Continuation KVoid False 5 9), u')
     \<and> unique_continuation (states (snd (SetContinuation 0 (Continuation KVoid False 5 0) Future_default one_state)) ! 0) = target u'
     \<and> unique_copy_ctor (lambda_ops 9) u' = (Throws NonStdException, u'')
     \<and> target u'' = Some (Continuation KVoid False 5 9)"
proof -
  have "0 < length (states one_state)" by (simp add: one_state_def)
  note keeps = unique_function_keeps_target [OF this, of 9 unique_default "Continuation KVoid False 5 0" Future_default
      "\<lambda>_ _. pret ()" "lambda_ops 9" RValue False True "Continuation KVoid False 5 0" Future_default]
  from keeps show ?thesis by (auto simp: Let_def)
qed

end
