(* ===== verification/State_Lifetimes.thy ===== *)
theory State_Lifetimes
  imports Heap_Steps
begin

text \<open>
  The lifetimes of \<open>State\<close> objects. A \<open>State\<close> is owned by the promise and the futures whose
  \<open>extra_state_\<close> refers to it; with the last of them it is destroyed, and with it the closure it
  stores and the promise this captures, which makes the next future ready with
  \<open>broken_promise\<close> and gives up the next \<open>State\<close> in turn.
\<close>

section \<open>Destruction\<close>

text \<open>
  \<open>use_count\<close> of the shared pointers to a \<open>State\<close>: its promises are in the heap, and \<open>held\<close> lists
  the \<open>State\<close>s of the futures that are alive, one entry for each.
\<close>

definition use_count :: "addr list \<Rightarrow> ('v, 'f) heap \<Rightarrow> addr \<Rightarrow> nat" where
  "use_count held h s = length (filter (\<lambda>P. extra_state P = Some s) (promises h)) + count_list held s"

text \<open>What \<open>~State()\<close> leaves, the promise of the closure apart.\<close>

definition clear_state :: "addr \<Rightarrow> ('v, 'f) heap \<Rightarrow> ('v, 'f) heap" where
  "clear_state s h = h\<lparr>states := (states h)[s := \<lparr>unique_continuation = None, delegate_future = None\<rparr>]\<rparr>"

definition drop_state :: "addr \<Rightarrow> ('v, 'f) heap \<Rightarrow> ('v, 'f) heap" where
  "drop_state p h = set_promise p ((promise_at h p)\<lparr>extra_state := None\<rparr>) h"

definition closures_left :: "('v, 'f) heap \<Rightarrow> nat" where
  "closures_left h = length (filter (\<lambda>S. unique_continuation S \<noteq> None) (states h))"

lemma filter_update_less:
  "s < length xs \<Longrightarrow> P (xs ! s) \<Longrightarrow> \<not> P y \<Longrightarrow> length (filter P (xs[s := y])) < length (filter P xs)"
proof (induction xs arbitrary: s)
  case (Cons x xs)
  then show ?case by (cases s) auto
qed simp

lemma closures_left_drop [simp]: "closures_left (drop_state p h) = closures_left h"
  by (simp add: closures_left_def drop_state_def set_promise_def)

lemma closures_left_clear:
  "s < length (states h) \<Longrightarrow> unique_continuation (states h ! s) = Some k \<Longrightarrow>
   closures_left (clear_state s h) < closures_left h"
  by (simp add: closures_left_def clear_state_def filter_update_less)

text \<open>
  A reference to \<open>s\<close> was given up. The members of a promise are destroyed in the reverse order of
  their declaration: \<open>extra_state_\<close> first, then \<open>delegate_promise_\<close>, in both class templates.
\<close>

function State_release :: "addr list \<Rightarrow> addr \<Rightarrow> ('v, 'f) heap \<Rightarrow> ('v, 'f) heap" where
  "State_release held s h =
     (if s < length (states h) \<and> use_count held h s = 0
      then case unique_continuation (states h ! s) of
          None \<Rightarrow> clear_state s h
        | Some k \<Rightarrow>
            (case extra_state (promise_at h (captured k)) of
               None \<Rightarrow> Promise_dtor (captured k) (clear_state s h)
             | Some t \<Rightarrow> Promise_dtor (captured k) (State_release held t (drop_state (captured k) (clear_state s h))))
      else h)"
  by pat_completeness auto

termination
  by (relation "measure (\<lambda>(held, s, h). closures_left h)") (auto simp: closures_left_clear)

declare State_release.simps [simp del]

definition Promise_destroy :: "addr list \<Rightarrow> addr \<Rightarrow> ('v, 'f) heap \<Rightarrow> ('v, 'f) heap" where
  "Promise_destroy held p h =
     (case extra_state (promise_at h p) of
        None \<Rightarrow> Promise_dtor p h
      | Some s \<Rightarrow> Promise_dtor p (State_release held s (drop_state p h)))"

text \<open>\<open>~Future()\<close>: the futures that are left, and the heap.\<close>

definition Future_destroy :: "addr list \<Rightarrow> Future \<Rightarrow> ('v, 'f) heap \<Rightarrow> addr list \<times> ('v, 'f) heap" where
  "Future_destroy held F h =
     (case extra_state_of F of
        None \<Rightarrow> (held, h)
      | Some s \<Rightarrow> (remove1 s held, State_release (remove1 s held) s h))"

text \<open>
  Move assignment gives up the \<open>State\<close> that \<open>*this\<close> referred to. The destructors that follow take
  no mutex.
\<close>

definition Promise_assign_release :: "addr list \<Rightarrow> addr \<Rightarrow> addr \<Rightarrow> ('v, 'f, unit) proc" where
  "Promise_assign_release held this other h =
     (let (r, h') = Promise_move_assign this other h
      in (r, if this \<noteq> other \<and> r = Ret ()
             then (case extra_state (promise_at h this) of None \<Rightarrow> h' | Some s \<Rightarrow> State_release held s h')
             else h'))"

definition Future_assign_release ::
  "addr list \<Rightarrow> bool \<Rightarrow> Future \<Rightarrow> Future \<Rightarrow> ('v, 'f) heap \<Rightarrow> (Future \<times> Future) \<times> addr list \<times> ('v, 'f) heap" where
  "Future_assign_release held self this other h =
     (Future_assigned self this other, if self then (held, h) else Future_destroy held this h)"

section \<open>What destruction leaves alone\<close>

lemma clear_state_simps [simp]:
  "promises (clear_state s h) = promises h" "shared (clear_state s h) = shared h"
  "length (states (clear_state s h)) = length (states h)" "content_at (clear_state s h) b = content_at h b"
  "promise_at (clear_state s h) p = promise_at h p" "links (clear_state s h) = links h"
  "t \<noteq> s \<Longrightarrow> states (clear_state s h) ! t = states h ! t"
  by (simp_all add: clear_state_def content_at_def promise_at_def links_def)

lemma drop_state_simps [simp]:
  "states (drop_state p h) = states h" "shared (drop_state p h) = shared h"
  "length (promises (drop_state p h)) = length (promises h)" "content_at (drop_state p h) b = content_at h b"
  "p < length (promises h) \<Longrightarrow> promise_at (drop_state p h) p = (promise_at h p)\<lparr>extra_state := None\<rparr>"
  "q \<noteq> p \<Longrightarrow> promise_at (drop_state p h) q = promise_at h q"
  by (simp_all add: drop_state_def set_promise_def content_at_def promise_at_def)

lemma dtor_simps [simp]:
  "states (Promise_dtor p h) = states h" "length (promises (Promise_dtor p h)) = length (promises h)"
  "length (shared (Promise_dtor p h)) = length (shared h)"
  "q \<noteq> p \<Longrightarrow> promise_at (Promise_dtor p h) q = promise_at h q"
  by (simp_all add: Promise_dtor_def std_abandon_def set_promise_def promise_at_def split: option.split)

lemma dtor_content:
  "delegate_promise (promise_at h p) = Some a \<Longrightarrow> a < length (shared h) \<Longrightarrow>
   content_at (Promise_dtor p h) b =
     (if b = a \<and> content_at h a = Pending then StoredException (StdFutureError 4) else content_at h b)"
  by (auto simp: Promise_dtor_def std_abandon_def set_promise_def content_at_def future_errc_defs nth_list_update)

lemma dtor_ready: "content_at h b \<noteq> Pending \<Longrightarrow> content_at (Promise_dtor p h) b = content_at h b"
  by (auto simp: Promise_dtor_def std_abandon_def set_promise_def content_at_def nth_list_update split: option.split)
    (metis nth_list_update_eq list_update_beyond not_less nth_list_update_neq)

lemma release_lengths:
  "length (states (State_release held s h)) = length (states h)"
  "length (promises (State_release held s h)) = length (promises h)"
  "length (shared (State_release held s h)) = length (shared h)"
proof (induction held s h rule: State_release.induct)
  case (1 held s h)
  { case 1 show ?case using "1.IH"(1) by (subst State_release.simps) (auto split: option.split) }
  { case 2 show ?case using "1.IH"(2) by (subst State_release.simps) (auto split: option.split) }
  { case 3 show ?case using "1.IH"(3) by (subst State_release.simps) (auto split: option.split) }
qed

lemma release_ready:
  "content_at h b \<noteq> Pending \<Longrightarrow> content_at (State_release held s h) b = content_at h b"
proof (induction held s h rule: State_release.induct)
  case (1 held s h)
  then show ?case by (subst State_release.simps) (auto simp: dtor_ready split: option.split)
qed

section \<open>Well-formed heaps stay well-formed\<close>

text \<open>
  While a promise is being destroyed it has its shared state still and its \<open>State\<close> no more; the
  heap without the promises in \<open>dying\<close> is well-formed all along.
\<close>

definition forget_links :: "addr set \<Rightarrow> (addr option \<times> addr option) list \<Rightarrow> (addr option \<times> addr option) list" where
  "forget_links dying ls = map (\<lambda>i. if i \<in> dying then (None, None) else ls ! i) [0..<length ls]"

definition ok_without :: "addr set \<Rightarrow> ('v, 'f) heap \<Rightarrow> bool" where
  "ok_without dying h \<longleftrightarrow>
     (\<forall>l \<in> set (forget_links dying (links h)). linked (length (shared h)) (length (states h)) l) \<and>
     unshared (forget_links dying (links h)) \<and>
     (\<forall>k. Some k \<in> set (continuations h) \<longrightarrow> captured k < length (promises h))"

lemma forget_nothing [simp]: "forget_links {} ls = ls"
  by (simp add: forget_links_def map_nth)

lemma ok_without_nothing: "ok_without {} h = heap_ok h"
  by (simp add: ok_without_def heap_ok_def)

lemma forget_insert: "forget_links (insert p dying) ls = (forget_links dying ls)[p := (None, None)]"
  by (cases "p < length ls")
    (auto simp: forget_links_def nth_list_update list_update_beyond intro!: nth_equalityI)

lemma forget_same:
  "length ls = length ls' \<Longrightarrow> (\<And>i. i < length ls \<Longrightarrow> i \<notin> dying \<Longrightarrow> ls ! i = ls' ! i) \<Longrightarrow>
   forget_links dying ls = forget_links dying ls'"
  by (simp add: forget_links_def)

lemma ok_without_more:
  assumes "ok_without dying h"
  shows "ok_without (insert p dying) h"
  using assms set_update_subset_insert [of "forget_links dying (links h)" p "(None, None)"]
  by (auto simp: ok_without_def forget_insert unshared_forget dest!: subsetD)

lemma ok_without_frame:
  assumes "ok_without dying h" "length (promises G) = length (promises h)"
    and "\<And>q. q \<notin> dying \<Longrightarrow> promise_at G q = promise_at h q"
    and "length (shared G) = length (shared h)" "length (states G) = length (states h)"
    and "\<And>k. Some k \<in> set (continuations G) \<Longrightarrow> Some k \<in> set (continuations h)"
  shows "ok_without dying G"
proof -
  have "forget_links dying (links G) = forget_links dying (links h)"
    by (rule forget_same) (simp_all add: assms(2,3) links_nth)
  with assms show ?thesis by (auto simp: ok_without_def)
qed

lemma continuations_clear: "Some k \<in> set (continuations (clear_state s h)) \<Longrightarrow> Some k \<in> set (continuations h)"
  using set_update_subset_insert [of "continuations h" s None]
  by (auto simp: continuations_def clear_state_def map_update)

lemma ok_without_clear: "ok_without dying h \<Longrightarrow> ok_without dying (clear_state s h)"
  by (erule ok_without_frame) (simp_all add: continuations_clear)

lemma ok_without_drop: "ok_without (insert p dying) h \<Longrightarrow> ok_without (insert p dying) (drop_state p h)"
  by (erule ok_without_frame) (auto simp: continuations_def)

lemma ok_after_dtor:
  assumes "ok_without (insert p dying) h"
  shows "ok_without dying (Promise_dtor p h)"
proof -
  have "forget_links dying (links (Promise_dtor p h)) = forget_links (insert p dying) (links h)"
    by (rule nth_equalityI)
      (auto simp: forget_links_def links_nth Promise_dtor_def set_promise_def promise_at_def std_abandon_def
        split: option.split)
  with assms show ?thesis by (simp add: ok_without_def) (simp add: continuations_def)
qed

lemma release_keeps_ok: "ok_without dying h \<Longrightarrow> ok_without dying (State_release held s h)"
proof (induction held s h arbitrary: dying rule: State_release.induct)
  case (1 held s h)
  have "ok_without (insert p dying) (drop_state p (clear_state s h))" for p
    using 1(2) by (intro ok_without_drop ok_without_more ok_without_clear)
  moreover have "ok_without dying (Promise_dtor p (clear_state s h))" for p
    using 1(2) by (intro ok_after_dtor ok_without_more ok_without_clear)
  ultimately show ?case
    using 1 by (subst State_release.simps) (auto simp: ok_without_clear intro: ok_after_dtor split: option.split)
qed

lemma destroy_ok: "heap_ok h \<Longrightarrow> heap_ok (Promise_destroy held p h)"
proof -
  assume "heap_ok h"
  then have "ok_without (insert p {}) h"
    by (intro ok_without_more) (simp only: ok_without_nothing)
  then have "ok_without {} (Promise_destroy held p h)"
    unfolding Promise_destroy_def
    by (auto intro: ok_after_dtor release_keeps_ok ok_without_drop split: option.split)
  then show ?thesis by (simp only: ok_without_nothing)
qed

section \<open>Futures that wait for one another\<close>

text \<open>
  The futures that wait for the \<open>State\<close> at \<open>s\<close>, through continuations of any kind: for each the
  promise its closure captures, the shared state and the \<open>State\<close> of this promise.
\<close>

fun waiting :: "('v, 'f) heap \<Rightarrow> addr \<Rightarrow> (addr \<times> addr \<times> addr) list \<Rightarrow> bool" where
  "waiting h s [] \<longleftrightarrow> unique_continuation (states h ! s) = None"
| "waiting h s ((p, b, t) # ls) \<longleftrightarrow>
     (\<exists>k. unique_continuation (states h ! s) = Some k \<and> captured k = p) \<and>
     owns h p b t \<and> content_at h b = Pending \<and> waiting h t ls"

definition apart :: "addr \<Rightarrow> addr \<Rightarrow> addr \<Rightarrow> (addr \<times> addr \<times> addr) list \<Rightarrow> bool" where
  "apart p a s ls \<longleftrightarrow> distinct (p # map fst ls) \<and> distinct (a # map (fst \<circ> snd) ls) \<and>
     distinct (s # map (snd \<circ> snd) ls)"

text \<open>The shared states that end broken: up to the first \<open>State\<close> that a future holds.\<close>

fun broken_along :: "addr list \<Rightarrow> addr \<Rightarrow> (addr \<times> addr \<times> addr) list \<Rightarrow> addr list" where
  "broken_along held s [] = []"
| "broken_along held s ((p, b, t) # ls) = (if s \<in> set held then [] else b # broken_along held t ls)"

text \<open>No promise but its own refers to a \<open>State\<close>; the one of \<open>s\<close> is gone.\<close>

definition sole_owners :: "('v, 'f) heap \<Rightarrow> addr \<Rightarrow> (addr \<times> addr \<times> addr) list \<Rightarrow> bool" where
  "sole_owners h s ls \<longleftrightarrow>
     (\<forall>q < length (promises h). extra_state (promise_at h q) \<noteq> Some s \<and>
        (\<forall>(p, b, t) \<in> set ls. extra_state (promise_at h q) = Some t \<longrightarrow> q = p))"

lemma use_count_zero:
  "use_count held h s = 0 \<longleftrightarrow> s \<notin> set held \<and> (\<forall>q < length (promises h). extra_state (promise_at h q) \<noteq> Some s)"
  by (auto simp: use_count_def filter_empty_conv all_set_conv_all_nth promise_at_def count_list_0_iff)

lemma sole_owners_next:
  assumes "sole_owners h s ((p, b, t) # ls)" "p < length (promises h)"
  shows "sole_owners (drop_state p (clear_state s h)) t ls"
  unfolding sole_owners_def
proof (intro allI impI conjI ballI)
  fix q assume "q < length (promises (drop_state p (clear_state s h)))"
  then have q: "q < length (promises h)" by simp
  have G: "extra_state (promise_at (drop_state p (clear_state s h)) q) =
      (if q = p then None else extra_state (promise_at h q))"
    using assms(2) by simp
  show "extra_state (promise_at (drop_state p (clear_state s h)) q) \<noteq> Some t"
    using assms(1) q unfolding G by (auto simp: sole_owners_def)
  fix l assume l: "l \<in> set ls"
  have "\<forall>(p', b', t') \<in> set ls. extra_state (promise_at h q) = Some t' \<longrightarrow> q = p'"
    using assms(1) q by (simp add: sole_owners_def)
  from bspec [OF this l] show "case l of (p', b', t') \<Rightarrow>
      extra_state (promise_at (drop_state p (clear_state s h)) q) = Some t' \<longrightarrow> q = p'"
    unfolding G by (auto split: prod.splits)
qed

lemma waiting_frame:
  assumes "waiting h s ls"
    and "\<forall>t \<in> set (s # map (snd \<circ> snd) ls). states G ! t = states h ! t"
    and "\<forall>q \<in> set (map fst ls). promise_at G q = promise_at h q"
    and "length (promises G) = length (promises h)" "length (shared G) = length (shared h)"
      "length (states G) = length (states h)"
    and "\<forall>b \<in> set (map (fst \<circ> snd) ls). content_at G b = content_at h b"
  shows "waiting G s ls"
  using assms
  by (induction h s ls rule: waiting.induct) (auto simp: owns_def promise_at_def)

lemma broken_along_in: "b \<in> set (broken_along held s ls) \<Longrightarrow> b \<in> set (map (fst \<circ> snd) ls)"
  by (induction held s ls rule: broken_along.induct) (auto split: if_splits)

lemma release_along:
  assumes "waiting h s ls" "distinct (map fst ls)" "distinct (map (fst \<circ> snd) ls)" "distinct (s # map (snd \<circ> snd) ls)"
    and "sole_owners h s ls" "s < length (states h)"
  shows "(\<forall>b. content_at (State_release held s h) b =
        (if b \<in> set (broken_along held s ls) then StoredException (StdFutureError 4) else content_at h b))
    \<and> (\<forall>q. q \<notin> set (map fst ls) \<longrightarrow> promise_at (State_release held s h) q = promise_at h q)"
  using assms
proof (induction ls arbitrary: h s)
  case Nil
  then show ?case by (subst (1 2) State_release.simps) simp
next
  case (Cons l ls)
  obtain p b t where l: "l = (p, b, t)" by (metis prod_cases3)
  obtain k where k: "unique_continuation (states h ! s) = Some k" "captured k = p"
    using Cons.prems(1) by (auto simp: l)
  have own: "owns h p b t" and pending: "content_at h b = Pending" and rest: "waiting h t ls"
    using Cons.prems(1) by (simp_all add: l)
  then have p: "p < length (promises h)" "b < length (shared h)" "t < length (states h)"
      "extra_state (promise_at h p) = Some t" "delegate_promise (promise_at h p) = Some b"
    by (simp_all add: owns_def promise_at_def)
  have new: "p \<notin> set (map fst ls)" "b \<notin> set (map (fst \<circ> snd) ls)" "s \<noteq> t" "s \<notin> set (map (snd \<circ> snd) ls)"
    using Cons.prems(2-4) by (auto simp: l)
  show ?case
  proof (cases "s \<in> set held")
    case True
    then show ?thesis by (subst (1 2) State_release.simps) (simp add: l use_count_zero)
  next
    case False
    let ?G = "drop_state p (clear_state s h)"
    have release: "State_release held s h = Promise_dtor p (State_release held t ?G)"
      using Cons.prems(5,6) False p k
      by (subst State_release.simps) (auto simp: use_count_zero sole_owners_def)
    have "waiting ?G t ls"
    proof (rule waiting_frame [OF rest])
      show "\<forall>u \<in> set (t # map (snd \<circ> snd) ls). states ?G ! u = states h ! u"
        using new(3,4) by (metis clear_state_simps(7) drop_state_simps(1) set_ConsD)
      show "\<forall>q \<in> set (map fst ls). promise_at ?G q = promise_at h q"
        using new(1) by (metis clear_state_simps(5) drop_state_simps(6))
    qed simp_all
    moreover have "sole_owners ?G t ls"
      using sole_owners_next [OF Cons.prems(5) [unfolded l] p(1)] .
    ultimately have IH: "\<forall>c. content_at (State_release held t ?G) c =
          (if c \<in> set (broken_along held t ls) then StoredException (StdFutureError 4) else content_at ?G c)"
        "\<forall>q. q \<notin> set (map fst ls) \<longrightarrow> promise_at (State_release held t ?G) q = promise_at ?G q"
      using Cons.IH [of ?G t] Cons.prems(2-4) p(3) by (simp_all add: l)
    let ?X = "State_release held t ?G"
    have X: "delegate_promise (promise_at ?X p) = Some b" "b < length (shared ?X)" "content_at ?X b = Pending"
      using IH new(1,2) p pending broken_along_in [of b held t ls] by (auto simp: release_lengths)
    have "content_at (Promise_dtor p ?X) c =
        (if c \<in> set (broken_along held s (l # ls)) then StoredException (StdFutureError 4) else content_at h c)" for c
      using IH(1) False X(3) by (simp add: dtor_content [OF X(1,2)] l)
    moreover have "promise_at (Promise_dtor p ?X) q = promise_at h q" if "q \<notin> set (map fst (l # ls))" for q
      using IH(2) that by (simp add: l)
    ultimately show ?thesis by (simp only: release) simp
  qed
qed

lemma waiting_owns: "waiting h s ls \<Longrightarrow> (p, b, t) \<in> set ls \<Longrightarrow> owns h p b t \<and> content_at h b = Pending"
  by (induction h s ls rule: waiting.induct) auto

text \<open>
  A release and the destruction of a promise that has no \<open>State\<close> any more commute, so a future that is
  destroyed late gives the heap that it gives when it is destroyed early.
\<close>

lemma abandon_commute: "std_abandon d (std_abandon e h) = std_abandon e (std_abandon d h)"
proof (cases "d = e")
  case False
  show ?thesis
  proof (cases d)
    case d: (Some x)
    show ?thesis
    proof (cases e)
      case e: (Some y)
      with d False have "x \<noteq> y" by simp
      then show ?thesis by (simp add: d e std_abandon_def list_update_swap)
    qed (simp add: std_abandon_def)
  qed (simp add: std_abandon_def)
qed simp

lemma dtor_commute: "Promise_dtor p (Promise_dtor q h) = Promise_dtor q (Promise_dtor p h)"
proof (cases "p = q")
  case False
  have ab: "std_abandon d (set_promise r x g) = set_promise r x (std_abandon d g)" for d r x and g :: "('a, 'b) heap"
    by (simp add: std_abandon_def set_promise_def split: option.split)
  have at: "promise_at (std_abandon d g) r = promise_at g r" for d r and g :: "('a, 'b) heap"
    by (simp add: std_abandon_def promise_at_def split: option.split)
  have sw: "set_promise p x (set_promise q y g) = set_promise q y (set_promise p x g)" for x y and g :: "('a, 'b) heap"
    using False by (simp add: set_promise_def list_update_swap)
  have other: "promise_at (set_promise p x g) q = promise_at g q" "promise_at (set_promise q x g) p = promise_at g p"
    for x and g :: "('a, 'b) heap"
    using False by (simp_all add: set_promise_def promise_at_def)
  show ?thesis
    unfolding Promise_dtor_def ab at other by (subst sw) (simp only: abandon_commute)
qed simp

lemma dtor_no_state:
  assumes "extra_state (promise_at h p) = None" "p < length (promises h)"
  shows "use_count held (Promise_dtor p h) s = use_count held h s"
    "clear_state s (Promise_dtor p h) = Promise_dtor p (clear_state s h)"
    "q \<noteq> p \<Longrightarrow> drop_state q (Promise_dtor p h) = Promise_dtor p (drop_state q h)"
proof -
  have at: "promises (std_abandon d h) = promises h" "states (std_abandon d h) = states h" for d
    by (simp_all add: std_abandon_def split: option.split)
  have ps: "promises h = take p (promises h) @ promises h ! p # drop (Suc p) (promises h)"
    using assms(2) by (simp add: id_take_nth_drop)
  have "filter (\<lambda>P. extra_state P = Some s) ((promises h)[p := x]) = filter (\<lambda>P. extra_state P = Some s) (promises h)"
    if "extra_state x = None" for x
    using assms that by (subst (2) ps) (simp add: upd_conv_take_nth_drop promise_at_def)
  then show "use_count held (Promise_dtor p h) s = use_count held h s"
    by (simp add: use_count_def Promise_dtor_def set_promise_def at)
  show "clear_state s (Promise_dtor p h) = Promise_dtor p (clear_state s h)"
    by (auto simp: clear_state_def Promise_dtor_def set_promise_def std_abandon_def promise_at_def split: option.split)
  show "drop_state q (Promise_dtor p h) = Promise_dtor p (drop_state q h)" if "q \<noteq> p"
    using that by (auto simp: drop_state_def Promise_dtor_def set_promise_def std_abandon_def promise_at_def
        list_update_swap split: option.split)
qed

lemma release_dtor:
  "extra_state (promise_at h p) = None \<Longrightarrow> p < length (promises h) \<Longrightarrow>
   State_release held s (Promise_dtor p h) = Promise_dtor p (State_release held s h)"
proof (induction held s h rule: State_release.induct)
  case (1 held s h)
  note none = dtor_no_state [OF 1(2,3)]
  have same: "extra_state (promise_at (Promise_dtor p h) q) = extra_state (promise_at h q)" for q
    using 1(2,3) by (cases "q = p") (simp_all add: Promise_dtor_def set_promise_def promise_at_def)
  show ?case
  proof (cases "s < length (states h) \<and> use_count held h s = 0")
    case False
    then show ?thesis by (subst (1 2) State_release.simps) (auto simp: none)
  next
    case here: True
    show ?thesis
    proof (cases "unique_continuation (states h ! s)")
      case None
      with here show ?thesis by (subst (1 2) State_release.simps) (simp add: none)
    next
      case k: (Some k)
      show ?thesis
      proof (cases "extra_state (promise_at h (captured k))")
        case None
        with here k show ?thesis
          by (subst (1 2) State_release.simps) (simp add: none same dtor_commute [of p])
      next
        case t: (Some t)
        with 1(2) have q: "captured k \<noteq> p" by auto
        let ?G = "drop_state (captured k) (clear_state s h)"
        have "State_release held t (Promise_dtor p ?G) = Promise_dtor p (State_release held t ?G)"
          using 1(1) [OF here k t] 1(2,3) q by simp
        moreover have "drop_state (captured k) (Promise_dtor p (clear_state s h)) = Promise_dtor p ?G"
          using dtor_no_state(3) [of "clear_state s h" p] 1(2,3) q by simp
        ultimately show ?thesis
          using here k t
          by (subst (1 2) State_release.simps) (simp add: none same dtor_commute [of p "captured k"])
      qed
    qed
  qed
qed

lemma release_later:
  assumes "waiting h s ls" "distinct (map fst ls)" "distinct (map (fst \<circ> snd) ls)" "distinct (s # map (snd \<circ> snd) ls)"
    and "sole_owners h s ls" "s < length (states h)" "t \<in> set held" "t \<in> set (s # map (snd \<circ> snd) ls)"
  shows "State_release (remove1 t held) t (State_release held s h) = State_release (remove1 t held) s h"
  using assms
proof (induction ls arbitrary: h s)
  case Nil
  then show ?case by (subst (2) State_release.simps) (simp add: use_count_zero)
next
  case (Cons l ls)
  obtain p b u where l: "l = (p, b, u)" by (metis prod_cases3)
  obtain k where k: "unique_continuation (states h ! s) = Some k" "captured k = p"
    using Cons.prems(1) by (auto simp: l)
  have own: "owns h p b u" and rest: "waiting h u ls" using Cons.prems(1) by (simp_all add: l)
  then have p: "p < length (promises h)" "u < length (states h)" "extra_state (promise_at h p) = Some u"
    by (simp_all add: owns_def promise_at_def)
  have new: "p \<notin> set (map fst ls)" "s \<noteq> u" "s \<notin> set (map (snd \<circ> snd) ls)"
    using Cons.prems(2-4) by (auto simp: l)
  show ?case
  proof (cases "s \<in> set held")
    case True
    then have here: "State_release held s h = h" by (subst State_release.simps) (simp add: use_count_zero)
    show ?thesis
    proof (cases "t = s")
      case False
      then have "t \<in> (snd \<circ> snd) ` set (l # ls)" using Cons.prems(8) by simp
      then obtain q c where "(q, c, t) \<in> set (l # ls)" by (force simp: image_iff)
      then have "owns h q c t" using waiting_owns [OF Cons.prems(1)] by blast
      then have "q < length (promises h) \<and> extra_state (promise_at h q) = Some t"
        by (simp add: owns_def promise_at_def)
      then have "State_release (remove1 t held) t h = h"
        by (subst State_release.simps) (auto simp: use_count_zero)
      moreover have "State_release (remove1 t held) s h = h"
        using True False by (subst State_release.simps) (simp add: use_count_zero in_set_remove1)
      ultimately show ?thesis by (simp add: here)
    qed (simp add: here)
  next
    case False
    let ?G = "drop_state p (clear_state s h)" and ?X = "State_release held u (drop_state p (clear_state s h))"
    have release: "State_release hs s h = Promise_dtor p (State_release hs u ?G)" if "s \<notin> set hs" for hs
      using Cons.prems(5,6) that p k
      by (subst State_release.simps) (auto simp: use_count_zero sole_owners_def)
    have wait: "waiting ?G u ls"
    proof (rule waiting_frame [OF rest])
      show "\<forall>v \<in> set (u # map (snd \<circ> snd) ls). states ?G ! v = states h ! v"
        using new(2,3) by (metis clear_state_simps(7) drop_state_simps(1) set_ConsD)
      show "\<forall>q \<in> set (map fst ls). promise_at ?G q = promise_at h q"
        using new(1) by (metis clear_state_simps(5) drop_state_simps(6))
    qed simp_all
    have sole: "sole_owners ?G u ls"
      using sole_owners_next [OF Cons.prems(5) [unfolded l] p(1)] .
    have dist: "distinct (map fst ls)" "distinct (map (fst \<circ> snd) ls)" "distinct (u # map (snd \<circ> snd) ls)"
      using Cons.prems(2-4) by (simp_all add: l comp_def)
    have t: "t \<in> set (u # map (snd \<circ> snd) ls)" "s \<notin> set (remove1 t held)"
      using Cons.prems(7,8) False notin_set_remove1 by (auto simp: l)
    have "promise_at ?X p = promise_at ?G p"
      using release_along [OF wait dist sole] p(2) new(1) by simp
    then have "extra_state (promise_at ?X p) = None" "p < length (promises ?X)"
      using p(1) by (simp_all add: release_lengths)
    from release_dtor [OF this] Cons.IH [OF wait dist sole _ Cons.prems(7) t(1)] p(2) show ?thesis
      by (simp add: release False t(2))
  qed
qed

section \<open>A promise that breaks\<close>

lemma one_owner:
  assumes ok: "heap_ok h" and i: "i < length (promises h)" "extra_state (promise_at h i) = Some t"
    and j: "j < length (promises h)" "extra_state (promise_at h j) = Some t"
  shows "i = j"
  using ok i j unfolding heap_ok_def unshared_def by (fastforce simp: links_nth)

lemma sole_owners_start:
  assumes ok: "heap_ok h" and own: "owns h p a s" and wait: "waiting h s ls"
  shows "sole_owners (drop_state p h) s ls"
  unfolding sole_owners_def
proof (intro allI impI conjI ballI)
  fix q assume "q < length (promises (drop_state p h))"
  then have q: "q < length (promises h)" by simp
  have p: "p < length (promises h)" "extra_state (promise_at h p) = Some s"
    using own by (simp_all add: owns_def promise_at_def)
  have G: "extra_state (promise_at (drop_state p h) q) = (if q = p then None else extra_state (promise_at h q))"
    using p(1) by simp
  show "extra_state (promise_at (drop_state p h) q) \<noteq> Some s"
    using one_owner [OF ok q _ p] unfolding G by auto
  fix l assume l: "l \<in> set ls"
  obtain p' b' t' where l': "l = (p', b', t')" by (metis prod_cases3)
  have "p' < length (promises h)" "extra_state (promise_at h p') = Some t'"
    using waiting_owns [OF wait l [unfolded l']] by (simp_all add: owns_def promise_at_def)
  from one_owner [OF ok q _ this] show "case l of (p', b', t') \<Rightarrow>
      extra_state (promise_at (drop_state p h) q) = Some t' \<longrightarrow> q = p'"
    unfolding G l' by auto
qed

lemma destroy_along:
  assumes ok: "heap_ok h" and own: "owns h p a s" and wait: "waiting h s ls" and sep: "apart p a s ls"
  shows "content_at (Promise_destroy held p h) b =
      (if b = a \<and> content_at h a = Pending \<or> b \<in> set (broken_along held s ls) then StoredException (StdFutureError 4) else content_at h b)"
proof -
  have p: "p < length (promises h)" "a < length (shared h)" "s < length (states h)"
      "extra_state (promise_at h p) = Some s" "delegate_promise (promise_at h p) = Some a"
    using own by (simp_all add: owns_def promise_at_def)
  have new: "p \<notin> set (map fst ls)" "a \<notin> set (map (fst \<circ> snd) ls)" using sep by (simp_all add: apart_def)
  have dist: "distinct (map fst ls)" "distinct (map (fst \<circ> snd) ls)" "distinct (s # map (snd \<circ> snd) ls)"
    using sep by (simp_all add: apart_def)
  have wait': "waiting (drop_state p h) s ls"
  proof (rule waiting_frame [OF wait])
    show "\<forall>q \<in> set (map fst ls). promise_at (drop_state p h) q = promise_at h q"
      using new(1) by (metis drop_state_simps(6))
  qed simp_all
  note sole = sole_owners_start [OF ok own wait]
  let ?X = "State_release held s (drop_state p h)"
  note release = release_along [OF wait' dist sole, of held] p(3)
  have X: "delegate_promise (promise_at ?X p) = Some a" "a < length (shared ?X)" "content_at ?X a = content_at h a"
    using release new p broken_along_in [of a held s ls] by (auto simp: release_lengths)
  have "content_at ?X b = (if b \<in> set (broken_along held s ls) then StoredException (StdFutureError 4) else content_at h b)"
    using release by simp
  then show ?thesis using X(3) by (auto simp: Promise_destroy_def p(4) dtor_content [OF X(1,2)])
qed

lemma destroy_later:
  assumes ok: "heap_ok h" and own: "owns h p a s" and wait: "waiting h s ls" and sep: "apart p a s ls"
    and t: "t \<in> set held" "t \<in> set (s # map (snd \<circ> snd) ls)"
  shows "State_release (remove1 t held) t (Promise_destroy held p h) = Promise_destroy (remove1 t held) p h"
    "State_release (remove1 t held) t h = h"
proof -
  have p: "p < length (promises h)" "s < length (states h)" "extra_state (promise_at h p) = Some s"
    using own by (simp_all add: owns_def promise_at_def)
  have new: "p \<notin> set (map fst ls)" using sep by (simp add: apart_def)
  have dist: "distinct (map fst ls)" "distinct (map (fst \<circ> snd) ls)" "distinct (s # map (snd \<circ> snd) ls)"
    using sep by (simp_all add: apart_def)
  have wait': "waiting (drop_state p h) s ls"
  proof (rule waiting_frame [OF wait])
    show "\<forall>q \<in> set (map fst ls). promise_at (drop_state p h) q = promise_at h q"
      using new by (metis drop_state_simps(6))
  qed simp_all
  note sole = sole_owners_start [OF ok own wait]
  let ?X = "State_release held s (drop_state p h)"
  have "promise_at ?X p = promise_at (drop_state p h) p"
    using release_along [OF wait' dist sole] p(2) new by simp
  then have "extra_state (promise_at ?X p) = None" "p < length (promises ?X)"
    using p(1) by (simp_all add: release_lengths)
  from release_dtor [OF this] release_later [OF wait' dist sole _ t] p(2)
  show "State_release (remove1 t held) t (Promise_destroy held p h) = Promise_destroy (remove1 t held) p h"
    by (simp add: Promise_destroy_def p(3))
  obtain q where "q < length (promises h)" "extra_state (promise_at h q) = Some t"
  proof (cases "t = s")
    case False
    with t(2) have "t \<in> (snd \<circ> snd) ` set ls" by simp
    then obtain q c where "(q, c, t) \<in> set ls" by (force simp: image_iff)
    then have "owns h q c t" using waiting_owns [OF wait] by blast
    then have "q < length (promises h)" "extra_state (promise_at h q) = Some t"
      by (simp_all add: owns_def promise_at_def)
    then show ?thesis by (rule that)
  qed (use p that in simp)
  then show "State_release (remove1 t held) t h = h"
    by (subst State_release.simps) (auto simp: use_count_zero)
qed

lemma assign_content:
  assumes own: "owns h p a s" and pending: "content_at h a = Pending"
    and other: "other < length (promises h)" "\<not> mutex_held (promise_at h other)" "other \<noteq> p"
  defines "h' \<equiv> snd (Promise_move_assign p other h)"
  shows "fst (Promise_move_assign p other h) = Ret ()" "states h' = states h"
    "length (promises h') = length (promises h)" "length (shared h') = length (shared h)"
    "content_at h' b = (if b = a then StoredException (StdFutureError 4) else content_at h b)"
    "q \<noteq> p \<Longrightarrow> q \<noteq> other \<Longrightarrow> promise_at h' q = promise_at h q"
    "extra_state (promise_at h' p) = extra_state (promise_at h other)" "extra_state (promise_at h' other) = None"
  using assms
  by (auto simp: Promise_move_assign_def with_locks_def std_abandon_def owns_def promise_at_def set_promise_def
      content_at_def future_errc_defs nth_list_update Let_def)

lemma assign_along:
  assumes ok: "heap_ok h" and own: "owns h p a s" and wait: "waiting h s ls" and sep: "apart p a s ls"
    and pending: "content_at h a = Pending"
    and other: "other < length (promises h)" "\<not> mutex_held (promise_at h other)" "other \<notin> set (p # map fst ls)"
  shows "fst (Promise_assign_release held p other h) = Ret ()"
    "content_at (snd (Promise_assign_release held p other h)) b = content_at (Promise_destroy held p h) b"
proof -
  have p: "p < length (promises h)" "s < length (states h)" "extra_state (promise_at h p) = Some s"
    using own by (simp_all add: owns_def promise_at_def)
  have "other \<noteq> p" using other(3) by simp
  note assign = assign_content [OF own pending other(1,2) this]
  let ?h = "snd (Promise_move_assign p other h)"
  have "waiting ?h s ls"
  proof (rule waiting_frame [OF wait])
    show "\<forall>q \<in> set (map fst ls). promise_at ?h q = promise_at h q"
      using sep other(3) by (intro ballI assign(6)) (auto simp: apart_def)
    show "\<forall>c \<in> set (map (fst \<circ> snd) ls). content_at ?h c = content_at h c"
      using sep by (auto simp: assign(5) apart_def)
  qed (simp_all add: assign(2-4))
  moreover have "sole_owners ?h s ls"
    unfolding sole_owners_def
  proof (intro allI impI conjI ballI)
    fix q assume "q < length (promises ?h)"
    then have q: "q < length (promises h)" by (simp add: assign(3))
    have "\<exists>r. r < length (promises h) \<and> extra_state (promise_at h r) = Some t \<and> (r \<noteq> q \<longrightarrow> r = other) \<and> r \<noteq> p"
      if "extra_state (promise_at ?h q) = Some t" for t
      using that q other assign(6-8) by (cases "q = p"; cases "q = other") auto
    note from_h = this
    show "extra_state (promise_at ?h q) \<noteq> Some s"
      using from_h one_owner [OF ok p(1,3)] by metis
    fix l assume l: "l \<in> set ls"
    obtain p' b' t' where l': "l = (p', b', t')" by (metis prod_cases3)
    have "p' < length (promises h)" "extra_state (promise_at h p') = Some t'" "p' \<noteq> other"
      using waiting_owns [OF wait l [unfolded l']] other(3) l l' by (force simp: owns_def promise_at_def)+
    then show "case l of (p', b', t') \<Rightarrow> extra_state (promise_at ?h q) = Some t' \<longrightarrow> q = p'"
      using from_h one_owner [OF ok] unfolding l' by (metis (mono_tags, lifting) case_prod_conv)
  qed
  ultimately have "content_at (State_release held s ?h) b =
      (if b \<in> set (broken_along held s ls) then StoredException (StdFutureError 4) else content_at ?h b)"
    using release_along [of ?h s ls held] sep p(2) by (simp add: apart_def assign(2))
  then show "content_at (snd (Promise_assign_release held p other h)) b = content_at (Promise_destroy held p h) b"
    using destroy_along [OF ok own wait sep] other(3) assign(1) p(3)
    by (auto simp: Promise_assign_release_def split_def assign(5) pending)
  show "fst (Promise_assign_release held p other h) = Ret ()"
    using assign(1) by (simp add: Promise_assign_release_def split_def Let_def)
qed

lemma broken_all:
  "set held \<inter> set (butlast (s # map (snd \<circ> snd) ls)) = {} \<Longrightarrow> broken_along held s ls = map (fst \<circ> snd) ls"
  by (induction held s ls rule: broken_along.induct) (auto split: if_splits)

text \<open>
  C8. A promise that is destroyed unsettled breaks its own future and every future that waits for
  it through continuations, of whatever length the chain is: destroying the last reference to a
  \<open>State\<close> destroys the closure in it and the promise this captures. The chain ends at the first
  \<open>State\<close> that a living future still refers to; the futures beyond it stay pending and
  \<open>GetResult\<close> on them blocks. Destroying a living future of any \<open>State\<close> of the chain changes nothing
  while the promise is alive, and after the promise it gives the heap that destroying it before the
  promise gives: at the \<open>State\<close> where the chain ended it goes on from there. Assigning
  another promise to the promise has the effect of its destruction. No other shared state changes,
  and the heap stays well-formed.
\<close>

theorem broken_promise_propagates:
  assumes ok: "heap_ok h" and own: "owns h p a s" and pending: "content_at h a = Pending"
    and wait: "waiting h s ls" and sep: "apart p a s ls"
  shows "heap_ok (Promise_destroy held p h)
    \<and> (\<forall>b. content_at (Promise_destroy held p h) b =
        (if b = a \<or> b \<in> set (broken_along held s ls) then StoredException (StdFutureError 4) else content_at h b))
    \<and> (\<forall>b \<in> set (map (fst \<circ> snd) ls). fst (Future_GetResult (Future_ctor (Some b) u) (Promise_destroy held p h)) =
        (if b \<in> set (broken_along held s ls) then Ret (HasE (MakeErrorCode_future broken_promise 0)) else Blocks))
    \<and> (set held \<inter> set (butlast (s # map (snd \<circ> snd) ls)) = {} \<longrightarrow> broken_along held s ls = map (fst \<circ> snd) ls)
    \<and> (s \<in> set held \<longrightarrow> broken_along held s ls = [])
    \<and> (\<forall>t \<in> set (s # map (snd \<circ> snd) ls). t \<in> set held \<and> extra_state_of F = Some t \<longrightarrow>
        Future_destroy held F h = (remove1 t held, h)
        \<and> Future_destroy held F (Promise_destroy held p h) =
            (remove1 t held, Promise_destroy (remove1 t held) p h))
    \<and> (other < length (promises h) \<and> \<not> mutex_held (promise_at h other) \<and> other \<notin> set (p # map fst ls) \<longrightarrow>
        fst (Promise_assign_release held p other h) = Ret ()
        \<and> (\<forall>b. content_at (snd (Promise_assign_release held p other h)) b = content_at (Promise_destroy held p h) b))"
proof (intro conjI ballI impI)
  note along = destroy_along [OF ok own wait sep]
  show "heap_ok (Promise_destroy held p h)" by (rule destroy_ok [OF ok])
  show contents: "\<forall>b. content_at (Promise_destroy held p h) b =
      (if b = a \<or> b \<in> set (broken_along held s ls) then StoredException (StdFutureError 4) else content_at h b)"
    using along pending by simp
  show "fst (Future_GetResult (Future_ctor (Some b) u) (Promise_destroy held p h)) =
      (if b \<in> set (broken_along held s ls) then Ret (HasE (MakeErrorCode_future broken_promise 0)) else Blocks)"
    if "b \<in> set (map (fst \<circ> snd) ls)" for b
  proof -
    have "b \<noteq> a" "content_at h b = Pending"
      using that sep waiting_owns [OF wait] by (auto simp: apart_def)
    then show ?thesis by (simp add: GetResult_eq Future_ctor_def contents std_errc_def future_errc_defs)
  qed
  show "broken_along held s ls = map (fst \<circ> snd) ls" if "set held \<inter> set (butlast (s # map (snd \<circ> snd) ls)) = {}"
    using that by (rule broken_all)
  assume other: "other < length (promises h) \<and> \<not> mutex_held (promise_at h other) \<and> other \<notin> set (p # map fst ls)"
  then show "fst (Promise_assign_release held p other h) = Ret ()"
    "\<forall>b. content_at (snd (Promise_assign_release held p other h)) b = content_at (Promise_destroy held p h) b"
    using assign_along [OF ok own wait sep pending, of other] by blast+
next
  show "broken_along held s ls = []" if "s \<in> set held" using that by (cases ls) auto
next
  fix t assume t: "t \<in> set (s # map (snd \<circ> snd) ls)" "t \<in> set held \<and> extra_state_of F = Some t"
  note later = destroy_later [OF ok own wait sep _ t(1), of held]
  show "Future_destroy held F h = (remove1 t held, h)"
    "Future_destroy held F (Promise_destroy held p h) = (remove1 t held, Promise_destroy (remove1 t held) p h)"
    using t(2) later by (simp_all add: Future_destroy_def)
qed

text \<open>A promise with two continuations in a row; the future at the end is alive.\<close>

definition two_waiting :: "(int, int) heap" where
  "two_waiting =
     \<lparr>shared = replicate 3 \<lparr>content = Pending, retrieved = True\<rparr>,
      states = [\<lparr>unique_continuation = Some (Continuation KValue False 7 1), delegate_future = Some 0\<rparr>,
                \<lparr>unique_continuation = Some (InnerContinuation False False 2), delegate_future = Some 1\<rparr>,
                \<lparr>unique_continuation = None, delegate_future = None\<rparr>],
      promises = map (\<lambda>i. \<lparr>delegate_promise = Some i, extra_state = Some i, mutex_held = False\<rparr>) [0, 1, 2]\<rparr>"

lemma two_waiting_facts:
  "heap_ok two_waiting" "owns two_waiting 0 0 0" "content_at two_waiting 0 = Pending"
  "waiting two_waiting 0 [(1, 1, 1), (2, 2, 2)]" "apart 0 0 0 [(1, 1, 1), (2, 2, 2)]"
proof -
  show "heap_ok two_waiting"
    by (auto simp: two_waiting_def heap_ok_def links_def continuations_def linked_def unshared_def less_Suc_eq numeral_eq_Suc)
qed (simp_all add: two_waiting_def owns_def content_at_def apart_def numeral_eq_Suc)

theorem broken_promise_propagates_witness:
  "fst (Future_GetResult (Future_ctor (Some 2) (Some 2)) (Promise_destroy [2] 0 two_waiting)) =
     Ret (HasE (MakeErrorCode_future broken_promise 0))
   \<and> fst (Future_GetResult (Future_ctor (Some 2) (Some 2)) (Promise_destroy [1, 2] 0 two_waiting)) = Blocks
   \<and> Future_destroy [1, 2] (Future_ctor None (Some 1)) (Promise_destroy [1, 2] 0 two_waiting) =
       ([2], Promise_destroy [2] 0 two_waiting)"
  using broken_promise_propagates [OF two_waiting_facts, where held = "[2]" and u = "Some 2"]
    broken_promise_propagates [OF two_waiting_facts, where held = "[1, 2]" and u = "Some 2"
      and F = "Future_ctor None (Some 1)"]
  by (simp add: Future_ctor_def)

section \<open>then keeps the State alive\<close>

text \<open>
  \<open>SetContinuation\<close> moves only the standard future out of the future \<open>then\<close> is called on, which
  keeps its reference to the \<open>State\<close>: as long as that future, which is invalid now, is alive, a
  promise that is destroyed leaves the next future pending and \<open>GetResult\<close> on it blocks. When
  the future is destroyed, before or after, the next future gets \<open>broken_promise\<close>.
\<close>

theorem then_keeps_state:
  fixes h :: "('v, 'f) heap" and cbs :: "('v, 'f) callables"
  assumes ok: "heap_ok h" and own: "owns h p a s" and pending: "content_at h a = Pending"
    and quiet: "unique_continuation (states h ! s) = None" and held: "s \<notin> set held"
  defines "F \<equiv> Future_ctor (Some a) (Some s)"
  shows "\<exists>left h1. Future_then cbs fire k f F h = (Ret (next_future h, left), h1)
    \<and> \<not> Future_valid left \<and> extra_state_of left = Some s
    \<and> fst (Future_GetResult (next_future h) (Promise_destroy (s # held) p h1)) = Blocks
    \<and> fst (Future_GetResult (next_future h) (Promise_destroy held p h1)) =
        Ret (HasE (MakeErrorCode_future broken_promise 0))
    \<and> fst (Future_GetResult (next_future h) (snd (Future_destroy (s # held) left (Promise_destroy (s # held) p h1)))) =
        Ret (HasE (MakeErrorCode_future broken_promise 0))"
proof -
  have dom: "a < length (shared h)" "s < length (states h)" "p < length (promises h)"
    using own by (simp_all add: owns_def)
  have F: "F = \<lparr>delegate_future_of = Some a, extra_state_of = Some s\<rparr>" by (simp add: F_def Future_ctor_def)
  let ?k = "Continuation k False f (next_promise h)" and ?b = "length (shared h)" and ?t = "length (states h)"
  let ?h1 = "attach s ?k (Some a) (spawn h)" and ?left = "F\<lparr>delegate_future_of := None\<rparr>"
  let ?ls = "[(next_promise h, ?b, ?t)]"
  have thn: "Future_then cbs fire k f F h = (Ret (next_future h, ?left), ?h1)"
    unfolding then_overloads then_generic_eq [OF F dom(1,2)] using pending by simp
  have ok1: "heap_ok ?h1"
    using results.spawn_respects [OF ok] by (intro heap_ok_attach) (simp_all add: spawn_simps next_promise_def)
  have own1: "owns ?h1 p a s" and pend1: "content_at ?h1 a = Pending" "content_at ?h1 ?b = Pending"
    using own pending dom by (simp_all add: spawn_simps)
  have next1: "owns ?h1 (next_promise h) ?b ?t"
    by (simp add: owns_def spawn_def next_promise_def nth_append attach_def)
  have "waiting ?h1 s ?ls"
    using next1 pend1(2) dom by (simp add: attach_def spawn_def nth_append)
  moreover have "apart p a s ?ls" using dom by (simp add: apart_def next_promise_def)
  ultimately have along: "content_at (Promise_destroy hs p ?h1) ?b =
        (if s \<in> set hs then Pending else StoredException (StdFutureError 4))"
      "s \<in> set hs \<Longrightarrow> State_release (remove1 s hs) s (Promise_destroy hs p ?h1) = Promise_destroy (remove1 s hs) p ?h1" for hs
    using destroy_along [OF ok1 own1, of ?ls hs ?b] destroy_later(1) [OF ok1 own1, of ?ls s hs]
      dom pend1(2) by simp_all
  show ?thesis
    using thn along(1) [of "s # held"] along(1) [of held] along(2) [of "s # held"] held
    by (intro exI [of _ ?left] exI [of _ ?h1])
      (simp add: GetResult_eq next_future_def Future_destroy_def F Future_valid_def std_errc_def future_errc_defs)
qed

theorem then_keeps_state_witness:
  "\<exists>h1 :: (int, int) heap. fst (Future_GetResult (next_future fresh_heap) (Promise_destroy [0, 1] 0 h1)) = Blocks
      \<and> fst (Future_GetResult (next_future fresh_heap) (Promise_destroy [1] 0 h1)) =
          Ret (HasE (MakeErrorCode_future broken_promise 0))"
proof -
  have "heap_ok fresh_heap" "unique_continuation (states fresh_heap ! 0) = None" "(0 :: addr) \<notin> set [1]"
    by (auto simp: fresh_heap_eq heap_ok_def links_def continuations_def linked_def unshared_def)
  from then_keeps_state [OF this(1) fresh_facts(1,2) this(2,3), where cbs = add_callables
      and fire = "fire_within add_callables 1" and k = KValue and f = 7] show ?thesis by auto
qed

end
