(* ===== verification/Promise_Copies.thy ===== *)
theory Promise_Copies
  imports Future_Correct Element_Types
begin

text \<open>
  The setters of \<open>Promise\<close> and \<open>GetResult\<close> with the \<open>Result\<close> objects they build, copy and move.
  The theories \<open>Promise\<close> and \<open>Future\<close> pass the abstract value of a result on; here the operations of
  the value type are an argument and may throw. For lawful value types both agree; the last
  section says what an exception of a copy or a move leads to. An error code is copied bit by
  bit (\<open>scalar_ops\<close>).
\<close>

section \<open>Results and their abstract values\<close>

definition lift_res :: "('v, ErrorCode) rslt \<Rightarrow> 'v res" where
  "lift_res = map_rslt Val (\<lambda>e. e)"

text \<open>A shared state of a \<open>Future<T>\<close> never holds \<open>Void\<close>.\<close>

fun lower_res :: "'v res \<Rightarrow> ('v, ErrorCode) rslt option" where
  "lower_res (HasV (Val v)) = Some (HasV v)"
| "lower_res (HasV Void) = None"
| "lower_res (HasE e) = Some (HasE e)"
| "lower_res Empty = Some Empty"

lemma lift_res_simps [simp]:
  "lift_res (HasV v) = HasV (Val v)" "lift_res (HasE e) = HasE e" "lift_res Empty = Empty"
  by (simp_all add: lift_res_def)

lemma lower_lift [simp]: "lower_res (lift_res a) = Some a"
  by (cases a) simp_all

section \<open>The setters\<close>

text \<open>
  \<open>std::promise::set_value(R const&)\<close>: the copy is made inside the shared state, after the tests
  for a state and for an earlier result.
\<close>

definition std_set_copy ::
  "addr option \<Rightarrow> (cxx_exn, ('v, ErrorCode) Result) outcome \<Rightarrow> ('v, 'f, unit) proc" where
  "std_set_copy pr copy h =
     (case pr of
        None \<Rightarrow> (Throws (StdFutureError future_errc_no_state), h)
      | Some a \<Rightarrow>
          if content (shared h ! a) \<noteq> Pending
          then (Throws (StdFutureError future_errc_already_satisfied), h)
          else pbind (pfail copy)
            (\<lambda>r h. (Ret (), h\<lparr>shared := (shared h)[a := (shared h ! a)\<lparr>content := Stored (lift_res (Result_abs r))\<rparr>]\<rparr>)) h)"

text \<open>The common end of the setters: \<open>r\<close> is an lvalue, so it is copied once more.\<close>

definition store_and_fire ::
  "(cxx_exn, unit, 'v) elem_ops \<Rightarrow> ('v, 'f) fire \<Rightarrow> addr \<Rightarrow> ('v, ErrorCode) Result \<Rightarrow> ('v, 'f, unit) proc" where
  "store_and_fire vops fire this r h =
     pbind (std_set_copy (delegate_promise (promise_at h this)) (Result_copy_ctor vops scalar_ops r))
       (\<lambda>_ h. fire (extra_state (promise_at h this)) h) h"

definition Promise_set_value_lvalue_obj ::
  "(cxx_exn, unit, 'v) elem_ops \<Rightarrow> ('v, 'f) fire \<Rightarrow> addr \<Rightarrow> 'v \<Rightarrow> ('v, 'f, unit) proc" where
  "Promise_set_value_lvalue_obj vops fire this value =
     pbind (pfail (Result_of_value_lvalue vops scalar_ops value))
       (\<lambda>r. with_lock this (store_and_fire vops fire this r))"

text \<open>The second component is what the argument holds afterwards.\<close>

definition Promise_set_value_rvalue_obj ::
  "(cxx_exn, unit, 'v) elem_ops \<Rightarrow> ('v, 'f) fire \<Rightarrow> addr \<Rightarrow> 'v \<Rightarrow> ('v, 'f) heap \<Rightarrow>
   ((cxx_exn, unit) outcome \<times> ('v, 'f) heap) \<times> 'v" where
  "Promise_set_value_rvalue_obj vops fire this value h =
     (case Result_of_value_rvalue vops scalar_ops value of
        Ret (r, value') \<Rightarrow> (with_lock this (store_and_fire vops fire this r) h, value')
      | other \<Rightarrow> ((obind other (\<lambda>_. Ret ()), h), value))"

definition Promise_SetError_lvalue_obj ::
  "(cxx_exn, unit, 'v) elem_ops \<Rightarrow> ('v, 'f) fire \<Rightarrow> addr \<Rightarrow> ErrorCode \<Rightarrow> ('v, 'f, unit) proc" where
  "Promise_SetError_lvalue_obj vops fire this err =
     with_lock this
       (pbind (pfail (FromError_lvalue vops scalar_ops err)) (store_and_fire vops fire this))"

definition Promise_SetError_rvalue_obj ::
  "(cxx_exn, unit, 'v) elem_ops \<Rightarrow> ('v, 'f) fire \<Rightarrow> addr \<Rightarrow> ErrorCode \<Rightarrow> ('v, 'f, unit) proc" where
  "Promise_SetError_rvalue_obj vops fire this err =
     with_lock this
       (pbind (pfail (FromError_rvalue vops scalar_ops err)) (\<lambda>(r, _). store_and_fire vops fire this r))"

section \<open>GetResult\<close>

text \<open>\<open>std::future::get\<close> moves the result out of the shared state.\<close>

definition std_get_obj ::
  "(cxx_exn, unit, 'v) elem_ops \<Rightarrow> std_future \<Rightarrow> ('v, 'f) heap \<Rightarrow>
   (cxx_exn, ('v, ErrorCode) Result) outcome \<times> std_future" where
  "std_get_obj vops fut h =
     (let (r, df) = std_get fut h
      in (obind r (\<lambda>a. case lower_res a of
            Some b \<Rightarrow> obind (Result_move_ctor vops scalar_ops (Result_rep b)) (\<lambda>(n, _). Ret n)
          | None \<Rightarrow> Undefined), df))"

definition Future_GetResult_obj ::
  "(cxx_exn, unit, 'v) elem_ops \<Rightarrow> Future \<Rightarrow> ('v, 'f) heap \<Rightarrow>
   (cxx_exn, ('v, ErrorCode) Result) outcome \<times> Future" where
  "Future_GetResult_obj vops this h =
     (let (r, df) = std_get_obj vops (delegate_future_of this) h;
          FromError = (\<lambda>err. FromError_args vops scalar_ops (Ret err))
      in (noexcept
            (case r of
               Throws ex \<Rightarrow>
                 (case ex of
                    StdFutureError ec \<Rightarrow>
                      if ec = future_errc_broken_promise
                      then FromError (MakeErrorCode_future broken_promise 0)
                      else if ec = future_errc_already_retrieved
                      then FromError (MakeErrorCode_future future_already_retrieved 0)
                      else if ec = future_errc_already_satisfied
                      then FromError (MakeErrorCode_future promise_already_satisfied 0)
                      else if ec = future_errc_no_state
                      then FromError (MakeErrorCode_future no_state 0)
                      else FromError (MakeErrorCode_core kInvalidArgument 0)
                  | AraException _ \<Rightarrow> FromError (MakeErrorCode_future broken_promise 0)
                  | StdException _ \<Rightarrow> FromError (MakeErrorCode_future broken_promise 0)
                  | NonStdException \<Rightarrow> Throws ex)
             | other \<Rightarrow> other),
          this\<lparr>delegate_future_of := df\<rparr>))"

section \<open>Lawful value types\<close>

lemma std_set_copy_eq:
  "std_set_copy pr (Ret (Result_rep a)) h = std_set pr (Stored (lift_res a)) h"
  by (simp add: std_set_copy_def std_set_def pbind_def pfail_def split: option.split)

lemma regular_result: "regular_elems vops mv \<Longrightarrow> result_elems vops mv scalar_ops (\<lambda>e. e)"
  by (simp add: result_elems_def scalar.regular_elems_axioms)

lemma store_and_fire_settle:
  assumes "regular_elems (vops :: (cxx_exn, unit, 'v) elem_ops) mv"
  shows "with_lock p (store_and_fire vops fire p (Result_rep a)) h = settle fire p (Stored (lift_res a)) h"
proof -
  have "Result_copy_ctor vops scalar_ops (Result_rep a) = Ret (Result_rep a)"
    using result_elems.copy_ctor_Result [OF regular_result [OF assms], of "Result_rep a"] by simp
  then have "store_and_fire vops fire p (Result_rep a) =
      (\<lambda>h. pbind (std_set (delegate_promise (promise_at h p)) (Stored (lift_res a)))
         (\<lambda>_ h. fire (extra_state (promise_at h p)) h) h)"
    by (simp add: fun_eq_iff store_and_fire_def std_set_copy_eq [abs_def] pbind_def)
  then show ?thesis by (simp add: settle_def)
qed

lemma pbind_pfail_Ret [simp]: "pbind (pfail (Ret r)) k = k r"
  by (simp add: fun_eq_iff pbind_def pfail_def)

lemma lower_get:
  assumes "regular_elems (vops :: (cxx_exn, unit, 'v) elem_ops) mv"
  shows "obind r (\<lambda>a. case lower_res a of
      Some b \<Rightarrow> obind (Result_move_ctor vops scalar_ops (Result_rep b)) (\<lambda>(n, _). Ret n) | None \<Rightarrow> Undefined) =
    obind r (\<lambda>a. case lower_res a of Some b \<Rightarrow> Ret (Result_rep b) | None \<Rightarrow> Undefined)"
  by (cases r) (auto simp: result_elems.move_ctor_Result [OF regular_result [OF assms]] split: option.split)

text \<open>
  C20. For value types that keep their contract the setters of \<open>Promise\<close> and \<open>GetResult\<close>, with
  the results they build, copy and move, do what the members on abstract values do; the
  argument of \<open>set_value(T&&)\<close> is moved from, on every path behind the construction.
\<close>

theorem Promise_copies_refine:
  fixes h :: "('v, 'f) heap"
  assumes vops: "regular_elems vops mv"
  shows "Promise_set_value_lvalue_obj vops fire p v h = Promise_set_value_lvalue fire p (Val v) h
    \<and> Promise_set_value_rvalue_obj vops fire p v h = (Promise_set_value_rvalue fire p (Val v) h, mv v)
    \<and> Promise_SetError_lvalue_obj vops fire p e h = Promise_SetError_lvalue fire p e h
    \<and> Promise_SetError_rvalue_obj vops fire p e h = Promise_SetError_rvalue fire p e h
    \<and> fst (Future_GetResult_obj vops F h) =
        obind (fst (Future_GetResult F h))
          (\<lambda>a. case lower_res a of Some b \<Rightarrow> Ret (Result_rep b) | None \<Rightarrow> Undefined)
    \<and> snd (Future_GetResult_obj vops F h) = snd (Future_GetResult F h)"
proof -
  note elems = regular_result [OF vops]
  note end_eq = store_and_fire_settle [OF vops]
  have vals: "Promise_set_value_lvalue_obj vops fire p v h = Promise_set_value_lvalue fire p (Val v) h"
    "Promise_set_value_rvalue_obj vops fire p v h = (Promise_set_value_rvalue fire p (Val v) h, mv v)"
    by (simp_all add: Promise_set_value_lvalue_obj_def Promise_set_value_rvalue_obj_def
        result_elems.constructors [OF elems] end_eq settle_cases)
  have errors: "Promise_SetError_lvalue_obj vops fire p e h = Promise_SetError_lvalue fire p e h"
    "Promise_SetError_rvalue_obj vops fire p e h = Promise_SetError_rvalue fire p e h"
    by (simp_all add: Promise_SetError_lvalue_obj_def Promise_SetError_rvalue_obj_def
        result_elems.factories [OF elems] end_eq settle_cases)
  have "fst (Future_GetResult_obj vops F h) =
        obind (fst (Future_GetResult F h))
          (\<lambda>a. case lower_res a of Some b \<Rightarrow> Ret (Result_rep b) | None \<Rightarrow> Undefined)"
    "snd (Future_GetResult_obj vops F h) = snd (Future_GetResult F h)"
    using lower_get [OF vops, of "fst (std_get (delegate_future_of F) h)"]
    by (auto simp: Future_GetResult_obj_def Future_GetResult_def std_get_obj_def split_def Let_def
        result_elems.factories [OF elems] std_get_def
        split: option.split content.split cxx_exn.split outcome.split)
  with vals errors show ?thesis by blast
qed

definition text_heap :: "(string, int) heap" where
  "text_heap =
     \<lparr>shared = [\<lparr>content = Pending, retrieved = False\<rparr>],
      states = [\<lparr>unique_continuation = None, delegate_future = None\<rparr>],
      promises = [\<lparr>delegate_promise = Some 0, extra_state = Some 0, mutex_held = False\<rparr>]\<rparr>"

theorem Promise_copies_refine_witness:
  "Promise_set_value_rvalue_obj String_ops (fire_within no_callables (Suc 0)) 0 ''abc'' text_heap =
     ((Ret (), store 0 (Stored (HasV (Val ''abc''))) text_heap), '''')"
proof -
  have "owns text_heap 0 0 0" "content_at text_heap 0 = Pending" "unique_continuation (states text_heap ! 0) = None"
    by (simp_all add: owns_def content_at_def text_heap_def)
  then have "Promise_set_value_rvalue (fire_within no_callables (Suc 0)) 0 (Val ''abc'') text_heap =
      (Ret (), store 0 (Stored (HasV (Val ''abc''))) text_heap)"
    unfolding settle_cases by (rule settle_quiet)
  with Promise_copies_refine [OF String.regular_elems_axioms, of "fire_within no_callables (Suc 0)" 0 "''abc''" text_heap]
  show ?thesis by metis
qed

section \<open>Value types that throw\<close>

lemma rep_value:
  "Result_rep (HasV v) = \<lparr>mData = \<lparr>m_storage = \<lparr>bytes = Live (PVal v), undestroyed = []\<rparr>, m_type_index = 0\<rparr>\<rparr>"
  by (simp add: Result_rep_def set_alt_def destroyed_def valueless_def Variant_default_def place_new_def)

lemma build_copy:
  "Result_of_value_lvalue vops eops v = obind (copy_ctor vops v) (\<lambda>n. Ret (Result_rep (HasV n)))"
  "Result_of_value_rvalue vops eops v = obind (move_ctor vops v) (\<lambda>(n, v'). Ret (Result_rep (HasV n), v'))"
  by (cases "copy_ctor vops v"; simp add: Result_of_value_lvalue_def Variant_converting_ctor_def
        construct_from_def result_ops_def rep_value Variant_default_def place_new_def)
    (cases "move_ctor vops v"; simp add: Result_of_value_rvalue_def Variant_converting_ctor_def split_def
        construct_from_def result_ops_def rep_value Variant_default_def place_new_def)

lemma copy_move_value:
  "Result_copy_ctor vops eops (Result_rep (HasV v)) =
     noexcept (obind (copy_ctor vops v) (\<lambda>n. Ret (Result_rep (HasV n))))"
  "obind (Result_move_ctor vops eops (Result_rep (HasV v))) (\<lambda>(r, _). Ret r) =
     noexcept (obind (move_ctor vops v) (\<lambda>(n, _). Ret (Result_rep (HasV n))))"
  by (cases "copy_ctor vops v"; simp add: Result_copy_ctor_def Variant_copy_ctor_def rep_value
        result_types_def elem_copyConstructor_def result_ops_def deref_def Variant_default_def place_new_def)
    (cases "move_ctor vops v"; simp add: Result_move_ctor_def Variant_move_ctor_def rep_value split_def
        result_types_def elem_moveConstructor_def result_ops_def deref_def Variant_default_def place_new_def)

text \<open>
  C21. An exception of the value type's copy or move. In the construction of the result it leaves
  \<open>set_value\<close> before the mutex is taken: nothing has changed and the promise can be used again.
  But \<open>set_value(T&&)\<close> copies its result into the shared state, and that copy is \<open>noexcept\<close>: when
  it throws the program ends, although the argument could be moved. On a promise that is
  already satisfied the argument is lost: it is moved from before the exception. \<open>GetResult\<close>
  ends the program when the move out of the shared state throws.
\<close>

theorem Promise_copies_throw:
  assumes own: "owns h p a s" and pending: "content_at h a = Pending" and c: "c \<noteq> Pending"
    and copies: "\<And>v. copy_ctor vops v = Throws e" and moves: "\<And>v. move_ctor vops v = Ret (v, mv v)"
  shows "Promise_set_value_lvalue_obj vops fire p v h = (Throws e, h)
    \<and> fst (fst (Promise_set_value_rvalue_obj vops fire p v h)) = Terminates ''exception leaves a noexcept function''
    \<and> Promise_set_value_rvalue_obj vops fire p v (store a c h) =
        ((Throws (StdFutureError 2), store a c h), mv v)
    \<and> Promise_set_value_rvalue_obj (throwing_ops e) fire p v h = ((Throws e, h), v)
    \<and> fst (Future_GetResult_obj (throwing_ops e) (Future_ctor (Some a) t) (store a (Stored (HasV (Val v))) h)) =
        Terminates ''exception leaves a noexcept function''"
proof -
  let ?ends = "''exception leaves a noexcept function''"
  have free: "\<not> mutex_held (promise_at h p)" "\<not> mutex_held (promise_at (store a c h) p)"
      "delegate_promise (promise_at (locked p (store a c h)) p) = Some a"
      "delegate_promise (promise_at (locked p h) p) = Some a"
    using own by (simp_all add: owns_def promise_at_def locked_def set_promise_def)
  have len: "a < length (shared h)" using own by (simp add: owns_def)
  have "fst (with_lock p (store_and_fire vops fire p (Result_rep (HasV v))) h) = Terminates ?ends"
    using free pending
    by (simp add: with_lock_def locked_def [symmetric] store_and_fire_def std_set_copy_def copy_move_value
        copies pbind_def pfail_def content_at_def [symmetric] split_def)
  moreover have "with_lock p (store_and_fire vops fire p (Result_rep (HasV v))) (store a c h) =
      (Throws (StdFutureError 2), store a c h)"
    using free c len unlocked_store_locked [OF own]
    by (simp add: with_lock_def locked_def [symmetric] unlocked_def [symmetric] store_and_fire_def std_set_copy_def
        pbind_def content_at_def [symmetric] split_def future_errc_defs)
  moreover have "fst (Future_GetResult_obj (throwing_ops e) (Future_ctor (Some a) t) (store a (Stored (HasV (Val v))) h)) =
      Terminates ?ends"
    using own
    by (simp add: Future_GetResult_obj_def std_get_obj_def std_get_def Future_ctor_def content_at_def [symmetric]
        owns_def copy_move_value throwing_ops_def)
  ultimately show ?thesis
    by (simp add: Promise_set_value_lvalue_obj_def Promise_set_value_rvalue_obj_def build_copy copies moves
        throwing_ops_def pbind_def pfail_def)
qed

text \<open>A type that can be moved but whose copies fail.\<close>

definition uncopied_ops :: "(cxx_exn, unit, string) elem_ops" where
  "uncopied_ops = String_ops\<lparr>copy_ctor := (\<lambda>_. Throws (StdException ''bad_alloc''))\<rparr>"

theorem Promise_copies_throw_witness:
  "Promise_set_value_lvalue_obj uncopied_ops (fire_within no_callables 1) 0 ''abc'' text_heap =
     (Throws (StdException ''bad_alloc''), text_heap)
   \<and> fst (fst (Promise_set_value_rvalue_obj uncopied_ops (fire_within no_callables 1) 0 ''abc'' text_heap)) =
     Terminates ''exception leaves a noexcept function''"
proof -
  have "owns text_heap 0 0 0" "content_at text_heap 0 = Pending" "Stored (HasV (Val ''x'')) \<noteq> Pending"
    "\<And>v. copy_ctor uncopied_ops v = Throws (StdException ''bad_alloc'')"
    "\<And>v. move_ctor uncopied_ops v = Ret (v, '''')"
    by (simp_all add: owns_def content_at_def text_heap_def uncopied_ops_def String_ops_def)
  from Promise_copies_throw [OF this, of "fire_within no_callables 1" "''abc''"] show ?thesis by metis
qed

end
