(* ===== verification/Variant_Programs.thy ===== *)
theory Variant_Programs
  imports Variant_Properties
begin

text \<open>
  Programs of member functions on several variants, and their refinement: run on variants,
  bytes and indices, they do what the same program does on plain optional alternatives, and
  no call throws, terminates or is undefined, in whatever order the members are called.
\<close>

section \<open>Commands\<close>

text \<open>
  The variables of a program are a list of variants: three commands construct a new one from
  nothing, from a copy or by a move; the others assign, move-assign, emplace and swap. A variant
  may be assigned to itself.
\<close>

datatype 'v variant_command =
  New
| New_copy nat
| New_move nat
| Assign nat nat
| Assign_move nat nat
| Emplace nat 'v
| Swap nat nat

text \<open>\<open>None\<close>: the program does not compile.\<close>

fun run_command ::
  "('x, 't, 'v) elem_ops \<Rightarrow> ('t \<Rightarrow> bool) \<Rightarrow> 't list \<Rightarrow> 'v variant_command \<Rightarrow> 'v variant list \<Rightarrow>
   ('x, 'v variant list) outcome option" where
  "run_command ops mc Ts New vs = Some (Ret (vs @ [Variant_default]))"
| "run_command ops mc Ts (New_copy i) vs =
     Some (obind (Variant_copy_ctor ops Ts (vs ! i)) (\<lambda>c. Ret (vs @ [c])))"
| "run_command ops mc Ts (New_move i) vs =
     Some (obind (Variant_move_ctor ops Ts (vs ! i)) (\<lambda>(m, s). Ret (vs[i := s] @ [m])))"
| "run_command ops mc Ts (Assign i j) vs =
     Some (obind (Variant_copy_assign ops Ts (i = j) (vs ! i) (vs ! j)) (\<lambda>v. Ret (vs[i := v])))"
| "run_command ops mc Ts (Assign_move i j) vs =
     Some (obind (Variant_move_assign ops Ts (i = j) (vs ! i) (vs ! j)) (\<lambda>(v, w). Ret (vs[j := w, i := v])))"
| "run_command ops mc Ts (Emplace i a) vs =
     map_option (\<lambda>r. obind r (\<lambda>v. Ret (vs[i := v])))
       (Variant_emplace_type ops Ts (type_of ops a) (\<lambda>_. Ret a) (vs ! i))"
| "run_command ops mc Ts (Swap i j) vs =
     map_option (\<lambda>r. obind r (\<lambda>(v, w). Ret (vs[j := w, i := v])))
       (Variant_swap ops mc Ts (i = j) (vs ! i) (vs ! j))"

fun run_program where
  "run_program ops mc Ts [] vs = Some (Ret vs)"
| "run_program ops mc Ts (c # cs) vs =
     (case run_command ops mc Ts c vs of
        None \<Rightarrow> None
      | Some (Ret vs') \<Rightarrow> run_program ops mc Ts cs vs'
      | Some r \<Rightarrow> Some r)"

section \<open>The abstract program\<close>

fun spec_command ::
  "('x, 't, 'v) elem_ops \<Rightarrow> 't list \<Rightarrow> 'v variant_command \<Rightarrow> (nat \<times> 'v) option list \<Rightarrow> (nat \<times> 'v) option list" where
  "spec_command ops Ts New as = as @ [None]"
| "spec_command ops Ts (New_copy i) as = as @ [as ! i]"
| "spec_command ops Ts (New_move i) as = as[i := None] @ [as ! i]"
| "spec_command ops Ts (Assign i j) as = as[i := as ! j]"
| "spec_command ops Ts (Assign_move i j) as = (if i = j then as else as[i := as ! j, j := None])"
| "spec_command ops Ts (Emplace i a) as = as[i := Some (first_index (type_of ops a) Ts, a)]"
| "spec_command ops Ts (Swap i j) as = as[i := as ! j, j := as ! i]"

fun valid_command :: "('x, 't, 'v) elem_ops \<Rightarrow> 't list \<Rightarrow> nat \<Rightarrow> 'v variant_command \<Rightarrow> bool" where
  "valid_command ops Ts n New \<longleftrightarrow> True"
| "valid_command ops Ts n (New_copy i) \<longleftrightarrow> i < n"
| "valid_command ops Ts n (New_move i) \<longleftrightarrow> i < n"
| "valid_command ops Ts n (Assign i j) \<longleftrightarrow> i < n \<and> j < n"
| "valid_command ops Ts n (Assign_move i j) \<longleftrightarrow> i < n \<and> j < n"
| "valid_command ops Ts n (Emplace i a) \<longleftrightarrow> i < n \<and> type_of ops a \<in> set Ts"
| "valid_command ops Ts n (Swap i j) \<longleftrightarrow> i < n \<and> j < n"

fun creates :: "'v variant_command \<Rightarrow> bool" where
  "creates New = True"
| "creates (New_copy i) = True"
| "creates (New_move i) = True"
| "creates c = False"

fun valid_program where
  "valid_program ops Ts n [] \<longleftrightarrow> True"
| "valid_program ops Ts n (c # cs) \<longleftrightarrow>
     valid_command ops Ts n c \<and> valid_program ops Ts (if creates c then Suc n else n) cs"

section \<open>Refinement\<close>

definition all_wf :: "('x, 't, 'v) elem_ops \<Rightarrow> 't list \<Rightarrow> 'v variant list \<Rightarrow> bool" where
  "all_wf ops Ts vs \<longleftrightarrow> (\<forall>v \<in> set vs. Variant_wf ops Ts v)"

lemma all_wf_nth: "all_wf ops Ts vs \<Longrightarrow> i < length vs \<Longrightarrow> Variant_wf ops Ts (vs ! i)"
  by (simp add: all_wf_def)

lemma all_wf_update: "all_wf ops Ts vs \<Longrightarrow> Variant_wf ops Ts v \<Longrightarrow> all_wf ops Ts (vs[i := v])"
  using set_update_subset_insert [of vs i v] by (auto simp: all_wf_def)

lemma all_wf_append [simp]: "all_wf ops Ts (vs @ [v]) \<longleftrightarrow> all_wf ops Ts vs \<and> Variant_wf ops Ts v"
  by (auto simp: all_wf_def)

context variant_elems
begin

lemma valueless_alt_moved [simp]: "Variant_alt (moved_from f v) = None"
  by (rule valueless_alt) (rule moved_from_valueless)

lemma swap_result:
  assumes mc: "are_move_constructible is_mc Ts" and wf: "Variant_wf ops Ts v" "Variant_wf ops Ts w"
  obtains v' w' where "Variant_swap ops is_mc Ts False v w = Some (Ret (v', w'))"
    "Variant_wf ops Ts v'" "Variant_wf ops Ts w'" "Variant_alt v' = Variant_alt w" "Variant_alt w' = Variant_alt v"
proof -
  obtain a b where ab: "std_swap_variant ops Ts False v w = Ret (a, b)"
    "Variant_wf ops Ts a" "Variant_wf ops Ts b" "Variant_alt a = Variant_alt w" "Variant_alt b = Variant_alt v"
    using swap_eq [OF wf] by metis
  have "Variant_valueless_by_exception v \<Longrightarrow> Variant_alt v = None"
    "Variant_valueless_by_exception w \<Longrightarrow> Variant_alt w = None"
    by (simp_all add: Variant_valueless_by_exception_def Variant_alt_def)
  with ab wf mc that show thesis
    by (cases "Variant_valueless_by_exception v \<and> Variant_valueless_by_exception w") (auto simp: Variant_swap_def)
qed

lemma swap_self_result:
  assumes mc: "are_move_constructible is_mc Ts" and wf: "Variant_wf ops Ts v"
  obtains v' where "Variant_swap ops is_mc Ts True v v = Some (Ret (v', v'))"
    "Variant_wf ops Ts v'" "Variant_alt v' = Variant_alt v"
proof -
  obtain a where "std_swap_variant ops Ts True v v = Ret (a, a)" "Variant_wf ops Ts a" "Variant_alt a = Variant_alt v"
    using swap_self_eq [OF wf] by metis
  with wf mc that show thesis
    by (cases "Variant_valueless_by_exception v") (auto simp: Variant_swap_def)
qed

lemma command_refines:
  assumes mc: "are_move_constructible is_mc Ts" and wf: "all_wf ops Ts vs"
    and valid: "valid_command ops Ts (length vs) c"
  shows "\<exists>ws. run_command ops is_mc Ts c vs = Some (Ret ws) \<and> all_wf ops Ts ws \<and>
    length ws = (if creates c then Suc (length vs) else length vs) \<and>
    map Variant_alt ws = spec_command ops Ts c (map Variant_alt vs)"
proof -
  note nth = all_wf_nth [OF wf]
  note set = set_alt_wf [OF wf_typed_alt] set_alt_alt [OF wf_typed_alt]
  show ?thesis
  proof (cases c)
    case New
    with wf show ?thesis by (simp add: valueless_wf)
  next
    case (New_copy i)
    with wf valid show ?thesis by (simp add: copy_ctor_eq [OF nth] set nth)
  next
    case (New_move i)
    with wf valid show ?thesis
      by (simp add: move_ctor_eq [OF nth] set nth all_wf_update map_update)
  next
    case (Assign i j)
    then show ?thesis
      using wf valid copy_assign_eq [OF nth nth, of i j] copy_assign_self [of "vs ! i"] set [OF nth]
      by (cases "i = j") (simp_all add: all_wf_update map_update [symmetric] del: map_update,
        simp add: map_update)
  next
    case (Assign_move i j)
    then show ?thesis
      using wf valid move_assign_eq [OF nth nth, of i j] move_assign_self [of "vs ! i"] set [OF nth]
      by (cases "i = j") (simp_all add: all_wf_update map_update list_update_swap)
  next
    case (Emplace i a)
    then have T: "type_of ops a \<in> set Ts" and i: "i < length vs" using valid by simp_all
    have t: "typed_alt ops Ts (Some (first_index (type_of ops a) Ts, a))"
      using T by (simp add: typed_alt_def first_index_less nth_first_index)
    show ?thesis
      using Emplace wf i set_alt_wf [OF t] set_alt_alt [OF t]
      by (simp add: emplace_type_eq [OF nth [OF i] T] all_wf_update map_update)
  next
    case (Swap i j)
    then have ij: "i < length vs" "j < length vs" using valid by simp_all
    show ?thesis
    proof (cases "i = j")
      case True
      obtain v' where "Variant_swap ops is_mc Ts True (vs ! i) (vs ! i) = Some (Ret (v', v'))"
        "Variant_wf ops Ts v'" "Variant_alt v' = Variant_alt (vs ! i)"
        using swap_self_result [OF mc nth [OF ij(1)]] by metis
      with Swap True wf ij show ?thesis by (simp add: all_wf_update map_update)
    next
      case False
      obtain v' w' where "Variant_swap ops is_mc Ts False (vs ! i) (vs ! j) = Some (Ret (v', w'))"
        "Variant_wf ops Ts v'" "Variant_wf ops Ts w'"
        "Variant_alt v' = Variant_alt (vs ! j)" "Variant_alt w' = Variant_alt (vs ! i)"
        using swap_result [OF mc nth [OF ij(1)] nth [OF ij(2)]] by metis
      with Swap False wf ij show ?thesis by (simp add: all_wf_update map_update list_update_swap)
    qed
  qed
qed

lemma program_refines:
  assumes "are_move_constructible is_mc Ts" "all_wf ops Ts vs" "valid_program ops Ts (length vs) cs"
  shows "\<exists>ws. run_program ops is_mc Ts cs vs = Some (Ret ws) \<and> all_wf ops Ts ws \<and>
    map Variant_alt ws = fold (spec_command ops Ts) cs (map Variant_alt vs)"
  using assms(2,3)
proof (induction cs arbitrary: vs)
  case Nil
  then show ?case by simp
next
  case (Cons c cs)
  obtain ws where ws: "run_command ops is_mc Ts c vs = Some (Ret ws)" "all_wf ops Ts ws"
    "length ws = (if creates c then Suc (length vs) else length vs)"
    "map Variant_alt ws = spec_command ops Ts c (map Variant_alt vs)"
    using command_refines [OF assms(1) Cons.prems(1), of c] Cons.prems(2) by auto
  from Cons.IH [of ws] ws Cons.prems(2) show ?case by (simp split: if_splits)
qed

end

text \<open>
  C11. Any program of constructions, assignments, moves, emplacements and swaps on any number of
  variants returns, keeps every variant well-formed and computes what the same program
  computes on plain optional alternatives, where a move empties its source.
\<close>

theorem Variant_programs_refine:
  assumes "variant_elems ops mo Ts" and "are_move_constructible is_mc Ts"
    and "all_wf ops Ts vs" and "valid_program ops Ts (length vs) cs"
  shows "\<exists>ws. run_program ops is_mc Ts cs vs = Some (Ret ws) \<and> all_wf ops Ts ws
       \<and> map Variant_alt ws = fold (spec_command ops Ts) cs (map Variant_alt vs)"
  using assms(2-4) by (rule variant_elems.program_refines [OF assms(1)])

theorem Variant_programs_refine_witness:
  "\<exists>ws. run_program ib_ops (\<lambda>_. True) result_types
       [New, Emplace 0 (PVal 3), New_copy 0, Emplace 1 (PErr True), Swap 0 1, New_move 0, Assign 0 1, Assign_move 1 1] [] =
       Some (Ret ws)
     \<and> map Variant_alt ws = [Some (0, PVal 3), Some (0, PVal 3), Some (1, PErr True)]"
  using Variant_programs_refine [OF ib_elems, of "\<lambda>_. True" "[]"
      "[New, Emplace 0 (PVal 3), New_copy 0, Emplace 1 (PErr True), Swap 0 1, New_move 0, Assign 0 1, Assign_move 1 1]"]
  by (auto simp: are_move_constructible_iff all_wf_def)

end
