(* ===== verification/Sample_Ptr.thy ===== *)
theory Sample_Ptr
  imports Prelude
begin

text \<open>
  \<open>SamplePtr\<close> of \<open>ara/com/sample_ptr.h\<close>: a pointer to a received sample, shared through a
  \<open>std::shared_ptr\<close>. The heap has the objects and the control blocks of the shared pointers,
  which are modelled after the C++ standard; copying, moving and destroying a \<open>SamplePtr\<close> are the
  implicit members of the class.
\<close>

section \<open>Shared pointers\<close>

text \<open>
  \<open>alive\<close> says which objects exist; a control block has the pointer it manages (\<open>None\<close> is the null
  pointer) and the number of shared pointers that own it.
\<close>

record sample_heap =
  alive :: "bool list"
  blocks :: "(nat option \<times> nat) list"

text \<open>A shared pointer is its control block; \<open>None\<close> when it is empty.\<close>

type_synonym shared_ptr = "nat option"

definition delete_object :: "nat option \<Rightarrow> sample_heap \<Rightarrow> ('x, sample_heap) outcome" where
  "delete_object p h =
     (case p of
        None \<Rightarrow> Ret h
      | Some a \<Rightarrow> if a < length (alive h) \<and> alive h ! a then Ret (h\<lparr>alive := (alive h)[a := False]\<rparr>) else Undefined)"

text \<open>\<open>shared_ptr(T*)\<close> makes a control block for every pointer, the null pointer included.\<close>

definition shared_from :: "nat option \<Rightarrow> sample_heap \<Rightarrow> shared_ptr \<times> sample_heap" where
  "shared_from p h = (Some (length (blocks h)), h\<lparr>blocks := blocks h @ [(p, 1)]\<rparr>)"

definition shared_copy :: "shared_ptr \<Rightarrow> sample_heap \<Rightarrow> sample_heap" where
  "shared_copy s h =
     (case s of
        None \<Rightarrow> h
      | Some b \<Rightarrow> h\<lparr>blocks := (blocks h)[b := (fst (blocks h ! b), Suc (snd (blocks h ! b)))]\<rparr>)"

text \<open>The last owner deletes the object.\<close>

definition shared_release :: "shared_ptr \<Rightarrow> sample_heap \<Rightarrow> ('x, sample_heap) outcome" where
  "shared_release s h =
     (case s of
        None \<Rightarrow> Ret h
      | Some b \<Rightarrow>
          (let h' = h\<lparr>blocks := (blocks h)[b := (fst (blocks h ! b), snd (blocks h ! b) - 1)]\<rparr>
           in if snd (blocks h ! b) = 1 then delete_object (fst (blocks h ! b)) h' else Ret h'))"

definition shared_get :: "shared_ptr \<Rightarrow> sample_heap \<Rightarrow> nat option" where
  "shared_get s h = (case s of None \<Rightarrow> None | Some b \<Rightarrow> fst (blocks h ! b))"

definition shared_use_count :: "shared_ptr \<Rightarrow> sample_heap \<Rightarrow> nat" where
  "shared_use_count s h = (case s of None \<Rightarrow> 0 | Some b \<Rightarrow> snd (blocks h ! b))"

section \<open>SamplePtr\<close>

record SamplePtr =
  dataPtr :: shared_ptr

definition SamplePtr_default :: SamplePtr where
  "SamplePtr_default = \<lparr>dataPtr = None\<rparr>"

text \<open>The new shared pointer is assigned, then the old one is released.\<close>

definition SamplePtr_Reset :: "nat option \<Rightarrow> SamplePtr \<Rightarrow> sample_heap \<Rightarrow> ('x, SamplePtr \<times> sample_heap) outcome" where
  "SamplePtr_Reset p this h =
     (let (s, h1) = shared_from p h
      in obind (shared_release (dataPtr this) h1) (\<lambda>h2. Ret (this\<lparr>dataPtr := s\<rparr>, h2)))"

definition SamplePtr_Get :: "SamplePtr \<Rightarrow> sample_heap \<Rightarrow> nat option" where
  "SamplePtr_Get this h = shared_get (dataPtr this) h"

definition SamplePtr_get :: "SamplePtr \<Rightarrow> sample_heap \<Rightarrow> nat option" where
  "SamplePtr_get this h = shared_get (dataPtr this) h"

definition SamplePtr_UseCount :: "SamplePtr \<Rightarrow> sample_heap \<Rightarrow> nat" where
  "SamplePtr_UseCount this h = shared_use_count (dataPtr this) h"

definition SamplePtr_copy_ctor :: "SamplePtr \<Rightarrow> sample_heap \<Rightarrow> SamplePtr \<times> sample_heap" where
  "SamplePtr_copy_ctor other h = (\<lparr>dataPtr = dataPtr other\<rparr>, shared_copy (dataPtr other) h)"

definition SamplePtr_copy_assign ::
  "SamplePtr \<Rightarrow> SamplePtr \<Rightarrow> sample_heap \<Rightarrow> ('x, SamplePtr \<times> sample_heap) outcome" where
  "SamplePtr_copy_assign this other h =
     obind (shared_release (dataPtr this) (shared_copy (dataPtr other) h))
       (\<lambda>h'. Ret (this\<lparr>dataPtr := dataPtr other\<rparr>, h'))"

definition SamplePtr_move_ctor :: "SamplePtr \<Rightarrow> SamplePtr \<times> SamplePtr" where
  "SamplePtr_move_ctor other = (\<lparr>dataPtr = dataPtr other\<rparr>, other\<lparr>dataPtr := None\<rparr>)"

text \<open>\<open>self\<close>: a pointer that is moved to itself keeps its sample.\<close>

definition SamplePtr_move_assign ::
  "bool \<Rightarrow> SamplePtr \<Rightarrow> SamplePtr \<Rightarrow> sample_heap \<Rightarrow> ('x, SamplePtr \<times> SamplePtr \<times> sample_heap) outcome" where
  "SamplePtr_move_assign self this other h =
     (if self then Ret (this, this, h)
      else obind (shared_release (dataPtr this) h)
             (\<lambda>h'. Ret (this\<lparr>dataPtr := dataPtr other\<rparr>, other\<lparr>dataPtr := None\<rparr>, h')))"

definition SamplePtr_dtor :: "SamplePtr \<Rightarrow> sample_heap \<Rightarrow> ('x, sample_heap) outcome" where
  "SamplePtr_dtor this h = shared_release (dataPtr this) h"

section \<open>The owners of a sample\<close>

text \<open>
  The variables of a program are a list of pointers; a destroyed one stays as an empty one. The
  count of a block is the number of variables that hold it, an object that is owned is alive,
  and no two owned blocks manage the same object.
\<close>

definition owners :: "SamplePtr list \<Rightarrow> nat \<Rightarrow> nat" where
  "owners vs b = count_list (map dataPtr vs) (Some b)"

definition samples_ok :: "SamplePtr list \<Rightarrow> sample_heap \<Rightarrow> bool" where
  "samples_ok vs h \<longleftrightarrow>
     (\<forall>b. 0 < owners vs b \<longrightarrow> b < length (blocks h)) \<and>
     (\<forall>b < length (blocks h). snd (blocks h ! b) = owners vs b) \<and>
     (\<forall>b a. 0 < owners vs b \<and> fst (blocks h ! b) = Some a \<longrightarrow> a < length (alive h) \<and> alive h ! a) \<and>
     (\<forall>b c a. 0 < owners vs b \<and> 0 < owners vs c \<and> fst (blocks h ! b) = Some a \<and>
        fst (blocks h ! c) = Some a \<longrightarrow> b = c)"

lemma samples_okI:
  assumes "\<And>b. 0 < owners vs b \<Longrightarrow> b < length (blocks h)"
    and "\<And>b. b < length (blocks h) \<Longrightarrow> snd (blocks h ! b) = owners vs b"
    and "\<And>b a. 0 < owners vs b \<Longrightarrow> fst (blocks h ! b) = Some a \<Longrightarrow> a < length (alive h) \<and> alive h ! a"
    and "\<And>b c a. 0 < owners vs b \<Longrightarrow> 0 < owners vs c \<Longrightarrow> fst (blocks h ! b) = Some a \<Longrightarrow>
      fst (blocks h ! c) = Some a \<Longrightarrow> b = c"
  shows "samples_ok vs h"
  using assms unfolding samples_ok_def by blast

lemma samples_okD:
  assumes "samples_ok vs h"
  shows "0 < owners vs b \<Longrightarrow> b < length (blocks h)"
    and "b < length (blocks h) \<Longrightarrow> snd (blocks h ! b) = owners vs b"
    and "0 < owners vs b \<Longrightarrow> fst (blocks h ! b) = Some a \<Longrightarrow> a < length (alive h) \<and> alive h ! a"
    and "0 < owners vs b \<Longrightarrow> 0 < owners vs c \<Longrightarrow> fst (blocks h ! b) = Some a \<Longrightarrow>
      fst (blocks h ! c) = Some a \<Longrightarrow> b = c"
  using assms unfolding samples_ok_def by blast+

lemma count_list_update:
  "i < length xs \<Longrightarrow>
   count_list (xs[i := y]) x + (if xs ! i = x then 1 else 0) = count_list xs x + (if y = x then 1 else 0)"
proof (induction xs arbitrary: i)
  case (Cons z xs)
  show ?case
  proof (cases i)
    case (Suc j)
    with Cons.IH [of j] Cons.prems show ?thesis by (auto split: if_splits)
  qed simp
qed simp

lemma owners_update:
  "i < length vs \<Longrightarrow>
   owners (vs[i := v]) b + (if dataPtr (vs ! i) = Some b then 1 else 0) = owners vs b + (if dataPtr v = Some b then 1 else 0)"
  using count_list_update [of i "map dataPtr vs" "dataPtr v" "Some b"] by (simp add: owners_def map_update)

lemma owners_append: "owners (vs @ [v]) b = owners vs b + (if dataPtr v = Some b then 1 else 0)"
  by (simp add: owners_def)

lemma owners_assign: "i < length vs \<Longrightarrow> owners (vs[i := v] @ [vs ! i]) = owners (vs @ [v])"
  by (rule ext) (simp add: owners_append owners_update)

lemma owners_pos: "i < length vs \<Longrightarrow> dataPtr (vs ! i) = Some b \<Longrightarrow> 0 < owners vs b"
  using owners_update [of i vs "\<lparr>dataPtr = None\<rparr>" b] by simp

lemma samples_ok_owners: "owners vs = owners ws \<Longrightarrow> samples_ok vs h = samples_ok ws h"
  by (simp add: samples_ok_def)

text \<open>A new variable: a copy of an existing one, or of a raw pointer that nobody owns.\<close>

lemma copy_ok:
  assumes ok: "samples_ok vs h" and j: "j < length vs"
  shows "samples_ok (vs @ [\<lparr>dataPtr = dataPtr (vs ! j)\<rparr>]) (shared_copy (dataPtr (vs ! j)) h)"
proof (cases "dataPtr (vs ! j)")
  case None
  have same: "owners (vs @ [\<lparr>dataPtr = None\<rparr>]) = owners vs"
    by (simp add: fun_eq_iff owners_append)
  show ?thesis
    using iffD2 [OF samples_ok_owners [OF same] ok] by (simp add: None shared_copy_def)
next
  case (Some b)
  have b: "b < length (blocks h)" "0 < owners vs b"
    using ok owners_pos [OF j Some] by (simp_all add: samples_ok_def)
  have "0 < owners (vs @ [\<lparr>dataPtr = Some b\<rparr>]) c \<longleftrightarrow> 0 < owners vs c" for c
    using b by (auto simp: owners_append)
  with ok b Some show ?thesis
    by (auto simp: samples_ok_def shared_copy_def nth_list_update owners_append)
qed

definition unowned :: "SamplePtr list \<Rightarrow> nat option \<Rightarrow> sample_heap \<Rightarrow> bool" where
  "unowned vs p h \<longleftrightarrow>
     (case p of
        None \<Rightarrow> True
      | Some a \<Rightarrow> a < length (alive h) \<and> alive h ! a \<and> (\<forall>b. 0 < owners vs b \<longrightarrow> fst (blocks h ! b) \<noteq> Some a))"

lemma from_ok:
  assumes ok: "samples_ok vs h" and p: "unowned vs p h"
  shows "samples_ok (vs @ [\<lparr>dataPtr = Some (length (blocks h))\<rparr>]) (h\<lparr>blocks := blocks h @ [(p, 1)]\<rparr>)"
proof -
  have none: "owners vs (length (blocks h)) = 0" using ok by (auto simp: samples_ok_def)
  have "0 < owners vs b \<Longrightarrow> b < length (blocks h)" for b using ok by (simp add: samples_ok_def)
  then show ?thesis
    using ok p none
    by (auto simp: samples_ok_def owners_append nth_append less_Suc_eq unowned_def split: if_splits option.splits)
qed

text \<open>The release of a variable.\<close>

definition released :: "SamplePtr list \<Rightarrow> shared_ptr \<Rightarrow> sample_heap \<Rightarrow> sample_heap \<Rightarrow> bool" where
  "released vs s h h' \<longleftrightarrow>
     map fst (blocks h') = map fst (blocks h) \<and> length (alive h') = length (alive h) \<and>
     (\<forall>a < length (alive h). alive h' ! a \<longleftrightarrow>
        alive h ! a \<and> \<not> (\<exists>b. s = Some b \<and> owners vs b = 0 \<and> fst (blocks h ! b) = Some a))"

text \<open>The two halves of a release: one owner less, and the object of the last owner deleted.\<close>

definition uncounted :: "nat \<Rightarrow> sample_heap \<Rightarrow> sample_heap" where
  "uncounted b h = h\<lparr>blocks := (blocks h)[b := (fst (blocks h ! b), snd (blocks h ! b) - 1)]\<rparr>"

lemma uncounted_simps:
  "length (blocks (uncounted b h)) = length (blocks h)" "alive (uncounted b h) = alive h"
  "fst (blocks (uncounted b h) ! c) = fst (blocks h ! c)"
  "map fst (blocks (uncounted b h)) = map fst (blocks h)"
proof -
  show "fst (blocks (uncounted b h) ! c) = fst (blocks h ! c)"
    by (cases "b < length (blocks h)"; cases "b = c") (simp_all add: uncounted_def list_update_beyond not_less)
  have "(map fst (blocks h))[b := fst (blocks h ! b)] = map fst (blocks h)"
    by (metis list_update_beyond list_update_id linorder_not_less length_map nth_map)
  then show "map fst (blocks (uncounted b h)) = map fst (blocks h)"
    by (simp add: uncounted_def map_update)
qed (simp_all add: uncounted_def)

lemma counted_block:
  assumes ok: "samples_ok (vs @ [v]) h" and v: "dataPtr v = Some b"
  shows "owners (vs @ [v]) c = owners vs c + (if b = c then 1 else 0)"
    and "b < length (blocks h)" "snd (blocks h ! b) = Suc (owners vs b)"
proof -
  show own: "owners (vs @ [v]) c = owners vs c + (if b = c then 1 else 0)" for c
    using v by (auto simp: owners_append)
  then have "0 < owners (vs @ [v]) b" by simp
  then show "b < length (blocks h)" "snd (blocks h ! b) = Suc (owners vs b)"
    using samples_okD(1,2) [OF ok, of b] own [of b] by simp_all
qed

lemma uncounted_ok:
  assumes ok: "samples_ok (vs @ [v]) h" and v: "dataPtr v = Some b"
  shows "samples_ok vs (uncounted b h)"
proof (rule samples_okI)
  note own = counted_block(1) [OF ok v] and b = counted_block(2,3) [OF ok v]
  have sub: "0 < owners vs c \<Longrightarrow> 0 < owners (vs @ [v]) c" for c by (simp add: own)
  show "snd (blocks (uncounted b h) ! c) = owners vs c" if "c < length (blocks (uncounted b h))" for c
    using samples_okD(2) [OF ok, of c] that b own [of c] by (simp add: uncounted_def nth_list_update)
  show "c < length (blocks (uncounted b h))" if "0 < owners vs c" for c
    using samples_okD(1) [OF ok sub [OF that]] by (simp add: uncounted_simps)
  show "x < length (alive (uncounted b h)) \<and> alive (uncounted b h) ! x"
    if "0 < owners vs c" "fst (blocks (uncounted b h) ! c) = Some x" for c x
    using samples_okD(3) [OF ok sub [OF that(1)]] that(2) by (simp add: uncounted_simps)
  show "c = d" if "0 < owners vs c" "0 < owners vs d"
    "fst (blocks (uncounted b h) ! c) = Some x" "fst (blocks (uncounted b h) ! d) = Some x" for c d x
    using samples_okD(4) [OF ok sub [OF that(1)] sub [OF that(2)]] that(3,4)
    unfolding uncounted_simps by blast
qed

lemma deleted_ok:
  assumes ok: "samples_ok vs h" and other: "\<And>c. 0 < owners vs c \<Longrightarrow> fst (blocks h ! c) \<noteq> Some a"
  shows "samples_ok vs (h\<lparr>alive := (alive h)[a := False]\<rparr>)" (is "samples_ok vs ?d")
proof (rule samples_okI)
  show "x < length (alive ?d) \<and> alive ?d ! x" if "0 < owners vs c" "fst (blocks ?d ! c) = Some x" for c x
    using samples_okD(3) [OF ok that(1), of x] other [OF that(1)] that(2) by (cases "x = a") simp_all
  show "c < length (blocks ?d)" if "0 < owners vs c" for c
    using samples_okD(1) [OF ok that] by simp
  show "snd (blocks ?d ! c) = owners vs c" if "c < length (blocks ?d)" for c
    using samples_okD(2) [OF ok, of c] that by simp
  show "c = d" if "0 < owners vs c" "0 < owners vs d" "fst (blocks ?d ! c) = Some x" "fst (blocks ?d ! d) = Some x" for c d x
    using samples_okD(4) [OF ok that(1,2)] that(3,4) by simp
qed

lemma release_ok:
  assumes ok: "samples_ok (vs @ [v]) h"
  obtains h' where "shared_release (dataPtr v) h = (Ret h' :: ('x, sample_heap) outcome)" "samples_ok vs h'"
    "released vs (dataPtr v) h h'"
proof (cases "dataPtr v")
  case None
  then have same: "owners (vs @ [v]) = owners vs" by (simp add: fun_eq_iff owners_append)
  have "samples_ok vs h" by (rule iffD1 [OF samples_ok_owners [OF same] ok])
  with None that show thesis by (simp add: shared_release_def released_def)
next
  case v: (Some b)
  note own = counted_block(1) [OF ok v] and b = counted_block(2,3) [OF ok v]
  note ok' = uncounted_ok [OF ok v]
  have pos: "0 < owners (vs @ [v]) b" using own [of b] by simp
  show thesis
  proof (cases "owners vs b = 0 \<and> fst (blocks h ! b) \<noteq> None")
    case False
    then have "shared_release (dataPtr v) h = (Ret (uncounted b h) :: ('x, sample_heap) outcome)"
      using b v by (auto simp: shared_release_def Let_def delete_object_def uncounted_def)
    with that ok' v False show thesis by (auto simp: released_def uncounted_simps)
  next
    case True
    then obtain a where last: "owners vs b = 0" and obj: "fst (blocks h ! b) = Some a" by auto
    let ?d = "(uncounted b h)\<lparr>alive := (alive h)[a := False]\<rparr>"
    have a: "a < length (alive h)" "alive h ! a"
      using samples_okD(3) [OF ok pos obj] by simp_all
    have rel: "shared_release (dataPtr v) h = (Ret ?d :: ('x, sample_heap) outcome)"
      using b v last obj a by (simp add: shared_release_def delete_object_def uncounted_def)
    have "fst (blocks h ! c) \<noteq> Some a" if "0 < owners vs c" for c
      using samples_okD(4) [OF ok _ pos _ obj, of c] own [of c] that last by auto
    then have "samples_ok vs ?d"
      using deleted_ok [OF ok', of a] by (simp add: uncounted_simps)
    moreover have "\<forall>x < length (alive h). (alive h)[a := False] ! x \<longleftrightarrow> alive h ! x \<and> a \<noteq> x"
      using a by (simp add: nth_list_update)
    ultimately show thesis using that rel v obj last by (simp add: released_def uncounted_simps)
  qed
qed

section \<open>The operations\<close>

lemma released_get:
  assumes "released vs s h h'" "dataPtr v = Some b" "b < length (blocks h)"
  shows "SamplePtr_Get v h' = SamplePtr_Get v h"
proof -
  have "map fst (blocks h') ! b = map fst (blocks h) ! b" using assms(1) by (simp add: released_def)
  moreover have "length (blocks h') = length (blocks h)"
    using assms(1) by (metis released_def length_map)
  ultimately show ?thesis using assms(2,3) by (simp add: SamplePtr_Get_def shared_get_def)
qed

lemma use_count_owners:
  assumes "samples_ok vs h" "v \<in> set vs" "dataPtr v = Some b"
  shows "SamplePtr_UseCount v h = owners vs b"
proof -
  obtain i where i: "i < length vs" "vs ! i = v" using assms(2) by (auto simp: in_set_conv_nth)
  have "b < length (blocks h)" using samples_okD(1) [OF assms(1)] owners_pos [OF i(1)] i(2) assms(3) by simp
  then show ?thesis using samples_okD(2) [OF assms(1)] assms(3) by (simp add: SamplePtr_UseCount_def shared_use_count_def)
qed

lemma released_length: "released vs s h h' \<Longrightarrow> length (blocks h') = length (blocks h)"
  by (metis released_def length_map)

text \<open>
  What a release of \<open>v\<close> changes when the pointers \<open>ws\<close> are left: they refer to what they referred
  to, and the only object that may be deleted is that of \<open>v\<close>, and it is exactly when none of
  them refers to it.
\<close>

definition only_deletes :: "SamplePtr list \<Rightarrow> SamplePtr \<Rightarrow> sample_heap \<Rightarrow> sample_heap \<Rightarrow> bool" where
  "only_deletes ws v h h' \<longleftrightarrow>
     (\<forall>w \<in> set ws. SamplePtr_Get w h' = SamplePtr_Get w h) \<and> length (alive h') = length (alive h) \<and>
     (\<forall>a < length (alive h). alive h' ! a \<longleftrightarrow>
        alive h ! a \<and> \<not> (SamplePtr_Get v h = Some a \<and> (\<forall>w \<in> set ws. SamplePtr_Get w h \<noteq> Some a)))"

lemma Get_Some: "SamplePtr_Get w h = Some a \<longleftrightarrow> (\<exists>b. dataPtr w = Some b \<and> fst (blocks h ! b) = Some a)"
  by (auto simp: SamplePtr_Get_def shared_get_def split: option.splits)

lemma owners_in: "0 < owners vs b \<longleftrightarrow> (\<exists>w \<in> set vs. dataPtr w = Some b)"
proof -
  have "owners vs b = 0 \<longleftrightarrow> \<not> (\<exists>w \<in> set vs. dataPtr w = Some b)"
    unfolding owners_def count_list_0_iff by force
  then show ?thesis by auto
qed

lemma release_frame:
  assumes ok: "samples_ok (ws @ [v]) h" and rel: "released ws (dataPtr v) h h'"
  shows "only_deletes ws v h h'"
  unfolding only_deletes_def
proof (intro conjI ballI allI impI)
  show "length (alive h') = length (alive h)" using rel by (simp add: released_def)
  show "SamplePtr_Get w h' = SamplePtr_Get w h" if "w \<in> set ws" for w
  proof (cases "dataPtr w")
    case (Some b)
    then have "0 < owners (ws @ [v]) b" using that owners_in by auto
    from released_get [OF rel Some samples_okD(1) [OF ok this]] show ?thesis .
  qed (simp add: SamplePtr_Get_def shared_get_def)
  fix a assume a: "a < length (alive h)"
  have "(\<exists>b. dataPtr v = Some b \<and> owners ws b = 0 \<and> fst (blocks h ! b) = Some a) \<longleftrightarrow>
      SamplePtr_Get v h = Some a \<and> (\<forall>w \<in> set ws. SamplePtr_Get w h \<noteq> Some a)" (is "?L \<longleftrightarrow> ?R")
  proof
    assume ?L
    then obtain b where b: "dataPtr v = Some b" "owners ws b = 0" "fst (blocks h ! b) = Some a" by blast
    have "SamplePtr_Get w h \<noteq> Some a" if w: "w \<in> set ws" for w
    proof
      assume "SamplePtr_Get w h = Some a"
      then obtain c where c: "dataPtr w = Some c" "fst (blocks h ! c) = Some a" by (auto simp: Get_Some)
      have "0 < owners ws c" using w c(1) owners_in by blast
      moreover have "0 < owners (ws @ [v]) c" "0 < owners (ws @ [v]) b"
        using w c(1) b(1) owners_in by auto
      then have "c = b" using samples_okD(4) [OF ok] c(2) b(3) by blast
      ultimately show False using b(2) by simp
    qed
    then show ?R using b by (auto simp: Get_Some)
  next
    assume r: ?R
    then obtain b where b: "dataPtr v = Some b" "fst (blocks h ! b) = Some a" by (auto simp: Get_Some)
    then have "\<not> 0 < owners ws b" using r unfolding owners_in Get_Some by blast
    with b show ?L by auto
  qed
  moreover have "alive h' ! a \<longleftrightarrow> alive h ! a \<and> \<not> ?L"
    using rel a unfolding released_def by blast
  ultimately show "alive h' ! a \<longleftrightarrow>
      alive h ! a \<and> \<not> (SamplePtr_Get v h = Some a \<and> (\<forall>w \<in> set ws. SamplePtr_Get w h \<noteq> Some a))"
    by blast
qed

lemma Get_shared_copy: "SamplePtr_Get w (shared_copy s h) = SamplePtr_Get w h" "alive (shared_copy s h) = alive h"
  by (auto simp: SamplePtr_Get_def shared_get_def shared_copy_def nth_list_update split: option.split)
    (metis fst_conv list_update_beyond not_less nth_list_update)+

lemma assign_ok:
  assumes ok: "samples_ok vs h" and i: "i < length vs" and j: "j < length vs"
  shows "\<exists>h'. (SamplePtr_copy_assign (vs ! i) (vs ! j) h :: ('x, SamplePtr \<times> sample_heap) outcome) = Ret (vs ! j, h')
    \<and> samples_ok (vs[i := vs ! j]) h' \<and> only_deletes (vs[i := vs ! j]) (vs ! i) h h'"
proof -
  have "samples_ok (vs @ [vs ! j]) (shared_copy (dataPtr (vs ! j)) h)"
    using copy_ok [OF ok j] by (cases "vs ! j") simp
  then have before: "samples_ok (vs[i := vs ! j] @ [vs ! i]) (shared_copy (dataPtr (vs ! j)) h)"
    using samples_ok_owners [OF owners_assign [OF i]] by blast
  then obtain h' where "shared_release (dataPtr (vs ! i)) (shared_copy (dataPtr (vs ! j)) h) = (Ret h' :: ('x, sample_heap) outcome)"
    "samples_ok (vs[i := vs ! j]) h'"
    "released (vs[i := vs ! j]) (dataPtr (vs ! i)) (shared_copy (dataPtr (vs ! j)) h) h'"
    by (rule release_ok)
  with release_frame [OF before] show ?thesis
    by (simp add: SamplePtr_copy_assign_def only_deletes_def Get_shared_copy)
qed

lemma reset_ok:
  assumes ok: "samples_ok vs h" and i: "i < length vs" and p: "unowned vs p h"
  obtains h' where "SamplePtr_Reset p (vs ! i) h =
      (Ret (\<lparr>dataPtr = Some (length (blocks h))\<rparr>, h') :: ('x, SamplePtr \<times> sample_heap) outcome)"
    "samples_ok (vs[i := \<lparr>dataPtr = Some (length (blocks h))\<rparr>]) h'"
    "released (vs[i := \<lparr>dataPtr = Some (length (blocks h))\<rparr>]) (dataPtr (vs ! i)) (h\<lparr>blocks := blocks h @ [(p, 1)]\<rparr>) h'"
    "only_deletes (vs[i := \<lparr>dataPtr = Some (length (blocks h))\<rparr>]) (vs ! i) (h\<lparr>blocks := blocks h @ [(p, 1)]\<rparr>) h'"
proof -
  let ?v = "\<lparr>dataPtr = Some (length (blocks h))\<rparr>" and ?h = "h\<lparr>blocks := blocks h @ [(p, 1)]\<rparr>"
  have before: "samples_ok (vs[i := ?v] @ [vs ! i]) ?h"
    using from_ok [OF ok p] samples_ok_owners [OF owners_assign [OF i]] by blast
  then obtain h' where "shared_release (dataPtr (vs ! i)) ?h = (Ret h' :: ('x, sample_heap) outcome)"
    "samples_ok (vs[i := ?v]) h'" "released (vs[i := ?v]) (dataPtr (vs ! i)) ?h h'"
    by (rule release_ok)
  with that release_frame [OF before] show thesis by (simp add: SamplePtr_Reset_def shared_from_def)
qed

lemma reset_frame:
  assumes ok: "samples_ok vs h" and i: "i < length vs" and p: "unowned vs p h"
    and del: "only_deletes (vs[i := \<lparr>dataPtr = Some (length (blocks h))\<rparr>]) (vs ! i) (h\<lparr>blocks := blocks h @ [(p, 1)]\<rparr>) h'"
  shows "only_deletes (vs[i := SamplePtr_default]) (vs ! i) h h'"
proof -
  let ?t = "\<lparr>dataPtr = Some (length (blocks h))\<rparr>" and ?h = "h\<lparr>blocks := blocks h @ [(p, 1)]\<rparr>"
  have old: "SamplePtr_Get (vs ! k) ?h = SamplePtr_Get (vs ! k) h" if "k < length vs" for k
    using samples_okD(1) [OF ok owners_pos [OF that]]
    by (auto simp: SamplePtr_Get_def shared_get_def nth_append split: option.split)
  have t: "SamplePtr_Get ?t ?h = p" by (simp add: SamplePtr_Get_def shared_get_def)
  have empty: "SamplePtr_Get SamplePtr_default g = None" for g
    by (simp add: SamplePtr_Get_def SamplePtr_default_def shared_get_def)
  have each: "(\<forall>w \<in> set (vs[i := v]). P w) \<longleftrightarrow> P v \<and> (\<forall>k < length vs. k \<noteq> i \<longrightarrow> P (vs ! k))" for v P
    using i by (auto simp: all_set_conv_all_nth nth_list_update)
  have free: "p \<noteq> Some a" if obj: "SamplePtr_Get (vs ! i) h = Some a" for a
  proof
    assume pa: "p = Some a"
    obtain b where b: "dataPtr (vs ! i) = Some b" "fst (blocks h ! b) = Some a" using obj by (auto simp: Get_Some)
    with p owners_pos [OF i b(1)] show False by (simp add: pa unowned_def)
  qed
  show ?thesis
    using del free i unfolding only_deletes_def each by (auto simp: old t empty simp del: One_nat_def)
qed

lemma move_assign_ok:
  assumes ok: "samples_ok vs h" and i: "i < length vs" and j: "j < length vs" and ij: "i \<noteq> j"
  shows "\<exists>h'. (SamplePtr_move_assign False (vs ! i) (vs ! j) h :: ('x, SamplePtr \<times> SamplePtr \<times> sample_heap) outcome) =
      Ret (vs ! j, SamplePtr_default, h')
    \<and> samples_ok (vs[i := vs ! j, j := SamplePtr_default]) h'
    \<and> only_deletes (vs[i := vs ! j, j := SamplePtr_default]) (vs ! i) h h'"
proof -
  let ?ws = "vs[i := vs ! j, j := SamplePtr_default]"
  have "owners (?ws @ [vs ! i]) b = owners vs b" for b
    using owners_update [of j "vs[i := vs ! j]" SamplePtr_default b] owners_update [OF i, of "vs ! j" b] i j ij
    by (simp add: owners_append SamplePtr_default_def)
  then have "owners (?ws @ [vs ! i]) = owners vs" by (rule ext)
  then have before: "samples_ok (?ws @ [vs ! i]) h" using samples_ok_owners ok by blast
  then obtain h' where "shared_release (dataPtr (vs ! i)) h = (Ret h' :: ('x, sample_heap) outcome)" "samples_ok ?ws h'"
      "released ?ws (dataPtr (vs ! i)) h h'"
    by (rule release_ok)
  with release_frame [OF before] show ?thesis by (simp add: SamplePtr_move_assign_def SamplePtr_default_def)
qed

lemma dtor_ok:
  assumes ok: "samples_ok vs h" and i: "i < length vs"
  obtains h' where "SamplePtr_dtor (vs ! i) h = (Ret h' :: ('x, sample_heap) outcome)"
    "samples_ok (vs[i := SamplePtr_default]) h'" "released (vs[i := SamplePtr_default]) (dataPtr (vs ! i)) h h'"
    "only_deletes (vs[i := SamplePtr_default]) (vs ! i) h h'"
proof -
  have "owners (vs[i := SamplePtr_default] @ [vs ! i]) = owners vs"
    by (rule ext) (simp add: owners_assign [OF i] owners_append SamplePtr_default_def)
  then have before: "samples_ok (vs[i := SamplePtr_default] @ [vs ! i]) h" using samples_ok_owners ok by blast
  then show thesis
    by (rule release_ok) (use that release_frame [OF before] in \<open>simp add: SamplePtr_dtor_def\<close>)
qed

text \<open>What each operation does for the other variables and the object.\<close>

lemma reset_owns:
  assumes ok: "samples_ok vs h" and i: "i < length vs" and p: "unowned vs p h"
  shows "\<exists>t h'. (SamplePtr_Reset p (vs ! i) h :: ('x, SamplePtr \<times> sample_heap) outcome) = Ret (t, h')
    \<and> samples_ok (vs[i := t]) h' \<and> SamplePtr_Get t h' = p \<and> SamplePtr_UseCount t h' = 1
    \<and> only_deletes (vs[i := SamplePtr_default]) (vs ! i) h h'"
proof -
  let ?t = "\<lparr>dataPtr = Some (length (blocks h))\<rparr>" and ?h = "h\<lparr>blocks := blocks h @ [(p, 1)]\<rparr>"
  obtain h' where h': "SamplePtr_Reset p (vs ! i) h = (Ret (?t, h') :: ('x, SamplePtr \<times> sample_heap) outcome)"
    "samples_ok (vs[i := ?t]) h'" "released (vs[i := ?t]) (dataPtr (vs ! i)) ?h h'"
    "only_deletes (vs[i := ?t]) (vs ! i) ?h h'"
    by (rule reset_ok [OF ok i p])
  have "dataPtr (vs ! i) \<noteq> Some (length (blocks h))"
    using samples_okD(1) [OF ok owners_pos [OF i]] by auto
  moreover have "owners vs (length (blocks h)) = 0" using samples_okD(1) [OF ok] by (meson less_irrefl neq0_conv)
  ultimately have "owners (vs[i := ?t]) (length (blocks h)) = 1"
    using owners_update [OF i, of ?t "length (blocks h)"] by simp
  then have "SamplePtr_UseCount ?t h' = 1"
    using use_count_owners [OF h'(2), of ?t] i by (simp add: set_update_memI)
  moreover have "SamplePtr_Get ?t h' = p"
    using released_get [OF h'(3), of ?t "length (blocks h)"]
    by (simp add: SamplePtr_Get_def shared_get_def)
  ultimately show ?thesis using h' reset_frame [OF ok i p h'(4)] by blast
qed

lemma dtor_deletes:
  assumes ok: "samples_ok vs h" and i: "i < length vs"
  shows "\<exists>h'. (SamplePtr_dtor (vs ! i) h :: ('x, sample_heap) outcome) = Ret h'
    \<and> samples_ok (vs[i := SamplePtr_default]) h'
    \<and> (\<forall>a. SamplePtr_Get (vs ! i) h = Some a \<longrightarrow>
          alive h ! a \<and> (alive h' ! a \<longleftrightarrow> SamplePtr_UseCount (vs ! i) h > 1))
    \<and> only_deletes (vs[i := SamplePtr_default]) (vs ! i) h h'"
proof -
  obtain h' where h': "SamplePtr_dtor (vs ! i) h = (Ret h' :: ('x, sample_heap) outcome)"
    "samples_ok (vs[i := SamplePtr_default]) h'" "released (vs[i := SamplePtr_default]) (dataPtr (vs ! i)) h h'"
    "only_deletes (vs[i := SamplePtr_default]) (vs ! i) h h'"
    by (rule dtor_ok [OF ok i])
  have "alive h ! a \<and> (alive h' ! a \<longleftrightarrow> SamplePtr_UseCount (vs ! i) h > 1)"
    if a: "SamplePtr_Get (vs ! i) h = Some a" for a
  proof -
    obtain b where b: "dataPtr (vs ! i) = Some b" "fst (blocks h ! b) = Some a"
      using a by (auto simp: SamplePtr_Get_def shared_get_def split: option.splits)
    have "SamplePtr_UseCount (vs ! i) h = Suc (owners (vs[i := SamplePtr_default]) b)"
      using use_count_owners [OF ok _ b(1)] owners_update [OF i, of SamplePtr_default b] i b(1)
      by (simp add: SamplePtr_default_def)
    moreover have "a < length (alive h)" "alive h ! a"
      using samples_okD(3) [OF ok owners_pos [OF i b(1)] b(2)] by simp_all
    ultimately show ?thesis using h'(3) b by (auto simp: released_def)
  qed
  with h' show ?thesis by blast
qed

lemma copy_ctor_shares:
  assumes ok: "samples_ok vs h" and i: "i < length vs"
  shows "let (t, h') = SamplePtr_copy_ctor (vs ! i) h
    in samples_ok (vs @ [t]) h' \<and> SamplePtr_Get t h' = SamplePtr_Get (vs ! i) h
       \<and> alive h' = alive h \<and> (\<forall>v. SamplePtr_Get v h' = SamplePtr_Get v h)"
proof -
  have "SamplePtr_Get \<lparr>dataPtr = dataPtr (vs ! i)\<rparr> g = SamplePtr_Get (vs ! i) g" for g
    by (simp add: SamplePtr_Get_def)
  with copy_ok [OF ok i] show ?thesis
    by (simp add: SamplePtr_copy_ctor_def Get_shared_copy)
qed

lemma move_ctor_hands_over:
  assumes ok: "samples_ok vs h" and i: "i < length vs"
  shows "let (t, u) = SamplePtr_move_ctor (vs ! i)
    in samples_ok (vs[i := u] @ [t]) h \<and> SamplePtr_Get t h = SamplePtr_Get (vs ! i) h
       \<and> SamplePtr_UseCount t h = SamplePtr_UseCount (vs ! i) h \<and> SamplePtr_get u h = None"
proof -
  have "owners (vs[i := SamplePtr_default] @ [vs ! i]) = owners vs"
    by (rule ext) (simp add: owners_assign [OF i] owners_append SamplePtr_default_def)
  with ok have "samples_ok (vs[i := SamplePtr_default] @ [vs ! i]) h" using samples_ok_owners by blast
  moreover have "SamplePtr_move_ctor (vs ! i) = (vs ! i, SamplePtr_default)"
    by (cases "vs ! i") (simp add: SamplePtr_move_ctor_def SamplePtr_default_def)
  moreover have "SamplePtr_get SamplePtr_default h = None"
    by (simp add: SamplePtr_get_def SamplePtr_default_def shared_get_def)
  ultimately show ?thesis by simp
qed

section \<open>The properties\<close>

text \<open>
  C27. Construction and assignment, by copy and by move, \<open>Reset\<close> with an object nobody owns and
  destruction return, keep the counts and the ownership right, and leave every other pointer
  referring to what it referred to; the only object an operation deletes is the one the changed
  pointer gave up, exactly when no pointer that is left refers to it. The two getters agree. \<open>UseCount\<close> is the number of
  pointers that share the sample, and a destructor deletes the sample exactly when no other
  pointer shares it.
\<close>

theorem SamplePtr_ownership:
  assumes ok: "samples_ok vs h" and i: "i < length vs" and j: "j < length vs" and p: "unowned vs p h"
  shows "(\<exists>h'. (SamplePtr_copy_assign (vs ! i) (vs ! j) h :: ('x, SamplePtr \<times> sample_heap) outcome) = Ret (vs ! j, h')
            \<and> samples_ok (vs[i := vs ! j]) h' \<and> only_deletes (vs[i := vs ! j]) (vs ! i) h h')
       \<and> (\<exists>t h'. (SamplePtr_Reset p (vs ! i) h :: ('x, SamplePtr \<times> sample_heap) outcome) = Ret (t, h')
            \<and> samples_ok (vs[i := t]) h' \<and> SamplePtr_Get t h' = p \<and> SamplePtr_UseCount t h' = 1
            \<and> only_deletes (vs[i := SamplePtr_default]) (vs ! i) h h')
       \<and> (\<exists>h'. (SamplePtr_dtor (vs ! i) h :: ('x, sample_heap) outcome) = Ret h'
            \<and> samples_ok (vs[i := SamplePtr_default]) h'
            \<and> (\<forall>a. SamplePtr_Get (vs ! i) h = Some a \<longrightarrow>
                  alive h ! a \<and> (alive h' ! a \<longleftrightarrow> SamplePtr_UseCount (vs ! i) h > 1))
            \<and> only_deletes (vs[i := SamplePtr_default]) (vs ! i) h h')
       \<and> (i \<noteq> j \<longrightarrow> (\<exists>h'. (SamplePtr_move_assign False (vs ! i) (vs ! j) h
               :: ('x, SamplePtr \<times> SamplePtr \<times> sample_heap) outcome) = Ret (vs ! j, SamplePtr_default, h')
            \<and> samples_ok (vs[i := vs ! j, j := SamplePtr_default]) h'
            \<and> only_deletes (vs[i := vs ! j, j := SamplePtr_default]) (vs ! i) h h'))
       \<and> (let (t, h') = SamplePtr_copy_ctor (vs ! i) h
           in samples_ok (vs @ [t]) h' \<and> SamplePtr_Get t h' = SamplePtr_Get (vs ! i) h
              \<and> alive h' = alive h \<and> (\<forall>v. SamplePtr_Get v h' = SamplePtr_Get v h))
       \<and> (let (t, u) = SamplePtr_move_ctor (vs ! i)
           in samples_ok (vs[i := u] @ [t]) h \<and> SamplePtr_Get t h = SamplePtr_Get (vs ! i) h
              \<and> SamplePtr_UseCount t h = SamplePtr_UseCount (vs ! i) h \<and> SamplePtr_get u h = None)
       \<and> SamplePtr_get (vs ! i) h = SamplePtr_Get (vs ! i) h
       \<and> (\<forall>b. dataPtr (vs ! i) = Some b \<longrightarrow> SamplePtr_UseCount (vs ! i) h = owners vs b)"
  by (intro conjI impI assign_ok [OF ok i j] reset_owns [OF ok i p] dtor_deletes [OF ok i]
      move_assign_ok [OF ok i j] copy_ctor_shares [OF ok i] move_ctor_hands_over [OF ok i])
    (use use_count_owners [OF ok] i in \<open>simp_all add: SamplePtr_get_def SamplePtr_Get_def\<close>)

text \<open>Two pointers that share object 0, object 1 free.\<close>

definition sample_heap_example :: sample_heap where
  "sample_heap_example = \<lparr>alive = [True, True], blocks = [(Some 0, 2)]\<rparr>"

lemma sample_example_ok:
  "samples_ok [\<lparr>dataPtr = Some 0\<rparr>, \<lparr>dataPtr = Some 0\<rparr>] sample_heap_example"
  "unowned [\<lparr>dataPtr = Some 0\<rparr>, \<lparr>dataPtr = Some 0\<rparr>] (Some 1) sample_heap_example"
  by (auto simp: samples_ok_def unowned_def owners_def sample_heap_example_def split: if_splits)

theorem SamplePtr_ownership_witness:
  "\<exists>t h'. (SamplePtr_Reset (Some 1) \<lparr>dataPtr = Some 0\<rparr> sample_heap_example :: (unit, _) outcome) = Ret (t, h')
     \<and> SamplePtr_Get t h' = Some 1 \<and> SamplePtr_UseCount t h' = 1"
  using SamplePtr_ownership [OF sample_example_ok(1) _ _ sample_example_ok(2), of 0 1] by auto

text \<open>
  \<open>Reset\<close> has two traps. \<open>Reset()\<close> leaves a pointer without object whose \<open>UseCount\<close> is 1, where an
  empty \<open>SamplePtr\<close> has 0, because the null pointer gets a control block too. And \<open>Reset(Get())\<close> on
  the only owner deletes the sample and keeps its address: the destructor deletes it again.
\<close>

theorem SamplePtr_Reset_traps:
  assumes ok: "samples_ok vs h" and i: "i < length vs" and a: "SamplePtr_Get (vs ! i) h = Some a"
    and one: "SamplePtr_UseCount (vs ! i) h = 1"
  shows "SamplePtr_UseCount SamplePtr_default h = 0
       \<and> (\<exists>t h'. (SamplePtr_Reset None SamplePtr_default h :: ('x, SamplePtr \<times> sample_heap) outcome) = Ret (t, h')
            \<and> SamplePtr_Get t h' = None \<and> SamplePtr_UseCount t h' = 1)
       \<and> (\<exists>t h'. (SamplePtr_Reset (SamplePtr_Get (vs ! i) h) (vs ! i) h :: ('x, SamplePtr \<times> sample_heap) outcome) = Ret (t, h')
            \<and> SamplePtr_Get t h' = Some a \<and> \<not> alive h' ! a
            \<and> (SamplePtr_dtor t h' :: ('x, sample_heap) outcome) = Undefined)"
proof -
  obtain b where b: "dataPtr (vs ! i) = Some b" "fst (blocks h ! b) = Some a"
    using a by (auto simp: SamplePtr_Get_def shared_get_def split: option.splits)
  have own: "0 < owners vs b" by (rule owners_pos [OF i b(1)])
  have len: "b < length (blocks h)" and alive: "a < length (alive h)" "alive h ! a"
    using samples_okD(1) [OF ok own] samples_okD(3) [OF ok own b(2)] by simp_all
  have "snd (blocks h ! b) = 1" using one b(1) by (simp add: SamplePtr_UseCount_def shared_use_count_def)
  then show ?thesis
    using b len alive
    by (simp add: SamplePtr_Reset_def shared_from_def SamplePtr_default_def SamplePtr_UseCount_def
        shared_use_count_def shared_release_def SamplePtr_Get_def shared_get_def nth_append
        delete_object_def SamplePtr_dtor_def Let_def)
qed

theorem SamplePtr_Reset_traps_witness:
  "\<exists>t h'. (SamplePtr_Reset (Some 0) \<lparr>dataPtr = Some 0\<rparr> \<lparr>alive = [True], blocks = [(Some 0, 1)]\<rparr> :: (unit, _) outcome) = Ret (t, h')
     \<and> (SamplePtr_dtor t h' :: (unit, _) outcome) = Undefined"
proof -
  have "samples_ok [\<lparr>dataPtr = Some 0\<rparr>] \<lparr>alive = [True], blocks = [(Some 0, 1)]\<rparr>"
    by (auto simp: samples_ok_def owners_def split: if_splits)
  from SamplePtr_Reset_traps [OF this, of 0 0] show ?thesis
    by (auto simp: SamplePtr_Get_def shared_get_def SamplePtr_UseCount_def shared_use_count_def)
qed

end
