(* ===== verification/Codelabs.thy ===== *)
theory Codelabs
  imports Optional Result_Void Future_Correct
begin

text \<open>
  The demonstration programs of \<open>codelabs/core\<close> that are well-formed in themselves, put together
  from the models of the library, those that include \<open>result.h\<close> with its two typing slips repaired: what
  each of them prints. A program that returns gives its output as a string. The
  programs with two threads are given as the parts each thread runs, and the order of the parts
  is explicit. \<open>sleep\<close> has no effect but on that order.
\<close>

section \<open>Output\<close>

definition nl :: string where
  "nl = [CHR 0x0A]"

text \<open>\<open>%s\<close>: the characters up to the terminating NUL.\<close>

definition printed :: "char_ptr \<Rightarrow> (cxx_exn, string) outcome" where
  "printed p =
     (case p of
        None \<Rightarrow> Undefined
      | Some cs \<Rightarrow> obind (char_traits_length cs) (\<lambda>n. Ret (take n cs)))"

text \<open>\<open>%d\<close>.\<close>

definition show_int32 :: "int32_t \<Rightarrow> string" where
  "show_int32 i = show_int (sint i)"

definition printed_message :: "ErrorCode \<Rightarrow> (cxx_exn, string) outcome" where
  "printed_message ec = obind (ErrorCode_Message ec) (\<lambda>sv. printed (StringView_data sv))"

lemma printed_c_str [simp]: "CHR 0x00 \<notin> set s \<Longrightarrow> printed (c_str s) = Ret s"
proof -
  assume "CHR 0x00 \<notin> set s"
  then have "first_index (CHR 0x00) (s @ [CHR 0x00]) = length s"
    by (induction s) auto
  then show ?thesis by (simp add: printed_def c_str_def char_traits_length_def)
qed

lemma data_of_view:
  assumes "CHR 0x00 \<in> set cs"
  shows "obind (StringView_from_ptr (Some cs)) (\<lambda>sv. f (StringView_data sv)) = f (Some cs)"
  using assms
  by (simp add: StringView_from_ptr_def char_traits_length_def StringView_ctor_def StringView_data_def)

lemma printed_message_eq:
  assumes "CHR 0x00 \<notin> set (ErrorDomain_Message (ErrorCode_Domain ec) (ErrorCode_Value ec))"
  shows "printed_message ec = Ret (ErrorDomain_Message (ErrorCode_Domain ec) (ErrorCode_Value ec))"
  using printed_c_str [OF assms]
  by (simp add: printed_message_def ErrorCode_Message_def c_str_def data_of_view)

section \<open>testErrorCode, testOptional, testResult, testStringView\<close>

definition testErrorCode_main :: "(cxx_exn, string) outcome" where
  "testErrorCode_main =
     (let domain = CoreErrorDomain;
          code = ErrorCode_ctor (CoreErrc_code kInvalidMetaModelPath) domain 0;
          code1 = ErrorCode_of_enum MakeErrorCode_future future_already_retrieved 0
      in obind (printed_message code) (\<lambda>m.
         obind (printed_message code1) (\<lambda>m1.
           Ret (''message:'' @ m @ nl @ ''message:'' @ m1 @ nl))))"

definition testOptional_main :: "(cxx_exn, string) outcome" where
  "testOptional_main =
     (let (r, v, _) = Optional_assign_value scalar_ops () False Optional_default (100 :: int32_t)
      in obind r (\<lambda>_. obind (Optional_deref v) (\<lambda>x.
           Ret (''init:'' @ (if Optional_has_value v then ''1'' else ''0'') @
                '' value:'' @ show_int32 x))))"

definition sayHello :: "(cxx_exn, ErrorCode Result_void) outcome" where
  "sayHello =
     (let code = ErrorCode_of_enum MakeErrorCode_core kInvalidMetaModelPath 0
      in obind (RV_of_error_lvalue scalar_ops code) (\<lambda>err.
         obind (RV_move_ctor scalar_ops err) (\<lambda>(result, _). Ret result)))"

definition testResult_main :: "(cxx_exn, string) outcome" where
  "testResult_main =
     obind (Result_of_value_rvalue scalar_ops scalar_ops 1) (\<lambda>(result :: (int32_t, ErrorCode) Result, _).
     obind (Value_const scalar_ops scalar_ops result) (\<lambda>v.
     let code = ErrorCode_of_enum MakeErrorCode_core kInvalidMetaModelPath 0
     in obind (RV_of_error_lvalue scalar_ops code) (\<lambda>err.
        obind (RV_Error_const scalar_ops err) (\<lambda>e.
        obind (printed_message e) (\<lambda>m.
        obind sayHello (\<lambda>xx.
        obind (RV_Error_const scalar_ops xx) (\<lambda>e2.
        obind (ErrorCode_Message e2) (\<lambda>_.
          Ret (show_int32 v @ nl @ '' '' @ m @ nl)))))))))"

definition spaced :: "string \<Rightarrow> string" where
  "spaced s = concat (map (\<lambda>c. [c, CHR '' '']) s)"

definition testStringView_main :: "(cxx_exn, string) outcome" where
  "testStringView_main =
     (let sv = StringView_ctor (c_str ''hello,world'') 5
      in obind (StringView_chars sv) (\<lambda>cs.
         obind (StringView_rchars sv) (\<lambda>rcs.
           Ret (spaced cs @ nl @ spaced rcs @ nl))))"

section \<open>testPromise\<close>

text \<open>Up to the creation of the thread \<open>a\<close>: the promise and its future.\<close>

definition testPromise_start :: "(int32_t, 'f, addr \<times> Future) proc" where
  "testPromise_start =
     pbind Promise_ctor (\<lambda>promise. pbind (Promise_get_future promise) (\<lambda>f. pret (promise, f)))"

text \<open>The thread \<open>a\<close>.\<close>

definition testPromise_a :: "(int32_t, 'f) fire \<Rightarrow> addr \<Rightarrow> (int32_t, 'f, unit) proc" where
  "testPromise_a fire promise =
     Promise_SetError_rvalue fire promise
       (ErrorCode_of_enum MakeErrorCode_future future_already_retrieved 0)"

text \<open>What \<open>main\<close> does with the future after \<open>a.detach()\<close>.\<close>

definition testPromise_report :: "(int32_t val, ErrorCode) Result \<Rightarrow> (cxx_exn, string) outcome" where
  "testPromise_report res =
     obind (CheckError scalar_ops scalar_ops ErrorCode_eq
              (Ret (ErrorCode_of_enum MakeErrorCode_future future_already_retrieved 0)) res)
       (\<lambda>same.
          if same
          then obind (Error_const scalar_ops scalar_ops res) (\<lambda>e.
               obind (printed_message e) (\<lambda>m. Ret (m @ nl)))
          else obind (Value_const scalar_ops scalar_ops res) (\<lambda>v.
               case v of Val i \<Rightarrow> Ret (show_int32 i @ nl) | Void \<Rightarrow> Undefined))"

definition testPromise_finish :: "Future \<Rightarrow> (int32_t, 'f) heap \<Rightarrow> (cxx_exn, string) outcome" where
  "testPromise_finish f h =
     obind (Future_wait f h) (\<lambda>_.
     obind (fst (Future_GetResult f h)) (\<lambda>r. testPromise_report (Result_rep r)))"

section \<open>future_test\<close>

text \<open>\<open>setval\<close>: the exception thrown for 0 is caught and handed to the promise.\<close>

definition setval :: "addr option \<Rightarrow> int32_t \<Rightarrow> (int32_t, 'f, unit) proc" where
  "setval p a =
     pcatch
       (if a = 0 then pfail (Throws (StdException ''set value 0 not perimted''))
        else std_set p (Stored (HasV (Val a))))
       (\<lambda>e. Some (std_set p (StoredException e)))"

text \<open>\<open>what\<close> of the exceptions derived from \<open>std::exception\<close>; \<open>future_what\<close> is the library's text.\<close>

fun exn_what :: "(int \<Rightarrow> string) \<Rightarrow> cxx_exn \<Rightarrow> string option" where
  "exn_what future_what (StdException s) = Some s"
| "exn_what future_what (AraException e) = Some (Exception_what e)"
| "exn_what future_what (StdFutureError c) = Some (future_what c)"
| "exn_what future_what NonStdException = None"

definition CallFuture1_try ::
  "(int \<Rightarrow> string) \<Rightarrow> std_future \<Rightarrow> (int32_t, 'f) heap \<Rightarrow> (cxx_exn, string) outcome" where
  "CallFuture1_try future_what fut h =
     (case fst (std_get fut h) of
        Ret r \<Rightarrow> (case r of HasV (Val i) \<Rightarrow> Ret (''fut get value: '' @ show_int32 i @ nl) | _ \<Rightarrow> Undefined)
      | Throws ex \<Rightarrow>
          (case exn_what future_what ex of Some s \<Rightarrow> Ret (s @ nl) | None \<Rightarrow> Throws ex)
      | other \<Rightarrow> obind other (\<lambda>_. Ret ''''))"

text \<open>
  \<open>CallFuture1\<close> for any argument of its thread, which the source calls with 2. \<open>get\<close> returns only when
  the thread has set, so the thread's part comes before it.
\<close>

definition CallFuture1 :: "(int \<Rightarrow> string) \<Rightarrow> int32_t \<Rightarrow> (int32_t, 'f, string) proc" where
  "CallFuture1 future_what a =
     pbind new_shared (\<lambda>prom.
     pbind (std_get_future (Some prom)) (\<lambda>fut.
     pbind (setval (Some prom) a) (\<lambda>_ h.
       (CallFuture1_try future_what fut h, h))))"

definition thread_task :: "addr option \<Rightarrow> int32_t \<Rightarrow> (int32_t, 'f, string) proc" where
  "thread_task pro i =
     pbind (std_set pro (Stored (HasV (Val i)))) (\<lambda>_. pret (''thread_task'' @ show_int32 i @ nl))"

definition CallFuture4 :: "(int32_t, 'f, string) proc" where
  "CallFuture4 =
     pbind new_shared (\<lambda>pro.
     pbind (thread_task (Some pro) 5) (\<lambda>out.
     pbind (std_get_future (Some pro)) (\<lambda>fut h.
       (obind (std_wait_status fut h) (\<lambda>status.
        obind (fst (std_get fut h)) (\<lambda>r.
          case r of
            HasV (Val i) \<Rightarrow>
              Ret (out @
                   (case status of Std_ready \<Rightarrow> ''ready'' | Std_timeout \<Rightarrow> ''timeout'' | Std_deferred \<Rightarrow> ''deferred'') @
                   nl @ show_int32 i @ nl)
          | _ \<Rightarrow> Undefined)), h))))"

section \<open>What they print\<close>

lemma message_path:
  "printed_message (ErrorCode_ctor (CoreErrc_code kInvalidMetaModelPath) CoreErrorDomain data) =
     Ret ''Invalid meta model path''"
proof -
  have "ErrorDomain_Message CoreErrorDomain (CoreErrc_code kInvalidMetaModelPath) = ''Invalid meta model path''"
    by (simp add: core_domain_defs)
  then show ?thesis
    by (subst printed_message_eq) (simp_all add: ErrorCode_ctor_def ErrorCode_Domain_def ErrorCode_Value_def)
qed

lemma message_retrieved:
  "printed_message (MakeErrorCode_future future_already_retrieved data) = Ret ''future already retrieved''"
proof -
  have "ErrorDomain_Message FutureErrorDomain (future_errc_code future_already_retrieved) = ''future already retrieved''"
    by (simp add: future_domain_defs)
  then show ?thesis
    by (subst printed_message_eq)
      (simp_all add: MakeErrorCode_future_def GetFutureErrorDomain_def ErrorCode_ctor_def
        ErrorCode_Domain_def ErrorCode_Value_def)
qed

lemma testErrorCode_prints:
  "testErrorCode_main =
     Ret (''message:Invalid meta model path'' @ nl @ ''message:future already retrieved'' @ nl)"
  unfolding testErrorCode_main_def Let_def message_path ErrorCode_of_enum_def message_retrieved
  by simp

lemma testOptional_prints: "testOptional_main = Ret ''init:1 value:100''"
proof -
  have "show_int32 100 = ''100''" by code_simp
  then show ?thesis
    by (simp add: testOptional_main_def Optional_assign_value_def construct_from_def scalar_ops_def
        Optional_default_def Optional_deref_def deref_val_def Optional_has_value_def)
qed

lemma prim_of_error: "RV_of_error_lvalue scalar_ops e = Ret \<lparr>v_mData = mData (Result_rep (HasE e))\<rparr>"
  using void_result.constructors(3) [of e]
  by (auto simp: RV_of_error_lvalue_def Result_of_error_lvalue_def obind_eq_Ret
      dest!: arg_cong [where f = mData] split: prod.splits)

lemma sayHello_eq:
  "sayHello = Ret \<lparr>v_mData = mData (Result_rep (HasE (MakeErrorCode_core kInvalidMetaModelPath 0)))\<rparr>"
  using void_result.move_ctor_Result [of "Result_rep (HasE (MakeErrorCode_core kInvalidMetaModelPath 0))"]
  by (auto simp: sayHello_def ErrorCode_of_enum_def prim_of_error RV_move_ctor_def Result_move_ctor_def
      obind_eq_Ret dest!: arg_cong [where f = mData] split: prod.splits)

lemma testResult_prints: "testResult_main = Ret (''1'' @ nl @ '' Invalid meta model path'' @ nl)"
proof -
  let ?e = "MakeErrorCode_core kInvalidMetaModelPath 0"
  have one: "show_int32 1 = ''1''" by code_simp
  have err: "RV_Error_const scalar_ops \<lparr>v_mData = mData (Result_rep (HasE e))\<rparr> = Ret e" for e :: ErrorCode
    by (simp add: RV_Error_const_eq Error_const_abs)
  have "printed_message ?e = Ret ''Invalid meta model path''"
    using message_path [of 0] by (simp add: MakeErrorCode_core_def GetCoreErrorDomain_def)
  moreover from this have "returns (ErrorCode_Message ?e :: (cxx_exn, StringView) outcome)"
    by (auto simp: printed_message_def obind_eq_Ret)
  ultimately show ?thesis
    by (auto simp: testResult_main_def scalar_result.constructors Value_const_abs
        ErrorCode_of_enum_def prim_of_error err sayHello_eq one returns_def)
qed

lemma testStringView_prints:
  "testStringView_main = Ret (''h e l l o '' @ nl @ ''o l l e h '' @ nl)"
  by code_simp

lemma new_shared_get:
  "pbind new_shared (\<lambda>p. pbind (std_get_future (Some p)) (f p)) h =
     f (length (shared h)) (Some (length (shared h)))
       (h\<lparr>shared := shared h @ [\<lparr>content = Pending, retrieved = True\<rparr>]\<rparr>)"
  by (simp add: pbind_def new_shared_def std_get_future_def)

lemma CallFuture1_prints:
  "fst (CallFuture1 future_what a h) =
     Ret ((if a = 0 then ''set value 0 not perimted'' else ''fut get value: '' @ show_int32 a) @ nl)"
  unfolding CallFuture1_def new_shared_get
  by (simp add: pbind_def setval_def pcatch_def pfail_def std_set_def CallFuture1_try_def std_get_def)

lemma CallFuture4_prints:
  "fst (CallFuture4 h) = Ret (''thread_task5'' @ nl @ ''ready'' @ nl @ ''5'' @ nl)"
proof -
  have "show_int32 5 = ''5''" by code_simp
  then show ?thesis
    by (simp add: CallFuture4_def pbind_def pret_def new_shared_def thread_task_def std_set_def
        std_get_future_def std_wait_status_def std_get_def)
qed

section \<open>Two threads\<close>

text \<open>The heap after the start, and the one between the store and the continuation of \<open>a\<close>.\<close>

definition started :: "(int32_t, 'f) heap \<Rightarrow> (int32_t, 'f) heap" where
  "started h = snd (testPromise_start h)"

definition half_done :: "(int32_t, 'f) heap \<Rightarrow> (int32_t, 'f) heap" where
  "half_done h =
     store (length (shared h)) (Stored (HasE (MakeErrorCode_future future_already_retrieved 0)))
       (locked (length (promises h)) (started h))"

lemma testPromise_start_eq:
  "testPromise_start h =
     (Ret (length (promises h), Future_ctor (Some (length (shared h))) (Some (length (states h)))), started h)"
  "owns (started h) (length (promises h)) (length (shared h)) (length (states h))"
  "content_at (started h) (length (shared h)) = Pending"
  "unique_continuation (states (started h) ! length (states h)) = None"
  by (simp_all add: started_def testPromise_start_def pbind_def Promise_ctor_def new_shared_def
      State_ctor_def new_promise_def Promise_get_future_def promise_at_def std_get_future_def
      pret_def owns_def content_at_def)

lemma testPromise_report_eq:
  "testPromise_report (Result_rep (HasE (MakeErrorCode_future future_already_retrieved data))) =
     Ret (''future already retrieved'' @ nl)"
  "testPromise_report (Result_rep (HasV (Val i))) = Ret (show_int32 i @ nl)"
proof -
  have "ErrorCode_eq (MakeErrorCode_future f data) (MakeErrorCode_future f 0)" for f
    by (simp add: ErrorCode_eq_def ErrorDomain_eq_def MakeErrorCode_future_def ErrorCode_ctor_def
        ErrorCode_Domain_def ErrorCode_Value_def)
  then show "testPromise_report (Result_rep (HasE (MakeErrorCode_future future_already_retrieved data))) =
      Ret (''future already retrieved'' @ nl)"
    by (simp add: testPromise_report_def CheckError_def Error_const_abs HasValue_abs
        ErrorCode_of_enum_def message_retrieved)
qed (simp add: testPromise_report_def CheckError_def Value_const_abs HasValue_abs)

lemma testPromise_finish_eq:
  "testPromise_finish (Future_ctor (Some a) es) h =
     (case content_at h a of
        Pending \<Rightarrow> Blocks
      | Stored r \<Rightarrow> testPromise_report (Result_rep r)
      | StoredException ex \<Rightarrow>
          obind (fst (Future_GetResult (Future_ctor (Some a) es) h)) (\<lambda>r. testPromise_report (Result_rep r)))"
  by (simp add: testPromise_finish_def Future_wait_def std_wait_def Future_ctor_def GetResult_eq
      content_at_def split: content.split)

lemma testPromise_a_done:
  "testPromise_a (fire_within cbs (Suc n)) (length (promises h)) (started h) =
     (Ret (), store (length (shared h))
        (Stored (HasE (MakeErrorCode_future future_already_retrieved 0))) (started h))"
  unfolding testPromise_a_def settle_cases ErrorCode_of_enum_def
  by (rule settle_quiet) (rule testPromise_start_eq)+

lemma testPromise_prints:
  "\<exists>p f h1 h2. testPromise_start h = (Ret (p, f), h1)
     \<and> testPromise_finish f h1 = Blocks
     \<and> testPromise_a (fire_within cbs (Suc n)) p h1 = (Ret (), h2)
     \<and> testPromise_finish f h2 = Ret (''future already retrieved'' @ nl)
     \<and> (\<exists>h'. std_set (delegate_promise (promise_at h1 p))
               (Stored (HasE (MakeErrorCode_future future_already_retrieved 0)))
               (set_promise p ((promise_at h1 p)\<lparr>mutex_held := True\<rparr>) h1) = (Ret (), h')
          \<and> mutex_held (promise_at h' p)
          \<and> testPromise_finish f h' = Ret (''future already retrieved'' @ nl))"
proof -
  let ?p = "length (promises h)" and ?a = "length (shared h)"
  let ?f = "Future_ctor (Some ?a) (Some (length (states h)))"
  note start = testPromise_start_eq [of h]
  have owned: "delegate_promise (promise_at (started h) ?p) = Some ?a" "?a < length (shared (started h))"
      "?p < length (promises (started h))"
    using start(2) by (simp_all add: owns_def promise_at_def)
  have "std_set (Some ?a) (Stored (HasE (MakeErrorCode_future future_already_retrieved 0)))
      (locked ?p (started h)) = (Ret (), half_done h)"
    using start(3) by (simp add: std_set_eq half_done_def)
  moreover have "mutex_held (promise_at (half_done h) ?p)"
    using owned(3) by (simp add: half_done_def store_locked) (simp add: locked_def promise_at_set)
  moreover have "testPromise_finish ?f (half_done h) = Ret (''future already retrieved'' @ nl)"
    using owned(2) by (simp add: testPromise_finish_eq half_done_def testPromise_report_eq)
  moreover have "testPromise_finish ?f (store ?a (Stored (HasE (MakeErrorCode_future future_already_retrieved 0)))
      (started h)) = Ret (''future already retrieved'' @ nl)"
    using owned(2) by (simp add: testPromise_finish_eq testPromise_report_eq)
  moreover have "testPromise_finish ?f (started h) = Blocks"
    using start(3) by (simp add: testPromise_finish_eq)
  ultimately show ?thesis
    using start(1) testPromise_a_done [of cbs n h] owned(1)
    by (fold locked_def) metis
qed

end
