(* ===== verification/Future_Programs.thy ===== *)
theory Future_Programs
  imports Codelabs
begin

text \<open>
  The rest of \<open>future_test.cpp\<close>: packaged tasks, \<open>async\<close> and shared futures, with the threads of
  \<open>CallFuture4_1\<close> and \<open>CallFuture5\<close> as step relations. The classes of \<open><future>\<close> follow the
  C++ standard. \<open>sleep\<close> has no effect but on the order of the steps.
\<close>

section \<open>Signed arithmetic\<close>

text \<open>An overflow of \<open>int\<close> is undefined.\<close>

definition int_result :: "int \<Rightarrow> (cxx_exn, int32_t) outcome" where
  "int_result x = (if - (2 ^ 31) \<le> x \<and> x < 2 ^ 31 then Ret (word_of_int x) else Undefined)"

lemma sint_word_of_int32: "- (2 ^ 31) \<le> x \<Longrightarrow> x < 2 ^ 31 \<Longrightarrow> sint (word_of_int x :: int32_t) = x"
  by (simp add: sint_sbintrunc' signed_take_bit_int_eq_self)

section \<open>Tasks\<close>

text \<open>A call of a \<open>std::packaged_task\<close>: what the function returns or throws goes into the state.\<close>

definition task_call :: "addr option \<Rightarrow> (cxx_exn, 'v) outcome \<Rightarrow> ('v, 'f, unit) proc" where
  "task_call task r =
     (case r of
        Ret v \<Rightarrow> std_set task (Stored (HasV (Val v)))
      | Throws ex \<Rightarrow> std_set task (StoredException ex)
      | Terminates t \<Rightarrow> pfail (Terminates t)
      | Undefined \<Rightarrow> pfail Undefined
      | Blocks \<Rightarrow> pfail Blocks)"

text \<open>\<open>get\<close> of a future of a value; a shared future keeps its handle.\<close>

definition got :: "std_future \<Rightarrow> ('v, 'f) heap \<Rightarrow> (cxx_exn, 'v) outcome" where
  "got fut h =
     obind (fst (std_get fut h)) (\<lambda>r. case r of HasV (Val v) \<Rightarrow> Ret v | _ \<Rightarrow> Undefined)"

definition show_got :: "std_future \<Rightarrow> (int32_t, 'f) heap \<Rightarrow> (cxx_exn, string) outcome" where
  "show_got fut h = obind (got fut h) (\<lambda>i. Ret (show_int32 i @ nl))"

definition CallFuture2_task :: "int32_t \<Rightarrow> (cxx_exn, int32_t) outcome" where
  "CallFuture2_task a = int_result (42 + sint a)"

text \<open>The thread that \<open>task\<close> moves to gets the argument; \<open>main\<close> gets when it has run.\<close>

definition CallFuture2 :: "int32_t \<Rightarrow> (int32_t, 'f, string) proc" where
  "CallFuture2 a =
     pbind new_shared (\<lambda>task.
     pbind (std_get_future (Some task)) (\<lambda>future.
     pbind (task_call (Some task) (CallFuture2_task a)) (\<lambda>_ h.
       (show_got future h, h))))"

definition CallFuture2_1 :: "(int32_t, 'f, string) proc" where
  "CallFuture2_1 =
     pbind new_shared (\<lambda>task.
     pbind (std_get_future (Some task)) (\<lambda>f.
     pbind (task_call (Some task) (Ret 1)) (\<lambda>_ h.
       (obind (show_got f h) (\<lambda>s. Ret (''You can see this after 1 second'' @ nl @ s)), h))))"

text \<open>
  \<open>std::async\<close> without a policy: the library starts a thread or leaves the function to the
  first \<open>get\<close>, which runs it and stores what it gives.
\<close>

datatype 'v async_task = Started addr | Deferred addr "(cxx_exn, 'v) outcome"

definition std_async :: "bool \<Rightarrow> (cxx_exn, 'v) outcome \<Rightarrow> ('v, 'f, 'v async_task) proc" where
  "std_async deferred r =
     pbind new_shared (\<lambda>a. if deferred then pret (Deferred a r)
       else pbind (task_call (Some a) r) (\<lambda>_. pret (Started a)))"

definition run_deferred :: "'v async_task \<Rightarrow> ('v, 'f, std_future) proc" where
  "run_deferred t =
     (case t of
        Started a \<Rightarrow> pret (Some a)
      | Deferred a r \<Rightarrow> pbind (task_call (Some a) r) (\<lambda>_. pret (Some a)))"

definition CallFuture3 :: "bool \<Rightarrow> (int32_t, 'f, string) proc" where
  "CallFuture3 deferred =
     pbind (std_async deferred (Ret 42)) (\<lambda>future.
     pbind (run_deferred future) (\<lambda>f h. (show_got f h, h)))"

definition CallFuture5_1 :: "bool \<Rightarrow> (int32_t, 'f, string) proc" where
  "CallFuture5_1 deferred =
     pbind (std_async deferred (Ret 10)) (\<lambda>fut.
     pbind (run_deferred fut) (\<lambda>shared_fut h.
       (obind (got shared_fut h) (\<lambda>v.
        obind (got shared_fut h) (\<lambda>w.
        obind (int_result (sint w * 2)) (\<lambda>d.
          Ret (''value: '' @ show_int32 v @ nl @ ''its double: '' @ show_int32 d @ nl)))), h)))"

section \<open>CallFuture4_1: polling\<close>

text \<open>\<open>getData\<close> runs in a thread of its own; each thread's output is kept apart.\<close>

datatype worker_pc = Ready_to_run | Sleeping | Worker_done

datatype polling_pc = Polling | Left_loop | Polled

record 'f polling =
  poll_heap :: "(string, 'f) heap"
  worker :: worker_pc
  worker_out :: string
  poller :: polling_pc
  poller_out :: string

definition getData_start :: "string \<Rightarrow> string" where
  "getData_start tid = ''getData start'' @ tid @ nl"

definition getData :: "string \<Rightarrow> string" where
  "getData recvData = ''DB_'' @ recvData"

fun status_line :: "std_future_status \<Rightarrow> string" where
  "status_line Std_ready = ''Ready...'' @ nl"
| "status_line Std_timeout = ''timeout...'' @ nl"
| "status_line Std_deferred = ''deferred...'' @ nl"

definition total_time :: "int \<Rightarrow> string" where
  "total_time diff = ''Total Time taken= '' @ show_int diff @ ''Seconds'' @ nl"

text \<open>\<open>fut\<close> is the handle \<open>Some a\<close>; \<open>tid\<close> and \<open>diff\<close> come from the system.\<close>

inductive CallFuture4_1_step :: "addr \<Rightarrow> string \<Rightarrow> int \<Rightarrow> 'f polling \<Rightarrow> 'f polling \<Rightarrow> bool"
  for a tid diff where
  starts: "worker S = Ready_to_run \<Longrightarrow>
    CallFuture4_1_step a tid diff S (S\<lparr>worker := Sleeping, worker_out := worker_out S @ getData_start tid\<rparr>)"
| stores: "worker S = Sleeping \<Longrightarrow>
    task_call (Some a) (Ret (getData ''Data'')) (poll_heap S) = (Ret (), h) \<Longrightarrow>
    CallFuture4_1_step a tid diff S (S\<lparr>worker := Worker_done, poll_heap := h\<rparr>)"
| polls: "poller S = Polling \<Longrightarrow>
    std_wait_status (Some a) (poll_heap S) = Ret status \<Longrightarrow> status \<noteq> Std_ready \<Longrightarrow>
    CallFuture4_1_step a tid diff S (S\<lparr>poller_out := poller_out S @ status_line status\<rparr>)"
| gets: "poller S = Polling \<Longrightarrow>
    std_wait_status (Some a) (poll_heap S) = Ret Std_ready \<Longrightarrow> got (Some a) (poll_heap S) = Ret dbData \<Longrightarrow>
    CallFuture4_1_step a tid diff S
      (S\<lparr>poller := Left_loop, poller_out := poller_out S @ status_line Std_ready @ dbData @ nl\<rparr>)"
| ends: "poller S = Left_loop \<Longrightarrow>
    CallFuture4_1_step a tid diff S (S\<lparr>poller := Polled, poller_out := poller_out S @ total_time diff\<rparr>)"

text \<open>After \<open>async(std::launch::async, \<dots>)\<close>.\<close>

definition CallFuture4_1_start :: "(string, 'f) heap \<Rightarrow> 'f polling" where
  "CallFuture4_1_start h =
     \<lparr>poll_heap = snd (new_shared h), worker = Ready_to_run, worker_out = [], poller = Polling, poller_out = []\<rparr>"

section \<open>CallFuture5: a shared future\<close>

datatype main_pc = Thread1_started | Shared std_future | Thread2_started std_future | Main_done

datatype second_pc = Not_created | Created std_future | Second_done

record 'f sharing =
  sharing_heap :: "(int32_t, 'f) heap"
  first_done :: bool
  main_at :: main_pc
  second_at :: second_pc
  sharing_out :: string

inductive CallFuture5_step :: "addr \<Rightarrow> 'f sharing \<Rightarrow> 'f sharing \<Rightarrow> bool" for promise where
  first_sets: "\<not> first_done S \<Longrightarrow>
    std_set (Some promise) (Stored (HasV (Val 42))) (sharing_heap S) = (Ret (), h) \<Longrightarrow>
    CallFuture5_step promise S (S\<lparr>sharing_heap := h, first_done := True\<rparr>)"
| shares: "main_at S = Thread1_started \<Longrightarrow>
    std_get_future (Some promise) (sharing_heap S) = (Ret shared_future, h) \<Longrightarrow>
    CallFuture5_step promise S (S\<lparr>sharing_heap := h, main_at := Shared shared_future\<rparr>)"
| creates: "main_at S = Shared shared_future \<Longrightarrow>
    CallFuture5_step promise S
      (S\<lparr>main_at := Thread2_started shared_future, second_at := Created shared_future\<rparr>)"
| main_prints: "main_at S = Thread2_started shared_future \<Longrightarrow>
    show_got shared_future (sharing_heap S) = Ret s \<Longrightarrow>
    CallFuture5_step promise S (S\<lparr>main_at := Main_done, sharing_out := sharing_out S @ ''main: '' @ s\<rparr>)"
| second_prints: "second_at S = Created shared_future \<Longrightarrow>
    show_got shared_future (sharing_heap S) = Ret s \<Longrightarrow>
    CallFuture5_step promise S (S\<lparr>second_at := Second_done, sharing_out := sharing_out S @ ''thread 2: '' @ s\<rparr>)"

definition CallFuture5_start :: "(int32_t, 'f) heap \<Rightarrow> 'f sharing" where
  "CallFuture5_start h =
     \<lparr>sharing_heap = snd (new_shared h), first_done = False, main_at = Thread1_started,
      second_at = Not_created, sharing_out = []\<rparr>"

text \<open>The joins have returned.\<close>

definition CallFuture5_over :: "'f sharing \<Rightarrow> bool" where
  "CallFuture5_over S \<longleftrightarrow> first_done S \<and> main_at S = Main_done \<and> second_at S = Second_done"

section \<open>What the sequential programs print\<close>

lemma got_stored [simp]: "content (shared h ! a) = Stored (HasV (Val v)) \<Longrightarrow> got (Some a) h = Ret v"
  by (simp add: got_def std_get_def)

lemmas program_defs =
  pbind_def pret_def new_shared_def std_get_future_def task_call_def std_set_def show_got_def

lemma shown:
  "show_int32 1 = ''1''" "show_int32 42 = ''42''" "show_int32 10 = ''10''" "show_int32 20 = ''20''"
  by code_simp+

lemma CallFuture2_prints:
  assumes "42 + sint a < 2 ^ 31"
  shows "fst (CallFuture2 a h) = Ret (show_int (42 + sint a) @ nl)"
proof -
  have "- (2 ^ 31) \<le> 42 + sint a"
    using sint_greater_eq [of a] by simp
  with assms have "CallFuture2_task a = Ret (word_of_int (42 + sint a))"
      and "show_int32 (word_of_int (42 + sint a)) = show_int (42 + sint a)"
    unfolding CallFuture2_task_def int_result_def show_int32_def
    by (simp_all only: sint_word_of_int32 simp_thms if_True)
  then show ?thesis by (simp add: CallFuture2_def program_defs del: of_int_add)
qed

lemma CallFuture2_overflows: "2 ^ 31 \<le> 42 + sint a \<Longrightarrow> fst (CallFuture2 a h) = Undefined"
  by (simp add: CallFuture2_def program_defs CallFuture2_task_def int_result_def pfail_def)

lemma CallFuture2_1_prints:
  "fst (CallFuture2_1 h) = Ret (''You can see this after 1 second'' @ nl @ ''1'' @ nl)"
  by (simp add: CallFuture2_1_def program_defs shown)

lemma CallFuture3_prints: "fst (CallFuture3 deferred h) = Ret (''42'' @ nl)"
  by (simp add: CallFuture3_def std_async_def run_deferred_def program_defs shown)

lemma CallFuture5_1_prints:
  "fst (CallFuture5_1 deferred h) = Ret (''value: 10'' @ nl @ ''its double: 20'' @ nl)"
  by (simp add: CallFuture5_1_def std_async_def run_deferred_def program_defs shown int_result_def)

section \<open>What the polling loop prints\<close>

definition timeouts :: "nat \<Rightarrow> string" where
  "timeouts n = concat (replicate n (''timeout...'' @ nl))"

lemma timeouts_0 [simp]: "timeouts 0 = []"
  by (simp add: timeouts_def)

lemma timeouts_Suc: "timeouts (Suc n) = timeouts n @ ''timeout...'' @ nl"
  by (induction n) (simp_all add: timeouts_def)

fun worker_steps :: "worker_pc \<Rightarrow> nat" where
  "worker_steps Ready_to_run = 0"
| "worker_steps Sleeping = 1"
| "worker_steps Worker_done = 2"

fun polling_steps :: "polling_pc \<Rightarrow> nat" where
  "polling_steps Polling = 0"
| "polling_steps Left_loop = 1"
| "polling_steps Polled = 2"

text \<open>\<open>main\<close> goes through its places in their order.\<close>

instantiation polling_pc :: linorder
begin

definition less_eq_polling_pc :: "polling_pc \<Rightarrow> polling_pc \<Rightarrow> bool" where
  "less_eq_polling_pc x y \<longleftrightarrow> polling_steps x \<le> polling_steps y"

definition less_polling_pc :: "polling_pc \<Rightarrow> polling_pc \<Rightarrow> bool" where
  "less_polling_pc x y \<longleftrightarrow> polling_steps x < polling_steps y"

instance
proof
  fix x y :: polling_pc
  show "x \<le> y \<Longrightarrow> y \<le> x \<Longrightarrow> x = y"
    by (cases x; cases y) (simp_all add: less_eq_polling_pc_def)
qed (auto simp: less_eq_polling_pc_def less_polling_pc_def)

end

fun polled_text :: "int \<Rightarrow> polling_pc \<Rightarrow> string" where
  "polled_text diff Polling = []"
| "polled_text diff Left_loop = ''Ready...'' @ nl @ ''DB_Data'' @ nl"
| "polled_text diff Polled = ''Ready...'' @ nl @ ''DB_Data'' @ nl @ total_time diff"

definition polling_inv :: "addr \<Rightarrow> string \<Rightarrow> int \<Rightarrow> nat \<Rightarrow> nat \<Rightarrow> 'f polling \<Rightarrow> bool" where
  "polling_inv a tid diff k n S \<longleftrightarrow>
     a < length (shared (poll_heap S))
     \<and> content (shared (poll_heap S) ! a) =
         (if worker S = Worker_done then Stored (HasV (Val ''DB_Data'')) else Pending)
     \<and> worker_out S = (if worker S = Ready_to_run then [] else getData_start tid)
     \<and> (worker S = Worker_done \<or> poller S = Polling)
     \<and> poller_out S = timeouts n @ polled_text diff (poller S)
     \<and> k = n + worker_steps (worker S) + polling_steps (poller S)"

lemma polling_inv_start: "polling_inv (length (shared h)) tid diff 0 0 (CallFuture4_1_start h)"
  by (simp add: polling_inv_def CallFuture4_1_start_def new_shared_def)

lemma polling_inv_step:
  assumes "CallFuture4_1_step a tid diff S S'" and inv: "polling_inv a tid diff k n S"
  shows "\<exists>n'. polling_inv a tid diff (Suc k) n' S'"
  using assms(1)
proof cases
  case (polls status)
  then have "worker S \<noteq> Worker_done" "status = Std_timeout"
    using inv by (auto simp: polling_inv_def std_wait_status_def split: if_splits)
  then have "polling_inv a tid diff (Suc k) (Suc n) S'"
    using inv polls by (simp add: polling_inv_def timeouts_Suc)
  then show ?thesis ..
next
  case (gets dbData)
  then have "worker S = Worker_done" "dbData = ''DB_Data''"
    using inv by (auto simp: polling_inv_def std_wait_status_def split: if_splits)
  then have "polling_inv a tid diff (Suc k) n S'"
    using inv gets by (simp add: polling_inv_def)
  then show ?thesis ..
qed (use inv in \<open>auto simp: polling_inv_def task_call_def std_set_def getData_def intro!: exI [of _ n]\<close>)

lemma polling_runs:
  assumes "(CallFuture4_1_step (length (shared h)) tid diff ^^ k) (CallFuture4_1_start h) S"
  shows "\<exists>n. polling_inv (length (shared h)) tid diff k n S"
  using assms
proof (induction k arbitrary: S)
  case 0
  then show ?case using polling_inv_start by auto
next
  case (Suc k)
  then show ?case using polling_inv_step by (fastforce elim!: relcomppE)
qed

lemma polling_goes_on:
  assumes inv: "polling_inv a tid diff k n S" and "poller S \<noteq> Polled"
  shows "\<exists>S'. CallFuture4_1_step a tid diff S S'"
proof (cases "poller S")
  case Polling
  then show ?thesis
    using inv CallFuture4_1_step.polls [of S a Std_timeout tid diff]
      CallFuture4_1_step.gets [of S a "''DB_Data''" tid diff]
    by (cases "worker S = Worker_done") (auto simp: polling_inv_def std_wait_status_def)
next
  case Left_loop
  then show ?thesis by (blast intro: CallFuture4_1_step.ends)
qed (use assms in simp)

lemma polling_after_store:
  assumes inv: "polling_inv a tid diff k n S" and "worker S = Worker_done"
    and "CallFuture4_1_step a tid diff S S'"
  shows "poller S < poller S'"
  using assms(3)
  by cases (use inv assms(2) in \<open>auto simp: polling_inv_def std_wait_status_def less_polling_pc_def\<close>)

lemma polling_forward: "CallFuture4_1_step a tid diff S S' \<Longrightarrow> poller S \<le> poller S'"
  by (erule CallFuture4_1_step.cases) (simp_all add: less_eq_polling_pc_def)

section \<open>What the threads of CallFuture5 print\<close>

fun main_steps :: "main_pc \<Rightarrow> nat" where
  "main_steps Thread1_started = 0"
| "main_steps (Shared f) = 1"
| "main_steps (Thread2_started f) = 2"
| "main_steps Main_done = 3"

fun handle_of :: "main_pc \<Rightarrow> std_future" where
  "handle_of (Shared f) = f"
| "handle_of (Thread2_started f) = f"
| "handle_of _ = None"

text \<open>The lines, in the order in which \<open>main\<close> (\<open>False\<close>) and thread 2 (\<open>True\<close>) print.\<close>

definition line_of :: "bool \<Rightarrow> string" where
  "line_of b = (if b then ''thread 2: '' else ''main: '') @ ''42'' @ nl"

definition have_printed :: "'f sharing \<Rightarrow> bool set" where
  "have_printed S =
     (if main_at S = Main_done then {False} else {}) \<union> (if second_at S = Second_done then {True} else {})"

definition sharing_inv :: "addr \<Rightarrow> nat \<Rightarrow> 'f sharing \<Rightarrow> bool" where
  "sharing_inv a k S \<longleftrightarrow>
     a < length (shared (sharing_heap S))
     \<and> content (shared (sharing_heap S) ! a) = (if first_done S then Stored (HasV (Val 42)) else Pending)
     \<and> retrieved (shared (sharing_heap S) ! a) = (main_at S \<noteq> Thread1_started)
     \<and> (\<forall>f. main_at S = Shared f \<or> main_at S = Thread2_started f \<or> second_at S = Created f \<longrightarrow> f = Some a)
     \<and> (second_at S = Not_created \<longleftrightarrow> main_steps (main_at S) < 2)
     \<and> (main_at S = Main_done \<or> second_at S = Second_done \<longrightarrow> first_done S)
     \<and> (\<exists>order. distinct order \<and> set order = have_printed S
          \<and> sharing_out S = concat (map line_of order))
     \<and> k = of_bool (first_done S) + main_steps (main_at S) + of_bool (second_at S = Second_done)"

lemma sharing_inv_start: "sharing_inv (length (shared h)) 0 (CallFuture5_start h)"
  by (simp add: sharing_inv_def have_printed_def CallFuture5_start_def new_shared_def)

lemma prints_next:
  assumes "distinct order" "set order = P" "out = concat (map line_of order)" "b \<notin> P"
  shows "\<exists>order. distinct order \<and> set order = insert b P \<and> out @ line_of b = concat (map line_of order)"
  using assms by (intro exI [of _ "order @ [b]"]) auto

lemma sharing_inv_step:
  assumes "CallFuture5_step a S S'" and inv: "sharing_inv a k S"
  shows "sharing_inv a (Suc k) S'"
proof -
  obtain order where order: "distinct order" "set order = have_printed S"
      "sharing_out S = concat (map line_of order)"
    using inv by (auto simp: sharing_inv_def)
  have first: "first_done S \<and> s = ''42'' @ nl" if "show_got (Some a) (sharing_heap S) = Ret s" for s
    using inv that by (auto simp: sharing_inv_def show_got_def got_def std_get_def shown split: if_splits)
  show ?thesis
    using assms(1)
  proof cases
    case (main_prints f s)
    then have f: "f = Some a" "first_done S" "s = ''42'' @ nl"
      using inv first by (auto simp: sharing_inv_def)
    moreover have "have_printed S' = insert False (have_printed S)" "False \<notin> have_printed S"
      using main_prints by (simp_all add: have_printed_def)
    moreover have "sharing_out S' = sharing_out S @ line_of False"
      using main_prints f by (simp add: line_of_def)
    ultimately show ?thesis
      using inv prints_next [OF order, of False] main_prints by (simp add: sharing_inv_def)
  next
    case (second_prints f s)
    then have f: "f = Some a" "first_done S" "s = ''42'' @ nl"
      using inv first by (auto simp: sharing_inv_def)
    moreover have "have_printed S' = insert True (have_printed S)" "True \<notin> have_printed S"
      using second_prints by (auto simp: have_printed_def)
    moreover have "sharing_out S' = sharing_out S @ line_of True"
      using second_prints f by (simp add: line_of_def)
    ultimately show ?thesis
      using inv prints_next [OF order, of True] second_prints by (simp add: sharing_inv_def)
  qed (use inv in \<open>auto simp: sharing_inv_def have_printed_def std_set_def std_get_future_def\<close>)
qed

lemma sharing_runs:
  "(CallFuture5_step (length (shared h)) ^^ k) (CallFuture5_start h) S \<Longrightarrow> sharing_inv (length (shared h)) k S"
proof (induction k arbitrary: S)
  case 0
  then show ?case using sharing_inv_start by auto
next
  case (Suc k)
  then show ?case using sharing_inv_step by (fastforce elim!: relcomppE)
qed

lemma sharing_over:
  assumes "sharing_inv a k S"
  shows "k \<le> 5" "CallFuture5_over S \<longleftrightarrow> k = 5"
  using assms by (cases "main_at S"; force simp: sharing_inv_def CallFuture5_over_def)+

lemma both_lines:
  fixes order :: "bool list"
  assumes "distinct order" "set order = {False, True}"
  shows "order = [False, True] \<or> order = [True, False]"
proof -
  have "length order = 2" using distinct_card [OF assms(1)] assms(2) by simp
  then obtain x y where "order = [x, y]" by (auto simp: numeral_2_eq_2 length_Suc_conv)
  with assms show ?thesis by auto
qed

lemma sharing_output:
  assumes inv: "sharing_inv a k S" and "CallFuture5_over S"
  shows "sharing_out S \<in> {line_of False @ line_of True, line_of True @ line_of False}"
proof -
  obtain order where "distinct order" "set order = {False, True}" "sharing_out S = concat (map line_of order)"
    using assms by (auto simp: sharing_inv_def CallFuture5_over_def have_printed_def insert_commute)
  with both_lines show ?thesis by fastforce
qed

lemma sharing_goes_on:
  assumes inv: "sharing_inv a k S" and "\<not> CallFuture5_over S"
  shows "\<exists>S'. CallFuture5_step a S S'"
proof (cases "first_done S")
  case False
  then show ?thesis
    using inv CallFuture5_step.first_sets [of S a] by (auto simp: sharing_inv_def std_set_def)
next
  case set: True
  then have got: "show_got (Some a) (sharing_heap S) = Ret (show_int32 42 @ nl)"
    using inv by (simp add: sharing_inv_def show_got_def)
  show ?thesis
  proof (cases "main_at S")
    case Thread1_started
    then show ?thesis
      using inv CallFuture5_step.shares [of S a] by (auto simp: sharing_inv_def std_get_future_def)
  next
    case (Shared f)
    then show ?thesis by (blast intro: CallFuture5_step.creates)
  next
    case (Thread2_started f)
    then show ?thesis
      using inv got CallFuture5_step.main_prints [of S f _ a] by (auto simp: sharing_inv_def)
  next
    case Main_done
    then obtain f where "second_at S = Created f"
      using inv assms(2) set by (cases "second_at S") (auto simp: sharing_inv_def CallFuture5_over_def)
    then show ?thesis
      using inv got CallFuture5_step.second_prints [of S f _ a] by (auto simp: sharing_inv_def)
  qed
qed

text \<open>Thread 2 prints before \<open>main\<close> or after it.\<close>

lemma sharing_either_order:
  fixes h :: "(int32_t, 'f) heap" and second_first :: bool
  shows "\<exists>S. (CallFuture5_step (length (shared h)))\<^sup>*\<^sup>* (CallFuture5_start h) S
    \<and> sharing_out S = line_of second_first @ line_of (\<not> second_first)"
proof -
  let ?a = "length (shared h)" and ?step = "CallFuture5_step (length (shared h))"
  let ?g = "h\<lparr>shared := shared h @ [\<lparr>content = Stored (HasV (Val 42)), retrieved = False\<rparr>]\<rparr>"
  let ?h = "h\<lparr>shared := shared h @ [\<lparr>content = Stored (HasV (Val 42)), retrieved = True\<rparr>]\<rparr>"
  let ?S = "\<lambda>g m t out. \<lparr>sharing_heap = g, first_done = True, main_at = m, second_at = t, sharing_out = out\<rparr>"
  have got: "show_got (Some ?a) ?h = Ret (''42'' @ nl)" by (simp add: show_got_def shown)
  have "?step (CallFuture5_start h) (?S ?g Thread1_started Not_created [])"
    using CallFuture5_step.first_sets [of "CallFuture5_start h" ?a]
    by (simp add: CallFuture5_start_def new_shared_def std_set_def)
  moreover have "?step (?S ?g Thread1_started Not_created []) (?S ?h (Shared (Some ?a)) Not_created [])"
    using CallFuture5_step.shares [of "?S ?g Thread1_started Not_created []" ?a]
    by (simp add: std_get_future_def)
  moreover have "?step (?S ?h (Shared (Some ?a)) Not_created []) (?S ?h (Thread2_started (Some ?a)) (Created (Some ?a)) [])"
    using CallFuture5_step.creates [of "?S ?h (Shared (Some ?a)) Not_created []" "Some ?a" ?a] by simp
  moreover have "?step\<^sup>*\<^sup>* (?S ?h (Thread2_started (Some ?a)) (Created (Some ?a)) [])
      (?S ?h Main_done Second_done (line_of second_first @ line_of (\<not> second_first)))"
  proof -
    have main: "?step (?S ?h (Thread2_started (Some ?a)) t out) (?S ?h Main_done t (out @ line_of False))"
      and second: "?step (?S ?h m (Created (Some ?a)) out) (?S ?h m Second_done (out @ line_of True))" for m t out
      using CallFuture5_step.main_prints [of "?S ?h (Thread2_started (Some ?a)) t out" "Some ?a" _ ?a]
        CallFuture5_step.second_prints [of "?S ?h m (Created (Some ?a)) out" "Some ?a" _ ?a] got
      by (simp_all add: line_of_def)
    show ?thesis
      using main [of "Created (Some ?a)" "[]"] second [of Main_done "line_of False"]
        second [of "Thread2_started (Some ?a)" "[]"] main [of Second_done "line_of True"]
      by (cases second_first) (auto intro: converse_rtranclp_into_rtranclp)
  qed
  ultimately have "?step\<^sup>*\<^sup>* (CallFuture5_start h)
      (?S ?h Main_done Second_done (line_of second_first @ line_of (\<not> second_first)))"
    by (meson converse_rtranclp_into_rtranclp)
  then show ?thesis by (meson sharing.select_convs(5))
qed

lemma CallFuture2_cases:
  "fst (CallFuture2 a h) =
     (if 42 + sint a < 2 ^ 31 then Ret (show_int (42 + sint a) @ nl) else Undefined)"
  using CallFuture2_prints [of a h] CallFuture2_overflows [of a h] by (metis not_less)

section \<open>The properties\<close>

text \<open>
  C39. The two programs with free-running threads, in every interleaving. \<open>CallFuture4_1\<close>: \<open>main\<close>
  prints one line for each wait that times out, then the data and the time; it is never stuck,
  never reads before the thread has stored its string and, once it has, each step leaves the
  loop or the function, so a run of \<open>k\<close> steps has all but four of them in timeouts.
  \<open>CallFuture5\<close>: no interleaving deadlocks, every one is over after exactly five steps, the two
  readers of the shared future both print the value, and both orders occur.
\<close>

theorem Future_test_threads:
  fixes h :: "(string, 'f) heap" and g :: "(int32_t, 'g) heap"
  assumes polling: "(CallFuture4_1_step (length (shared h)) tid diff ^^ k) (CallFuture4_1_start h) S"
    and sharing: "(CallFuture5_step (length (shared g)) ^^ l) (CallFuture5_start g) T"
  shows "(\<exists>n. poller_out S = timeouts n @ polled_text diff (poller S)
        \<and> k = n + worker_steps (worker S) + polling_steps (poller S))
    \<and> (worker S = Worker_done \<or> poller S = Polling)
    \<and> (poller S \<noteq> Polled \<longrightarrow> (\<exists>S'. CallFuture4_1_step (length (shared h)) tid diff S S'))
    \<and> (\<forall>S'. CallFuture4_1_step (length (shared h)) tid diff S S' \<longrightarrow>
        poller S \<le> poller S' \<and> (worker S = Worker_done \<longrightarrow> poller S < poller S'))
    \<and> l \<le> 5 \<and> (CallFuture5_over T \<longleftrightarrow> l = 5)
    \<and> (\<not> CallFuture5_over T \<longrightarrow> (\<exists>T'. CallFuture5_step (length (shared g)) T T'))
    \<and> (CallFuture5_over T \<longrightarrow>
        sharing_out T \<in> {line_of False @ line_of True, line_of True @ line_of False})
    \<and> (\<exists>U. (CallFuture5_step (length (shared g)))\<^sup>*\<^sup>* (CallFuture5_start g) U
        \<and> sharing_out U = line_of second_first @ line_of (\<not> second_first))"
proof (intro conjI)
  obtain n where inv: "polling_inv (length (shared h)) tid diff k n S"
    using polling_runs [OF polling] ..
  then show "\<exists>n. poller_out S = timeouts n @ polled_text diff (poller S)
        \<and> k = n + worker_steps (worker S) + polling_steps (poller S)"
      "worker S = Worker_done \<or> poller S = Polling"
    by (auto simp: polling_inv_def)
  show "poller S \<noteq> Polled \<longrightarrow> (\<exists>S'. CallFuture4_1_step (length (shared h)) tid diff S S')"
    "\<forall>S'. CallFuture4_1_step (length (shared h)) tid diff S S' \<longrightarrow>
        poller S \<le> poller S' \<and> (worker S = Worker_done \<longrightarrow> poller S < poller S')"
    using polling_goes_on [OF inv] polling_after_store [OF inv] polling_forward by blast+
qed (use sharing_over [OF sharing_runs [OF sharing]] sharing_goes_on [OF sharing_runs [OF sharing]]
    sharing_output [OF sharing_runs [OF sharing]] sharing_either_order [of g second_first] in blast)+

theorem Future_test_threads_witness:
  "(\<exists>S :: int polling. CallFuture4_1_step 0 ''7'' 5 (CallFuture4_1_start \<lparr>shared = [], states = [], promises = []\<rparr>) S
     \<and> (\<exists>n. poller_out S = timeouts n) \<and> (\<exists>S'. CallFuture4_1_step 0 ''7'' 5 S S'))
   \<and> (\<exists>U :: int sharing. (CallFuture5_step 0)\<^sup>*\<^sup>* (CallFuture5_start \<lparr>shared = [], states = [], promises = []\<rparr>) U
     \<and> sharing_out U = ''thread 2: 42'' @ nl @ ''main: 42'' @ nl)"
proof -
  let ?h = "\<lparr>shared = [], states = [], promises = []\<rparr> :: (string, int) heap"
  let ?g = "\<lparr>shared = [], states = [], promises = []\<rparr> :: (int32_t, int) heap"
  let ?S = "(CallFuture4_1_start ?h)\<lparr>poller_out := ''timeout...'' @ nl\<rparr>"
  have step: "CallFuture4_1_step 0 ''7'' 5 (CallFuture4_1_start ?h) ?S"
    using CallFuture4_1_step.polls [of "CallFuture4_1_start ?h" 0 Std_timeout "''7''" 5]
    by (simp add: CallFuture4_1_start_def new_shared_def std_wait_status_def)
  then have run: "(CallFuture4_1_step (length (shared ?h)) ''7'' 5 ^^ 1) (CallFuture4_1_start ?h) ?S"
    by (simp add: eq_OO)
  have start: "(CallFuture5_step (length (shared ?g)) ^^ 0) (CallFuture5_start ?g) (CallFuture5_start ?g)" by simp
  note threads = Future_test_threads [OF run start, of True]
  have "poller ?S = Polling" by (simp add: CallFuture4_1_start_def)
  then have "(\<exists>n. poller_out ?S = timeouts n) \<and> (\<exists>S'. CallFuture4_1_step 0 ''7'' 5 ?S S')"
    using threads by auto
  moreover have "\<exists>U :: int sharing. (CallFuture5_step 0)\<^sup>*\<^sup>* (CallFuture5_start ?g) U
     \<and> sharing_out U = ''thread 2: 42'' @ nl @ ''main: 42'' @ nl"
    using threads by (simp add: line_of_def)
  ultimately show ?thesis using step by blast
qed

end
