(* ===== verification/Future_Void.thy ===== *)
theory Future_Void
  imports Future_Correct
begin

text \<open>
  \<open>Promise<void, E>\<close> and \<open>Future<void, E>\<close> against the primary templates: the members agree, and so
  does every run of continuations, up to the class the stored lambdas belong to. The move
  constructors take their locks at different points.
\<close>

section \<open>Heaps alike up to the class of the stored lambdas\<close>

fun primary_closure :: "'f closure \<Rightarrow> 'f closure" where
  "primary_closure (Continuation k _ f p) = Continuation k False f p"
| "primary_closure (InnerContinuation _ b p) = InnerContinuation False b p"

definition primary_state :: "'f State \<Rightarrow> 'f State" where
  "primary_state s = s\<lparr>unique_continuation := map_option primary_closure (unique_continuation s)\<rparr>"

definition alike :: "('v, 'f) heap \<Rightarrow> ('v, 'f) heap \<Rightarrow> bool" where
  "alike h h' \<longleftrightarrow>
     shared h = shared h' \<and> promises h = promises h' \<and>
     map primary_state (states h) = map primary_state (states h')"

definition agree :: "'a \<times> ('v, 'f) heap \<Rightarrow> 'a \<times> ('v, 'f) heap \<Rightarrow> bool" where
  "agree r r' \<longleftrightarrow> fst r = fst r' \<and> alike (snd r) (snd r')"

text \<open>\<open>m\<close> and \<open>m'\<close> give the same outcome from heaps that are alike, and heaps that are alike.\<close>

definition matches :: "('v, 'f, 'a) proc \<Rightarrow> ('v, 'f, 'a) proc \<Rightarrow> bool" where
  "matches m m' \<longleftrightarrow> (\<forall>h h'. alike h h' \<longrightarrow> agree (m h) (m' h'))"

definition class_blind :: "('v, 'f) callables \<Rightarrow> bool" where
  "class_blind cbs \<longleftrightarrow>
     (\<forall>f F. matches (on_future cbs f F) (on_future cbs f F) \<and> matches (on_result cbs f F) (on_result cbs f F) \<and>
            matches (on_value cbs f F) (on_value cbs f F) \<and> matches (on_void cbs f F) (on_void cbs f F))"

lemma alike_refl [simp]: "alike h h"
  by (simp add: alike_def)

lemma alike_length: "alike h h' \<Longrightarrow> length (states h) = length (states h')"
  unfolding alike_def by (metis length_map)

lemma nth_beyond: "length xs = length ys \<Longrightarrow> length xs \<le> n \<Longrightarrow> xs ! n = ys ! n"
  by (induction xs ys arbitrary: n rule: list_induct2) (auto simp: nth_Cons')

lemma alike_at: "alike h h' \<Longrightarrow> primary_state (states h ! s) = primary_state (states h' ! s)"
  using alike_length [of h h'] nth_beyond [of "states h" "states h'" s]
  unfolding alike_def by (cases "s < length (states h)") (metis nth_map, simp)

lemma primary_state_eq:
  "primary_state x = primary_state y \<longleftrightarrow>
     map_option primary_closure (unique_continuation x) = map_option primary_closure (unique_continuation y)
     \<and> delegate_future x = delegate_future y"
  by (cases x, cases y) (simp add: primary_state_def)

lemma alike_upd [intro]:
  assumes "alike h h'" "primary_state x = primary_state y"
  shows "alike (h\<lparr>states := (states h)[s := x]\<rparr>) (h'\<lparr>states := (states h')[s := y]\<rparr>)"
  using assms by (simp add: alike_def map_update)

named_theorems matching "operations that run alike from heaps that are alike"

lemma matchesI: "(\<And>h h'. alike h h' \<Longrightarrow> agree (m h) (m' h')) \<Longrightarrow> matches m m'"
  by (simp add: matches_def)

lemma matches_pret [matching]: "matches (pret a) (pret a)"
  by (simp add: matches_def agree_def pret_def)

lemma matches_pfail [matching]: "matches (pfail r) (pfail r)"
  by (simp add: matches_def agree_def pfail_def)

lemma matches_pbind [matching]:
  assumes "matches m m'" "\<And>a. matches (f a) (f' a)"
  shows "matches (pbind m f) (pbind m' f')"
proof (rule matchesI)
  fix h h' :: "('a, 'b) heap" assume "alike h h'"
  with assms(1) have "agree (m h) (m' h')" by (simp add: matches_def)
  with assms(2) show "agree (pbind m f h) (pbind m' f' h')"
    by (auto simp: agree_def matches_def pbind_def split: prod.split outcome.split)
qed

lemma matches_pcatch [matching]:
  assumes "matches m m'" "\<And>e. rel_option matches (k e) (k' e)"
  shows "matches (pcatch m k) (pcatch m' k')"
proof (rule matchesI)
  fix h h' :: "('a, 'b) heap" assume "alike h h'"
  with assms(1) have ag: "agree (m h) (m' h')" by (simp add: matches_def)
  show "agree (pcatch m k h) (pcatch m' k' h')"
  proof (cases "fst (m h)")
    case (Throws e)
    from assms(2) [of e] show ?thesis
      using ag Throws
      by (cases "k e"; cases "k' e") (auto simp: pcatch_def agree_def matches_def split: prod.split)
  qed (use ag in \<open>auto simp: pcatch_def agree_def split: prod.split\<close>)
qed

lemma matches_shared [matching]:
  "matches new_shared new_shared" "matches (std_set a c) (std_set a c)"
  "matches (std_get_future a) (std_get_future a)"
  by (auto simp: matches_def agree_def alike_def new_shared_def std_set_def std_get_future_def
      split: option.split)

lemma alike_abandon: "alike h h' \<Longrightarrow> alike (std_abandon a h) (std_abandon a h')"
  by (auto simp: alike_def std_abandon_def split: option.split)

lemma alike_promises:
  "alike h h' \<Longrightarrow> promise_at h' p = promise_at h p"
  "alike h h' \<Longrightarrow> alike (set_promise p x h) (set_promise p x h')"
  by (auto simp: alike_def promise_at_def set_promise_def)

lemma matches_promises [matching]:
  "matches (new_promise x) (new_promise x)" "matches (Promise_move_ctor p) (Promise_move_ctor p)"
  "matches (PV_move_ctor p) (PV_move_ctor p)"
  by (auto simp: matches_def agree_def alike_def new_promise_def Promise_move_ctor_def PV_move_ctor_def
      promise_at_def set_promise_def Let_def)

lemma matches_State_ctor [matching]: "matches State_ctor State_ctor"
proof (rule matchesI)
  fix h h' :: "('a, 'b) heap" assume "alike h h'"
  then show "agree (State_ctor h) (State_ctor h')"
    using alike_length [of h h'] by (simp add: State_ctor_def agree_def) (simp add: alike_def)
qed

lemma matches_Promise_ctor [matching]: "matches Promise_ctor Promise_ctor"
  unfolding Promise_ctor_def by (intro matching)

lemma matches_read:
  assumes "\<And>h h'. alike h h' \<Longrightarrow> g h' = g h" "\<And>a. matches (m a) (m' a)"
  shows "matches (\<lambda>h. m (g h) h) (\<lambda>h. m' (g h) h)"
  using assms by (simp add: matches_def)

lemma matches_if [matching]:
  "matches m m' \<Longrightarrow> matches k k' \<Longrightarrow> matches (if b then m else k) (if b then m' else k')"
  by simp

lemma matches_option [matching]:
  "matches m m' \<Longrightarrow> (\<And>x. matches (k x) (k' x)) \<Longrightarrow>
   matches (case a of None \<Rightarrow> m | Some x \<Rightarrow> k x) (case a of None \<Rightarrow> m' | Some x \<Rightarrow> k' x)"
  by (simp split: option.split)

lemma matches_rslt [matching]:
  "(\<And>v. matches (f v) (f' v)) \<Longrightarrow> (\<And>e. matches (g e) (g' e)) \<Longrightarrow> matches m m' \<Longrightarrow>
   matches (case r of HasV v \<Rightarrow> f v | HasE e \<Rightarrow> g e | Empty \<Rightarrow> m)
     (case r of HasV v \<Rightarrow> f' v | HasE e \<Rightarrow> g' e | Empty \<Rightarrow> m')"
  by (simp split: rslt.split)

lemma matches_with_lock [matching]:
  assumes "matches m m'"
  shows "matches (with_lock p m) (with_lock p m')"
proof (rule matchesI)
  fix h h' :: "('a, 'b) heap" assume al: "alike h h'"
  obtain x where x: "promise_at h p = x" "promise_at h' p = x" using alike_promises(1) [OF al] by blast
  let ?on = "set_promise p (x\<lparr>mutex_held := True\<rparr>)"
  have "agree (m (?on h)) (m' (?on h'))"
    using assms alike_promises(2) [OF al] by (simp add: matches_def)
  then obtain r g g' where run: "m (?on h) = (r, g)" "m' (?on h') = (r, g')" and al': "alike g g'"
    by (cases "m (?on h)"; cases "m' (?on h')") (auto simp: agree_def)
  have "alike (set_promise p (promise_at g p\<lparr>mutex_held := False\<rparr>) g) (set_promise p (promise_at g' p\<lparr>mutex_held := False\<rparr>) g')"
    unfolding alike_promises(1) [OF al'] by (rule alike_promises(2) [OF al'])
  then show "agree (with_lock p m h) (with_lock p m' h')"
    using al by (simp add: with_lock_def x run agree_def)
qed

lemma matches_get_future [matching]: "matches (Promise_get_future p) (Promise_get_future p)"
  by (auto simp: matches_def agree_def Promise_get_future_def pbind_def std_get_future_def pret_def
      promise_at_def alike_def split: option.split)

text \<open>The setters, whatever firing the continuation does.\<close>

definition fires_alike :: "('v, 'f) fire \<Rightarrow> bool" where
  "fires_alike fire \<longleftrightarrow> (\<forall>x. matches (fire x) (fire x))"

lemma matches_settle [matching]:
  assumes "fires_alike fire"
  shows "matches (settle fire p c) (settle fire p c)"
proof -
  let ?fire = "\<lambda>h. fire (extra_state (promise_at h p)) h"
  let ?set = "\<lambda>a. pbind (std_set a c) (\<lambda>_. ?fire)"
  have fire: "matches ?fire ?fire"
    by (rule matches_read [where g = "\<lambda>h. extra_state (promise_at h p)" and m = fire and m' = fire])
      (use assms in \<open>simp_all add: alike_promises fires_alike_def\<close>)
  have "matches (\<lambda>h. ?set (delegate_promise (promise_at h p)) h) (\<lambda>h. ?set (delegate_promise (promise_at h p)) h)"
    by (rule matches_read [where g = "\<lambda>h. delegate_promise (promise_at h p)" and m = ?set and m' = ?set])
      (simp_all add: alike_promises matches_pbind [OF matches_shared(2) fire])
  then show ?thesis unfolding settle_def by (rule matches_with_lock)
qed

lemma alike_content: "alike h h' \<Longrightarrow> content_at h' a = content_at h a"
  by (simp add: alike_def content_at_def)

lemma alike_GetResult: "alike h h' \<Longrightarrow> Future_GetResult F h' = Future_GetResult F h"
  by (simp add: GetResult_eq alike_content cong: option.case_cong content.case_cong)

lemma matches_ready [matching]: "matches (Future_is_ready F) (Future_is_ready F)"
  by (auto simp: matches_def agree_def is_ready_eq alike_content split: option.split)

lemma matches_SetContinuation [matching]:
  assumes "primary_closure k = primary_closure k'"
  shows "matches (SetContinuation s k F) (SetContinuation s k' F)"
  using assms by (auto simp: matches_def agree_def SetContinuation_def primary_state_def)

lemma matches_inner [matching]:
  assumes "fires_alike fire"
  shows "matches (Future_inner_continuation fire p F) (Future_inner_continuation fire p F)"
    "matches (Future_inner_continuation_void fire p F) (Future_inner_continuation_void fire p F)"
  using matches_settle [OF assms]
  by (auto simp: matches_def Future_inner_continuation_def Future_inner_continuation_void_def
      settle_cases void_collapse alike_GetResult agree_def split: outcome.split rslt.split)

lemma matches_catch:
  assumes "\<And>e. matches (E e) (E e)"
  shows "rel_option matches (Future_catch E e) (Future_catch E e)"
  using assms by (cases e) (simp_all add: Future_handle_future_error_def Future_handle_exception_def)

lemma blind:
  assumes "class_blind cbs"
  shows "matches (on_future cbs f F) (on_future cbs f F)" "matches (on_result cbs f F) (on_result cbs f F)"
    "matches (on_value cbs f F) (on_value cbs f F)" "matches (on_void cbs f F) (on_void cbs f F)"
  using assms by (simp_all add: class_blind_def)

lemma matches_fulfill_future:
  assumes fire: "fires_alike fire" and cbs: "class_blind cbs"
  defines "K \<equiv> {FV_fulfill_promise_future, Future_fulfill_promise_future}"
    and "K_void \<equiv> {FV_fulfill_promise_future_void, Future_fulfill_promise_future_void}"
  shows "k \<in> K \<Longrightarrow> k' \<in> K \<Longrightarrow> matches (k cbs fire f p F) (k' cbs fire f p F)"
    "k \<in> K_void \<Longrightarrow> k' \<in> K_void \<Longrightarrow> matches (k cbs fire f p F) (k' cbs fire f p F)"
  unfolding K_def K_void_def
  by (auto simp: FV_fulfill_promise_future_def Future_fulfill_promise_future_def
      FV_fulfill_promise_future_void_def Future_fulfill_promise_future_void_def void_collapse settle_cases
      intro!: matching matches_catch fire blind [OF cbs])

lemma matches_fulfill [matching]:
  assumes fire: "fires_alike fire" and cbs: "class_blind cbs"
  shows "matches (Future_fulfill_promise_result cbs fire f p F) (Future_fulfill_promise_result cbs fire f p F)"
    "matches (Future_fulfill_promise_result_void cbs fire f p F) (Future_fulfill_promise_result_void cbs fire f p F)"
    "matches (Future_fulfill_promise_valuetype cbs fire f p F) (Future_fulfill_promise_valuetype cbs fire f p F)"
    "matches (Future_fulfill_promise_void cbs fire f p F) (Future_fulfill_promise_void cbs fire f p F)"
  by (auto simp: Future_fulfill_promise_result_def Future_fulfill_promise_result_void_def
      Future_fulfill_promise_valuetype_def Future_fulfill_promise_void_def void_collapse settle_cases
      intro!: matching matches_catch fire blind [OF cbs])

lemma matches_closure [matching]:
  assumes fire: "fires_alike fire" and cbs: "class_blind cbs"
    and same: "primary_closure k = primary_closure k'"
  shows "matches (run_closure cbs fire k F) (run_closure cbs fire k' F)"
proof (cases k)
  case (Continuation kind v f p)
  with same obtain v' where k': "k' = Continuation kind v' f p" by (cases k') auto
  show ?thesis unfolding Continuation k'
    by (cases kind; cases v; cases v')
      (simp_all add: FV_fulfill matches_fulfill_future [OF fire cbs] matches_fulfill [OF fire cbs])
next
  case (InnerContinuation v b p)
  with same obtain v' where k': "k' = InnerContinuation v' b p" by (cases k') auto
  show ?thesis unfolding InnerContinuation k'
    by (cases b; cases v; cases v') (simp_all add: FV_inner matches_inner [OF fire])
qed

lemma matches_FireContinuation:
  assumes fire: "fires_alike fire" and cbs: "class_blind cbs"
  shows "matches (FireContinuation (run_closure cbs fire) a) (FireContinuation (run_closure cbs fire) a)"
proof (cases a)
  case None
  then show ?thesis by (simp add: matches_def agree_def FireContinuation_eq)
next
  case (Some s)
  show ?thesis
  proof (rule matchesI)
    fix h h' :: "('a, 'b) heap" assume al: "alike h h'"
    let ?x = "states h ! s" and ?y = "states h' ! s"
    have at: "map_option primary_closure (unique_continuation ?x) = map_option primary_closure (unique_continuation ?y)"
      "delegate_future ?y = delegate_future ?x"
      using alike_at [OF al, of s] by (simp_all add: primary_state_eq)
    show "agree (FireContinuation (run_closure cbs fire) a h) (FireContinuation (run_closure cbs fire) a h')"
    proof (cases "unique_continuation ?x")
      case None
      with at Some al show ?thesis by (simp add: FireContinuation_eq agree_def)
    next
      case (Some k)
      with at obtain k' where k': "unique_continuation ?y = Some k'" "primary_closure k = primary_closure k'"
        by (auto simp: map_option_case split: option.splits)
      have "agree (State_get_future s h) (State_get_future s h')"
        using al at by (auto simp: State_get_future_def agree_def primary_state_def)
      moreover have "agree (run_closure cbs fire k F g) (run_closure cbs fire k' F g')" if "alike g g'" for F g g'
        using matches_closure [OF fire cbs k'(2)] that by (simp add: matches_def)
      ultimately show ?thesis
        using \<open>a = Some s\<close> Some k'
        by (auto simp: FireContinuation_eq pbind_def agree_def State_get_future_def split_def)
    qed
  qed
qed

lemma fires_alike_within:
  assumes "class_blind cbs"
  shows "fires_alike (fire_within cbs n)"
proof (induction n)
  case 0
  then show ?case by (simp add: fires_alike_def matches_pfail)
next
  case (Suc n)
  from matches_FireContinuation [OF Suc assms] show ?case by (simp add: fires_alike_def)
qed

section \<open>then\<close>

lemma matches_then:
  assumes cbs: "class_blind cbs" and fire: "fires_alike fire"
  shows "matches (FV_then cbs fire kind f F) (Future_then cbs fire kind f F)"
    "matches (Future_then cbs fire kind f F) (Future_then cbs fire kind f F)"
  by (cases kind, simp_all only: FV_then.simps Future_then.simps FV_then_future_def Future_then_future_def
      FV_then_result_def Future_then_result_def FV_then_value_def Future_then_value_def FV_then_void_def
      Future_then_void_def void_collapse if_True if_False,
      (intro matching matches_closure fire cbs; simp)+)+

section \<open>The members of the specialisations\<close>

text \<open>
  C34. The specialisations for \<open>void\<close>, written out a second time in the code, do what the primary
  templates do with the value \<open>Void\<close>. The members of \<open>Promise<void>\<close> and those of \<open>Future<void>\<close>
  other than \<open>then\<close> have the same outcome and leave the same heap. Every \<open>then\<close> has the same outcome
  from heaps that differ only in the class the stored lambdas belong to, and so does every later
  setter, with all the continuations it runs, if the callables do not see that class: the heaps keep
  differing in nothing else. There are two differences. The move constructor of \<open>Promise<void>\<close> moves the members before it takes the mutex,
  that of \<open>Promise<T>\<close> after; the move constructor of \<open>Future<T>\<close> moves them before, that of
  \<open>Future<void>\<close> after. While a thread holds the mutex the source is already emptied in the one class
  and whole in the other.
\<close>

theorem Future_void_agrees:
  fixes h h' :: "('v, 'f) heap"
  assumes blind: "class_blind cbs" and alike: "alike h h'"
  shows "PV_ctor h = Promise_ctor h \<and> PV_dtor p h = Promise_dtor p h
    \<and> PV_move_assign p q h = Promise_move_assign p q h \<and> PV_swap p q h = Promise_swap p q h
    \<and> PV_get_future p h = Promise_get_future p h
    \<and> PV_set_value fire p h = Promise_set_value_rvalue fire p Void h
    \<and> PV_SetError_rvalue fire p e h = Promise_SetError_rvalue fire p e h
    \<and> PV_SetError_lvalue fire p e h = Promise_SetError_lvalue fire p e h
    \<and> PV_set_exception fire p ex h = Promise_set_exception fire p ex h
    \<and> PV_move_ctor p h =
        (if mutex_held (promise_at h p)
         then (Blocks, set_promise p \<lparr>delegate_promise = None, extra_state = None, mutex_held = True\<rparr> h)
         else Promise_move_ctor p h)
    \<and> Promise_move_ctor p h =
        (if mutex_held (promise_at h p) then (Blocks, h) else PV_move_ctor p h)
    \<and> FV_ctor df es = Future_ctor df es \<and> FV_default = Future_default
    \<and> Future_move_ctor taken F = (if taken then (Blocks, Future_default) else FV_move_ctor taken F)
    \<and> FV_move_ctor taken F = (if taken then (Blocks, F) else Future_move_ctor taken F)
    \<and> FV_move_assign self l1 l2 F G = Future_move_assign self l1 l2 F G
    \<and> FV_GetResult F h = Future_GetResult F h
    \<and> FV_GetResult_no_exceptions F h = Future_GetResult_no_exceptions F h
    \<and> FV_get F h = map_prod (\<lambda>r. obind r (\<lambda>_. Ret ())) id (Future_get F h)
    \<and> FV_valid F = Future_valid F \<and> FV_wait F h = Future_wait F h
    \<and> FV_wait_for F h = Future_wait_for F h \<and> FV_wait_until F h = Future_wait_until F h
    \<and> FV_is_ready F h = Future_is_ready F h
    \<and> agree (FV_then cbs (fire_within cbs n) kind f F h) (Future_then cbs (fire_within cbs n) kind f F h')
    \<and> agree (PV_set_value (fire_within cbs n) p h) (Promise_set_value_rvalue (fire_within cbs n) p Void h')
    \<and> agree (PV_SetError_rvalue (fire_within cbs n) p e h) (Promise_SetError_rvalue (fire_within cbs n) p e h')
    \<and> agree (PV_set_exception (fire_within cbs n) p ex h) (Promise_set_exception (fire_within cbs n) p ex h')
    \<and> Future_GetResult F h = Future_GetResult F h'"
proof -
  have get: "FV_get F h = map_prod (\<lambda>r. obind r (\<lambda>_. Ret ())) id (Future_get F h)"
    by (simp add: FV_get_def Future_get_def FV_basic split_def Let_def obind_assoc)
  have moved: "promise_at h p\<lparr>delegate_promise := None, extra_state := None\<rparr> =
      \<lparr>delegate_promise = None, extra_state = None, mutex_held = mutex_held (promise_at h p)\<rparr>"
    by (cases "promise_at h p") simp
  have ctor: "PV_move_ctor p h =
        (if mutex_held (promise_at h p)
         then (Blocks, set_promise p \<lparr>delegate_promise = None, extra_state = None, mutex_held = True\<rparr> h)
         else Promise_move_ctor p h)"
    "Promise_move_ctor p h = (if mutex_held (promise_at h p) then (Blocks, h) else PV_move_ctor p h)"
    using moved by (cases "mutex_held (promise_at h p)";
      simp only: PV_move_ctor_def Promise_move_ctor_def Let_def if_True if_False)+
  have future: "Future_move_ctor taken F = (if taken then (Blocks, Future_default) else FV_move_ctor taken F)"
    "FV_move_ctor taken F = (if taken then (Blocks, F) else Future_move_ctor taken F)"
    by (simp_all add: Future_move_ctor_def FV_move_ctor_def void_copy)
  note fires = fires_alike_within [OF blind]
  have set: "agree (settle (fire_within cbs n) p c h) (settle (fire_within cbs n) p c h')" for c
    using matches_settle [OF fires] alike by (simp add: matches_def)
  have "agree (FV_then cbs (fire_within cbs n) kind f F h) (Future_then cbs (fire_within cbs n) kind f F h')"
    using matches_then(1) [OF blind fires] alike by (simp add: matches_def)
  then show ?thesis
    using ctor future set alike_GetResult [OF alike, of F]
    by (simp only: get FV_basic PV_basic settle_cases simp_thms refl)
qed

text \<open>The callables of the witness: they return a constant, a stored result or a future.\<close>

definition plain_callables :: "(int, int) callables" where
  "plain_callables = \<lparr>on_future = \<lambda>f _. pret (Future_ctor (Some 0) (Some 0)), on_result = \<lambda>f _. pret (HasV (Val f)),
                      on_value = \<lambda>f _. pret (Val f), on_void = \<lambda>f _. pret ()\<rparr>"

theorem Future_void_agrees_witness:
  "agree (FV_then plain_callables (fire_within plain_callables 2) KValue 7 (Future_ctor (Some 0) (Some 0)) fresh_heap)
     (Future_then plain_callables (fire_within plain_callables 2) KValue 7 (Future_ctor (Some 0) (Some 0)) fresh_heap)
   \<and> FV_then plain_callables (fire_within plain_callables 2) KValue 7 (Future_ctor (Some 0) (Some 0)) fresh_heap
     \<noteq> Future_then plain_callables (fire_within plain_callables 2) KValue 7 (Future_ctor (Some 0) (Some 0)) fresh_heap"
proof -
  have "class_blind plain_callables"
    by (simp add: class_blind_def plain_callables_def matches_pret)
  from Future_void_agrees [OF this alike_refl [of fresh_heap], where n = 2 and kind = KValue and f = 7
      and F = "Future_ctor (Some 0) (Some 0)" and p = 0 and q = 0 and fire = "\<lambda>_. pret ()"
      and e = "std_errc 1" and ex = NonStdException and df = None and es = None and taken = True
      and self = True and ?l1.0 = True and ?l2.0 = True and G = Future_default]
  have "agree (FV_then plain_callables (fire_within plain_callables 2) KValue 7 (Future_ctor (Some 0) (Some 0)) fresh_heap)
     (Future_then plain_callables (fire_within plain_callables 2) KValue 7 (Future_ctor (Some 0) (Some 0)) fresh_heap)"
    by blast
  then show ?thesis
    by (simp add: fresh_heap_eq FV_then_value_def Future_then_value_def Promise_ctor_def new_shared_def
        State_ctor_def new_promise_def pbind_def Promise_get_future_def std_get_future_def pret_def
        promise_at_def set_promise_def Promise_move_ctor_def Future_is_ready_def FV_is_ready_def
        std_wait_status_def Future_ctor_def SetContinuation_def nth_append)
qed

end
