(* ===== verification/Race_Outcomes.thy ===== *)
theory Race_Outcomes
  imports Race_Refinement State_Lifetimes
begin

text \<open>
  What becomes of a continuation when \<open>then\<close> and a setter interleave badly: an interleaving in which
  it is stored and forgotten, with what its future gives afterwards, and one in which it runs with
  a future that has no state.
\<close>

section \<open>The interleaving that loses the continuation\<close>

text \<open>The heap in the end: the content is set and the closure is stored, with the future.\<close>

definition lost_heap :: "addr \<Rightarrow> addr \<Rightarrow> 'v content \<Rightarrow> 'f closure \<Rightarrow> ('v, 'f) heap \<Rightarrow> ('v, 'f) heap" where
  "lost_heap a s c K h = attach s K (Some a) (store a c (spawn h))"

lemma run_lost:
  fixes cbs :: "('v, 'f) callables"
  assumes set: "race_setting cbs k f p a s c d e h"
  defines "K \<equiv> Continuation k False f (next_promise h)"
  shows "(thread_step cbs fire k f p a s c)\<^sup>*\<^sup>* (threads_init h)
    \<lparr>heap_now = lost_heap a s c K h, then_thread = Then_done, setter_thread = Set_done, made = K,
     taken = Future_default, passed = [], met = True\<rparr>"
proof -
  let ?R = "thread_step cbs fire k f p a s c"
  let ?st = "\<lambda>H tp sp m. \<lparr>heap_now = H, then_thread = tp, setter_thread = sp, made = K, taken = Future_default,
      passed = [], met = m\<rparr>"
  have own: "owns h p a s" and pend: "content_at h a = Pending" and c: "c \<noteq> Pending"
    and none: "states h ! s = \<lparr>unique_continuation = None, delegate_future = None\<rparr>"
    using set by (simp_all add: race_setting_def)
  have dom: "a < length (shared h)" "s < length (states h)" "p < length (promises h)"
    using own by (simp_all add: owns_def)
  let ?h = "spawn h" and ?g = "store a c (spawn h)"
  have own1: "owns ?h p a s" "content_at ?h a = Pending" "s < length (states ?g)" "\<not> HasContinuation s ?g"
    using own pend dom none by (simp_all add: spawn_simps HasContinuation_def)
  have delegate: "delegate_promise (promise_at (locked p ?h) p) = Some a"
    using own1(1) by (simp add: locked_def owns_def promise_at_def set_promise_def)
  let ?X = "?g\<lparr>states := (states ?g)[s := (states ?g ! s)\<lparr>unique_continuation := Some K\<rparr>]\<rparr>"
  have lost: "?X\<lparr>states := (states ?X)[s := (states ?X ! s)\<lparr>delegate_future := Some a\<rparr>]\<rparr> = lost_heap a s c K h"
    using own1(3) by (cases "states ?g ! s") (simp add: lost_heap_def attach_def)
  have "?R\<^sup>*\<^sup>* (threads_init h) (threads_init h)" by simp
  then have "?R\<^sup>*\<^sup>* (threads_init h) (?st ?h Then_locked Set_start False)"
    by (rule run_on [OF _ thread_step.prologue [where q = "next_promise h" and h = ?h]])
      (simp_all add: threads_init_def prologue_eq K_def)
  then have "?R\<^sup>*\<^sup>* (threads_init h) (?st ?h Then_not_ready Set_start False)"
    by (rule run_on [OF _ thread_step.is_pending]) (use own1(2) in \<open>simp_all add: is_ready_eq Future_ctor_def\<close>)
  then have "?R\<^sup>*\<^sup>* (threads_init h) (?st (locked p ?h) Then_not_ready Set_locked False)"
    by (rule run_on [OF _ thread_step.lock_promise]) (use own1 in \<open>simp_all add: owns_def promise_at_def\<close>)
  then have "?R\<^sup>*\<^sup>* (threads_init h) (?st (locked p ?g) Then_not_ready Set_stored False)"
    by (rule run_on [OF _ thread_step.set_content [where h = "locked p ?g"]])
      (use own1(2) delegate in \<open>simp_all add: std_set_eq store_locked\<close>)
  then have "?R\<^sup>*\<^sup>* (threads_init h) (?st ?g Then_not_ready Set_done True)"
    by (rule run_on [OF _ thread_step.no_continuation])
      (use own1 in \<open>simp_all add: HasContinuation_def then_between_def\<close>)
  then have "?R\<^sup>*\<^sup>* (threads_init h) (?st ?X Then_continuation_set Set_done True)"
    by (rule run_on [OF _ thread_step.assign_continuation [where h = ?g]]) simp_all
  then have "?R\<^sup>*\<^sup>* (threads_init h) (?st (lost_heap a s c K h) Then_future_set Set_done True)"
    by (rule run_on [OF _ thread_step.assign_future [where h = ?X]]) (simp_all add: lost [symmetric])
  then show ?thesis
    by (rule run_on [OF _ thread_step.unlock_state]) simp_all
qed

lemma lost_heap_facts:
  fixes h :: "('v, 'f) heap" and f :: 'f and k :: then_kind
  assumes ok: "heap_ok h" and own: "owns h p a s" and c: "c \<noteq> Pending"
  defines "K \<equiv> Continuation k False f (next_promise h)" and "b \<equiv> length (shared h)" and "t \<equiv> length (states h)"
  defines "g \<equiv> lost_heap a s c K h"
  shows "heap_ok g" "owns g p a s" "content_at g a = c" "content_at g b = Pending"
    "unique_continuation (states g ! s) = Some K" "waiting g s [(next_promise h, b, t)]"
    "apart p a s [(next_promise h, b, t)]"
proof -
  have dom: "a < length (shared h)" "s < length (states h)" "p < length (promises h)"
    using own by (simp_all add: owns_def)
  show "heap_ok g" unfolding g_def lost_heap_def
    using results.spawn_respects [OF ok] by (intro heap_ok_attach) (simp_all add: spawn_simps K_def next_promise_def)
  show "owns g p a s" "content_at g a = c" and pend: "content_at g b = Pending"
    and stored: "unique_continuation (states g ! s) = Some K"
    using own dom by (simp_all add: g_def lost_heap_def spawn_simps b_def)
  have "owns g (next_promise h) b t"
    by (simp add: g_def lost_heap_def owns_def spawn_def next_promise_def nth_append attach_def b_def t_def)
  then show "waiting g s [(next_promise h, b, t)]"
    using stored pend dom by (simp add: K_def) (simp add: g_def lost_heap_def attach_def spawn_def nth_append t_def)
  show "apart p a s [(next_promise h, b, t)]"
    using dom by (simp add: apart_def next_promise_def b_def t_def)
qed

text \<open>What the next future gives on this heap, and when the promise and the futures are destroyed.\<close>

lemma lost_heap_future:
  fixes h :: "('v, 'f) heap" and f :: 'f and k :: then_kind
  assumes ok: "heap_ok h" and own: "owns h p a s" and c: "c \<noteq> Pending"
  defines "g \<equiv> lost_heap a s c (Continuation k False f (next_promise h)) h"
  shows "fst (Future_GetResult (next_future h) g) = Blocks"
    "fst (Future_GetResult (next_future h) (Promise_destroy held p g)) =
       (if s \<in> set held then Blocks else Ret (HasE (MakeErrorCode_future broken_promise 0)))"
    "s \<notin> set held \<Longrightarrow> fst (Future_GetResult (next_future h)
       (snd (Future_destroy (s # held) (Future_ctor None (Some s)) (Promise_destroy (s # held) p g)))) =
       Ret (HasE (MakeErrorCode_future broken_promise 0))"
proof -
  let ?b = "length (shared h)" and ?S = "length (states h)"
  have g: "heap_ok g" "owns g p a s" "content_at g ?b = Pending" "waiting g s [(next_promise h, ?b, ?S)]"
    "apart p a s [(next_promise h, ?b, ?S)]"
    unfolding g_def by (rule lost_heap_facts [OF ok own c])+
  have get: "fst (Future_GetResult (next_future h) H) =
      (case content_at H ?b of Pending \<Rightarrow> Blocks | Stored r \<Rightarrow> Ret r
       | StoredException ex \<Rightarrow> (case exn_errc ex of Some e \<Rightarrow> Ret (HasE e)
           | None \<Rightarrow> Terminates ''exception leaves a noexcept function''))" for H :: "('v, 'f) heap"
    by (simp add: GetResult_eq next_future_def split: content.split)
  from g(3) show "fst (Future_GetResult (next_future h) g) = Blocks" by (simp add: get)
  have gone: "content_at (Promise_destroy held p g) ?b =
      (if s \<in> set held then Pending else StoredException (StdFutureError 4))" for held
    using destroy_along [OF g(1,2,4,5)] g(3) own by (auto simp: owns_def)
  then show "fst (Future_GetResult (next_future h) (Promise_destroy held p g)) =
      (if s \<in> set held then Blocks else Ret (HasE (MakeErrorCode_future broken_promise 0)))"
    by (simp add: get std_errc_def)
  show "fst (Future_GetResult (next_future h)
      (snd (Future_destroy (s # held) (Future_ctor None (Some s)) (Promise_destroy (s # held) p g)))) =
      Ret (HasE (MakeErrorCode_future broken_promise 0))" if "s \<notin> set held"
    using destroy_later(1) [OF g(1,2,4,5), of s "s # held"] gone [of held] that
    by (simp add: Future_destroy_def Future_ctor_def get std_errc_def)
qed

section \<open>The property\<close>

text \<open>
  C16. The loss of a continuation and its run with an invalid future happen on the heap. In one
  interleaving both calls return, the value is set, the closure is stored and has not run: no
  thread has a step left, every setter of the promise throws \<open>promise_already_satisfied\<close> from then on and
  runs nothing, and \<open>GetResult\<close> on the next future blocks. It goes on to block when the promise is
  destroyed, as long as a future refers to the \<open>State\<close>; with the last reference the closure is
  destroyed unrun and the next future gets \<open>broken_promise\<close>, where the callable would have made its
  outcome of the value. In another interleaving the next future holds what the callable makes of a future
  without state, instead of what it makes of the value.
\<close>

theorem Race_loses_continuation:
  fixes n :: nat and h :: "('v, 'f) heap"
  assumes set: "race_setting cbs k f p a s c d e h" and ok: "heap_ok h"
  defines "run \<equiv> thread_step cbs (fire_within cbs (Suc n)) k f p a s c"
    and "satisfied \<equiv> Throws (StdFutureError future_errc_already_satisfied)"
    and "broken \<equiv> Ret (HasE (MakeErrorCode_future broken_promise 0))"
  shows "(\<exists>t. run\<^sup>*\<^sup>* (threads_init h) t \<and> race_finished (abs_race a s t) \<and>
           content_at (heap_now t) a = c \<and> HasContinuation s (heap_now t) \<and> passed t = [] \<and> (\<forall>t'. \<not> run t t') \<and>
           (\<forall>fire v er ex. Promise_set_value_lvalue fire p v (heap_now t) = (satisfied, heap_now t) \<and>
              Promise_set_value_rvalue fire p v (heap_now t) = (satisfied, heap_now t) \<and>
              Promise_SetError_lvalue fire p er (heap_now t) = (satisfied, heap_now t) \<and>
              Promise_SetError_rvalue fire p er (heap_now t) = (satisfied, heap_now t) \<and>
              Promise_set_exception fire p ex (heap_now t) = (satisfied, heap_now t)) \<and>
           fst (Future_GetResult (next_future h) (heap_now t)) = Blocks \<and>
           (\<forall>held. fst (Future_GetResult (next_future h) (Promise_destroy held p (heap_now t))) =
                     (if s \<in> set held then Blocks else broken) \<and>
              (s \<notin> set held \<longrightarrow>
                 fst (Future_GetResult (next_future h)
                   (snd (Future_destroy (s # held) (Future_ctor None (Some s)) (Promise_destroy (s # held) p (heap_now t))))) =
                 broken)))
       \<and> (\<exists>t. run\<^sup>*\<^sup>* (threads_init h) t \<and> race_finished (abs_race a s t) \<and>
           content_at (heap_now t) a = c \<and> content_at (heap_now t) (length (shared h)) = e)"
proof (rule conjI)
  let ?K = "Continuation k False f (next_promise h)"
  let ?g = "lost_heap a s c ?K h"
  let ?t = "\<lparr>heap_now = ?g, then_thread = Then_done, setter_thread = Set_done, made = ?K,
     taken = Future_default, passed = [], met = True\<rparr>"
  have own: "owns h p a s" and c: "c \<noteq> Pending" using set by (simp_all add: race_setting_def)
  have g: "owns ?g p a s" "content_at ?g a = c" "unique_continuation (states ?g ! s) = Some ?K"
    by (rule lost_heap_facts [OF ok own c])+
  have "run\<^sup>*\<^sup>* (threads_init h) ?t" unfolding run_def by (rule run_lost [OF set])
  moreover have "\<not> run ?t t'" for t' by (auto simp: run_def elim: thread_stepE)
  moreover have "settle fire p x ?g = (satisfied, ?g)" for fire x
    using settle_satisfied [OF g(1)] g(2) c by (simp add: satisfied_def)
  moreover note lost_heap_future [OF ok own c, where k = k and f = f, folded broken_def]
  ultimately show "\<exists>t. run\<^sup>*\<^sup>* (threads_init h) t \<and> race_finished (abs_race a s t) \<and>
           content_at (heap_now t) a = c \<and> HasContinuation s (heap_now t) \<and> passed t = [] \<and> (\<forall>t'. \<not> run t t') \<and>
           (\<forall>fire v er ex. Promise_set_value_lvalue fire p v (heap_now t) = (satisfied, heap_now t) \<and>
              Promise_set_value_rvalue fire p v (heap_now t) = (satisfied, heap_now t) \<and>
              Promise_SetError_lvalue fire p er (heap_now t) = (satisfied, heap_now t) \<and>
              Promise_SetError_rvalue fire p er (heap_now t) = (satisfied, heap_now t) \<and>
              Promise_set_exception fire p ex (heap_now t) = (satisfied, heap_now t)) \<and>
           fst (Future_GetResult (next_future h) (heap_now t)) = Blocks \<and>
           (\<forall>held. fst (Future_GetResult (next_future h) (Promise_destroy held p (heap_now t))) =
                     (if s \<in> set held then Blocks else broken) \<and>
              (s \<notin> set held \<longrightarrow>
                 fst (Future_GetResult (next_future h)
                   (snd (Future_destroy (s # held) (Future_ctor None (Some s)) (Promise_destroy (s # held) p (heap_now t))))) =
                 broken))"
    using g by (intro exI [of _ ?t]) (simp add: race_finished_def abs_race_def HasContinuation_def settle_cases)
  obtain r where r: "race_reachable r" "race_finished r" "runs r = [False]"
    using Future_race_invalid_future by blast
  obtain t where t: "run\<^sup>*\<^sup>* (threads_init h) t" "abs_race a s t = r"
    using race_reachable_concrete [OF set r(1), of n] run_def by blast
  have "next_content d e (passed t) = e" using t r by (auto simp: abs_race_def next_content_def)
  moreover have "content_at (heap_now t) a = c \<and> content_at (heap_now t) (length (shared h)) = next_content d e (passed t)"
    using threads_simulate [OF t(1) [unfolded run_def] set] r(2) t(2)
    by (auto simp: race_finished_def abs_race_def threads_inv_def Let_def)
  ultimately show "\<exists>t. run\<^sup>*\<^sup>* (threads_init h) t \<and> race_finished (abs_race a s t) \<and>
      content_at (heap_now t) a = c \<and> content_at (heap_now t) (length (shared h)) = e"
    using t r(2) by auto
qed

theorem Race_loses_continuation_witness:
  "\<exists>t. (thread_step add_callables (fire_within add_callables 1) KValue 7 0 0 0 (Stored (HasV (Val 5))))\<^sup>*\<^sup>*
         (threads_init fresh_heap) t
     \<and> content_at (heap_now t) 0 = Stored (HasV (Val 5))
     \<and> fst (Future_GetResult (next_future fresh_heap) (heap_now t)) = Blocks
     \<and> fst (Future_GetResult (next_future fresh_heap) (Promise_destroy [] 0 (heap_now t))) =
         Ret (HasE (MakeErrorCode_future broken_promise 0))"
proof -
  have "heap_ok fresh_heap"
    by (auto simp: fresh_heap_eq heap_ok_def links_def continuations_def linked_def unshared_def)
  from Race_loses_continuation [OF race_setting_example this, of 0] show ?thesis
    by (simp only: One_nat_def) (metis empty_iff empty_set)
qed

end
