(* ===== verification/Test_Promise.thy ===== *)
theory Test_Promise
  imports Codelabs State_Lifetimes
begin

text \<open>
  \<open>testPromise.cpp\<close> with its two threads as a step relation: the detached thread that calls \<open>SetError\<close>, in
  the parts between which \<open>main\<close> can run, and \<open>main\<close>, which waits, gets, prints and returns. The
  promise is a local of \<open>main\<close>.
\<close>

section \<open>The steps\<close>

datatype a_pc = A_sleeping | A_locked | A_stored | A_fired | A_done | A_dangling

datatype 'v tp_main_pc = Main_waits | Main_ready | Main_got "('v val, ErrorCode) rslt" | Main_printed | Main_returned

record 'f test_promise =
  tp_heap :: "(int32_t, 'f) heap"
  tp_future :: Future
  a_at :: a_pc
  tp_main :: "int32_t tp_main_pc"
  tp_out :: string

definition a_error :: "int32_t content" where
  "a_error = Stored (HasE (ErrorCode_of_enum MakeErrorCode_future future_already_retrieved 0))"

text \<open>The locals of \<open>main\<close> are destroyed in the reverse order of their declaration.\<close>

definition testPromise_return :: "addr \<Rightarrow> Future \<Rightarrow> (int32_t, 'f) heap \<Rightarrow> (int32_t, 'f) heap" where
  "testPromise_return p f h =
     (let (held, h') = Future_destroy (case extra_state_of f of None \<Rightarrow> [] | Some s \<Rightarrow> [s]) f h
      in Promise_destroy held p h')"

text \<open>
  Once \<open>main\<close> has returned, whatever the thread does next with the promise it does with an object
  that is no more: it is \<open>A_dangling\<close>.
\<close>

inductive testPromise_step :: "(int32_t, 'f) fire \<Rightarrow> addr \<Rightarrow> 'f test_promise \<Rightarrow> 'f test_promise \<Rightarrow> bool"
  for fire p where
  a_locks: "a_at S = A_sleeping \<Longrightarrow> tp_main S \<noteq> Main_returned \<Longrightarrow> \<not> mutex_held (promise_at (tp_heap S) p) \<Longrightarrow>
    testPromise_step fire p S (S\<lparr>a_at := A_locked, tp_heap := locked p (tp_heap S)\<rparr>)"
| a_stores: "a_at S = A_locked \<Longrightarrow> tp_main S \<noteq> Main_returned \<Longrightarrow>
    std_set (delegate_promise (promise_at (tp_heap S) p)) a_error (tp_heap S) = (Ret (), h) \<Longrightarrow>
    testPromise_step fire p S (S\<lparr>a_at := A_stored, tp_heap := h\<rparr>)"
| a_fires: "a_at S = A_stored \<Longrightarrow> tp_main S \<noteq> Main_returned \<Longrightarrow>
    fire (extra_state (promise_at (tp_heap S) p)) (tp_heap S) = (Ret (), h) \<Longrightarrow>
    testPromise_step fire p S (S\<lparr>a_at := A_fired, tp_heap := h\<rparr>)"
| a_unlocks: "a_at S = A_fired \<Longrightarrow> tp_main S \<noteq> Main_returned \<Longrightarrow>
    testPromise_step fire p S (S\<lparr>a_at := A_done, tp_heap := unlocked p (tp_heap S)\<rparr>)"
| a_dangles: "a_at S \<notin> {A_done, A_dangling} \<Longrightarrow> tp_main S = Main_returned \<Longrightarrow>
    testPromise_step fire p S (S\<lparr>a_at := A_dangling\<rparr>)"
| main_wakes: "tp_main S = Main_waits \<Longrightarrow> Future_wait (tp_future S) (tp_heap S) = Ret () \<Longrightarrow>
    testPromise_step fire p S (S\<lparr>tp_main := Main_ready\<rparr>)"
| main_gets: "tp_main S = Main_ready \<Longrightarrow> Future_GetResult (tp_future S) (tp_heap S) = (Ret r, f) \<Longrightarrow>
    testPromise_step fire p S (S\<lparr>tp_main := Main_got r, tp_future := f\<rparr>)"
| main_prints: "tp_main S = Main_got r \<Longrightarrow> testPromise_report (Result_rep r) = Ret line \<Longrightarrow>
    testPromise_step fire p S (S\<lparr>tp_main := Main_printed, tp_out := tp_out S @ line\<rparr>)"
| main_returns: "tp_main S = Main_printed \<Longrightarrow>
    testPromise_step fire p S
      (S\<lparr>tp_main := Main_returned, tp_heap := testPromise_return p (tp_future S) (tp_heap S)\<rparr>)"

inductive_cases testPromise_stepE: "testPromise_step fire p S S'"

text \<open>After \<open>a.detach()\<close>, in a program whose heap was \<open>h\<close>.\<close>

definition testPromise_init :: "(int32_t, 'f) heap \<Rightarrow> 'f test_promise" where
  "testPromise_init h =
     (let (r, h') = testPromise_start h
      in \<lparr>tp_heap = h', tp_future = (case r of Ret (p, f) \<Rightarrow> f | _ \<Rightarrow> Future_default), a_at = A_sleeping,
          tp_main = Main_waits, tp_out = []\<rparr>)"

definition testPromise_over :: "'f test_promise \<Rightarrow> bool" where
  "testPromise_over S \<longleftrightarrow> tp_main S = Main_returned \<and> a_at S \<in> {A_done, A_dangling}"

section \<open>The invariant\<close>

fun a_steps :: "a_pc \<Rightarrow> nat" where
  "a_steps A_sleeping = 0"
| "a_steps A_locked = 1"
| "a_steps A_stored = 2"
| "a_steps A_fired = 3"
| "a_steps A_done = 4"
| "a_steps A_dangling = 4"

fun tp_main_steps :: "'v tp_main_pc \<Rightarrow> nat" where
  "tp_main_steps Main_waits = 0"
| "tp_main_steps Main_ready = 1"
| "tp_main_steps (Main_got r) = 2"
| "tp_main_steps Main_printed = 3"
| "tp_main_steps Main_returned = 4"

definition the_line :: string where
  "the_line = ''future already retrieved'' @ nl"

text \<open>While \<open>main\<close> has not returned the heap depends on the thread alone.\<close>

fun a_heap :: "(int32_t, 'f) heap \<Rightarrow> a_pc \<Rightarrow> (int32_t, 'f) heap" where
  "a_heap h A_sleeping = started h"
| "a_heap h A_locked = locked (length (promises h)) (started h)"
| "a_heap h A_stored = half_done h"
| "a_heap h A_fired = half_done h"
| "a_heap h A_done = store (length (shared h)) a_error (started h)"
| "a_heap h A_dangling = started h"

definition testPromise_inv :: "(int32_t, 'f) heap \<Rightarrow> nat \<Rightarrow> 'f test_promise \<Rightarrow> bool" where
  "testPromise_inv h k S \<longleftrightarrow>
     (tp_main S \<noteq> Main_returned \<longrightarrow> tp_heap S = a_heap h (a_at S) \<and> a_at S \<noteq> A_dangling)
     \<and> (tp_main S \<in> {Main_waits, Main_ready} \<longrightarrow>
          tp_future S = Future_ctor (Some (length (shared h))) (Some (length (states h))))
     \<and> (tp_main S \<noteq> Main_waits \<longrightarrow> a_at S \<notin> {A_sleeping, A_locked})
     \<and> (\<forall>r. tp_main S = Main_got r \<longrightarrow> Stored r = a_error)
     \<and> tp_out S = (if tp_main S \<in> {Main_printed, Main_returned} then the_line else [])
     \<and> k \<le> a_steps (a_at S) + tp_main_steps (tp_main S)
     \<and> (a_at S \<noteq> A_dangling \<longrightarrow> k = a_steps (a_at S) + tp_main_steps (tp_main S))"

lemma a_heap_facts:
  fixes h :: "(int32_t, 'f) heap"
  defines "p \<equiv> length (promises h)" and "a \<equiv> length (shared h)" and "s \<equiv> length (states h)"
  assumes "pc \<noteq> A_dangling"
  shows "mutex_held (promise_at (a_heap h pc) p) \<longleftrightarrow> pc \<in> {A_locked, A_stored, A_fired}"
    "delegate_promise (promise_at (a_heap h pc) p) = Some a" "extra_state (promise_at (a_heap h pc) p) = Some s"
    "content_at (a_heap h pc) a = (if pc \<in> {A_sleeping, A_locked} then Pending else a_error)"
    "unique_continuation (states (a_heap h pc) ! s) = None"
proof -
  note start = testPromise_start_eq [of h, folded p_def a_def s_def]
  have pr: "promises (started h) ! p = \<lparr>delegate_promise = Some a, extra_state = Some s, mutex_held = False\<rparr>"
    "p < length (promises (started h))" "a < length (shared (started h))"
    using start(2) by (simp_all add: owns_def)
  show "mutex_held (promise_at (a_heap h pc) p) \<longleftrightarrow> pc \<in> {A_locked, A_stored, A_fired}"
    "delegate_promise (promise_at (a_heap h pc) p) = Some a" "extra_state (promise_at (a_heap h pc) p) = Some s"
    "content_at (a_heap h pc) a = (if pc \<in> {A_sleeping, A_locked} then Pending else a_error)"
    "unique_continuation (states (a_heap h pc) ! s) = None"
    using assms(4) pr start(3,4)
    by (cases pc; simp add: promise_at_def half_done_def store_locked locked_def set_promise_def
        p_def [symmetric] a_def [symmetric] a_error_def ErrorCode_of_enum_def content_at_def store_def)+
qed

lemma testPromise_inv_init: "testPromise_inv h 0 (testPromise_init h)"
  by (simp add: testPromise_inv_def testPromise_init_def testPromise_start_eq)

lemma wait_eq: "Future_wait (Future_ctor (Some a) es) h = (if content_at h a = Pending then Blocks else Ret ())"
  by (simp add: Future_wait_def std_wait_def Future_ctor_def content_at_def)

lemma get_error:
  "content_at h a = a_error \<Longrightarrow>
   Future_GetResult (Future_ctor (Some a) es) h =
     (Ret (HasE (ErrorCode_of_enum MakeErrorCode_future future_already_retrieved 0)), Future_ctor None es)"
  by (simp add: GetResult_eq Future_ctor_def a_error_def)

lemma report_eq: "Stored r = a_error \<Longrightarrow> testPromise_report (Result_rep r) = Ret the_line"
  using testPromise_report_eq(1) [of 0] by (simp add: a_error_def ErrorCode_of_enum_def the_line_def)

lemma testPromise_inv_step:
  fixes h :: "(int32_t, 'f) heap"
  assumes step: "testPromise_step (fire_within cbs (Suc n)) (length (promises h)) S S'"
    and inv: "testPromise_inv h k S"
  shows "testPromise_inv h (Suc k) S'"
  using step
proof cases
  case a_locks
  with inv show ?thesis by (simp add: testPromise_inv_def)
next
  case (a_stores g)
  then have "std_set (Some (length (shared h))) a_error (a_heap h A_locked) = (Ret (), g)"
    using inv a_heap_facts(2) [of A_locked h] by (simp add: testPromise_inv_def)
  then have "g = half_done h"
    by (auto simp: std_set_eq half_done_def a_error_def ErrorCode_of_enum_def split: if_splits)
  with a_stores inv show ?thesis by (simp add: testPromise_inv_def)
next
  case (a_fires g)
  then have "g = half_done h"
    using inv a_heap_facts(3,5) [of A_stored h]
    by (simp add: testPromise_inv_def FireContinuation_eq)
  with a_fires inv show ?thesis by (simp add: testPromise_inv_def)
next
  case a_unlocks
  have "unlocked (length (promises h)) (half_done h) = a_heap h A_done"
    unfolding half_done_def store_locked
    using unlock_locked [of "store (length (shared h)) a_error (started h)"] testPromise_start_eq(2) [of h]
    by (simp add: a_error_def ErrorCode_of_enum_def)
  with a_unlocks inv show ?thesis by (simp add: testPromise_inv_def)
next
  case a_dangles
  with inv show ?thesis by (cases "a_at S") (simp_all add: testPromise_inv_def)
next
  case main_wakes
  then have "a_at S \<notin> {A_sleeping, A_locked}"
    using inv a_heap_facts(4) [of "a_at S" h] by (auto simp: testPromise_inv_def wait_eq split: if_splits)
  with main_wakes inv show ?thesis by (simp add: testPromise_inv_def)
next
  case (main_gets r f)
  then have "content_at (tp_heap S) (length (shared h)) = a_error"
    using inv a_heap_facts(4) [of "a_at S" h] by (simp add: testPromise_inv_def)
  with main_gets inv show ?thesis by (auto simp: testPromise_inv_def get_error a_error_def)
next
  case (main_prints r line)
  with inv report_eq [of r] show ?thesis by (auto simp: testPromise_inv_def)
next
  case main_returns
  with inv show ?thesis by (simp add: testPromise_inv_def)
qed

section \<open>Progress\<close>

declare fire_within.simps [simp del]

lemma a_moves:
  fixes h :: "(int32_t, 'f) heap"
  assumes inv: "testPromise_inv h k S" and a: "a_steps (a_at S) < 4" and m: "tp_main S \<noteq> Main_returned"
  shows "\<exists>S'. testPromise_step (fire_within cbs (Suc n)) (length (promises h)) S S'
    \<and> a_steps (a_at S') = Suc (a_steps (a_at S)) \<and> a_at S' \<noteq> A_dangling \<and> tp_main S' = tp_main S"
proof -
  have heap: "tp_heap S = a_heap h (a_at S)" "a_at S \<noteq> A_dangling"
    using inv m by (simp_all add: testPromise_inv_def)
  note facts = a_heap_facts [OF heap(2), of h, folded heap(1)]
  show ?thesis
  proof (cases "a_at S")
    case A_sleeping
    with testPromise_step.a_locks [OF A_sleeping m] facts(1) show ?thesis by fastforce
  next
    case A_locked
    with facts obtain g where "std_set (delegate_promise (promise_at (tp_heap S) (length (promises h)))) a_error (tp_heap S) = (Ret (), g)"
      by (simp add: std_set_eq)
    from testPromise_step.a_stores [OF A_locked m this] A_locked show ?thesis by fastforce
  next
    case A_stored
    have "fire_within cbs (Suc n) (extra_state (promise_at (tp_heap S) (length (promises h)))) (tp_heap S) = (Ret (), tp_heap S)"
      using facts by (simp add: FireContinuation_eq fire_within.simps)
    from testPromise_step.a_fires [where S = S and fire = "fire_within cbs (Suc n)" and p = "length (promises h)", OF A_stored m this] A_stored show ?thesis by fastforce
  next
    case A_fired
    from testPromise_step.a_unlocks [OF A_fired m] A_fired show ?thesis by fastforce
  qed (use a in simp_all)
qed

lemma main_moves:
  fixes h :: "(int32_t, 'f) heap"
  assumes inv: "testPromise_inv h k S" and a: "a_at S \<notin> {A_sleeping, A_locked}" and m: "tp_main S \<noteq> Main_returned"
  shows "\<exists>S'. testPromise_step (fire_within cbs (Suc n)) (length (promises h)) S S'
    \<and> a_at S' = a_at S \<and> tp_main_steps (tp_main S') = Suc (tp_main_steps (tp_main S))"
proof -
  have heap: "tp_heap S = a_heap h (a_at S)" "a_at S \<noteq> A_dangling"
    using inv m by (simp_all add: testPromise_inv_def)
  have stored: "content_at (tp_heap S) (length (shared h)) = a_error"
    using a_heap_facts(4) [OF heap(2), of h] heap(1) a by simp
  show ?thesis
  proof (cases "tp_main S")
    case Main_waits
    then have "Future_wait (tp_future S) (tp_heap S) = Ret ()"
      using inv stored by (simp add: testPromise_inv_def wait_eq a_error_def)
    from testPromise_step.main_wakes [OF Main_waits this] Main_waits show ?thesis by fastforce
  next
    case Main_ready
    then obtain r f where "Future_GetResult (tp_future S) (tp_heap S) = (Ret r, f)"
      using inv get_error [OF stored] by (simp add: testPromise_inv_def)
    from testPromise_step.main_gets [OF Main_ready this] Main_ready show ?thesis by fastforce
  next
    case (Main_got r)
    then have "Stored r = a_error" using inv by (simp add: testPromise_inv_def)
    from testPromise_step.main_prints [OF Main_got report_eq [OF this]] Main_got show ?thesis by fastforce
  next
    case Main_printed
    from testPromise_step.main_returns [OF Main_printed] Main_printed show ?thesis by fastforce
  qed (use m in simp)
qed

lemma testPromise_goes_on:
  fixes h :: "(int32_t, 'f) heap"
  assumes inv: "testPromise_inv h k S" and over: "\<not> testPromise_over S"
  shows "\<exists>S'. testPromise_step (fire_within cbs (Suc n)) (length (promises h)) S S'"
proof (cases "tp_main S = Main_returned")
  case True
  with over show ?thesis
    using testPromise_step.a_dangles [of S] by (auto simp: testPromise_over_def)
next
  case False
  then show ?thesis
    using a_moves [OF inv _ False] main_moves [OF inv _ False]
    by (cases "a_at S \<in> {A_sleeping, A_locked}") fastforce+
qed

text \<open>The thread goes \<open>i\<close> steps, then \<open>main\<close> goes \<open>j\<close>.\<close>

lemma testPromise_reaches:
  fixes h :: "(int32_t, 'f) heap"
  assumes i: "i \<le> 4" and j: "j \<le> 4" "0 < j \<longrightarrow> 2 \<le> i"
  shows "\<exists>U. (testPromise_step (fire_within cbs (Suc n)) (length (promises h)))\<^sup>*\<^sup>* (testPromise_init h) U
    \<and> testPromise_inv h (i + j) U \<and> a_steps (a_at U) = i \<and> a_at U \<noteq> A_dangling \<and> tp_main_steps (tp_main U) = j"
  using j
proof (induction j)
  case 0
  from i show ?case
  proof (induction i)
    case 0
    have "a_at (testPromise_init h) = A_sleeping" "tp_main (testPromise_init h) = Main_waits"
      by (simp_all add: testPromise_init_def testPromise_start_eq)
    with testPromise_inv_init [of h] show ?case by (intro exI [of _ "testPromise_init h"]) simp
  next
    case (Suc i)
    then obtain U where U: "(testPromise_step (fire_within cbs (Suc n)) (length (promises h)))\<^sup>*\<^sup>* (testPromise_init h) U"
      "testPromise_inv h (i + 0) U" "a_steps (a_at U) = i" "tp_main_steps (tp_main U) = 0" by auto
    have "tp_main U \<noteq> Main_returned" using U(4) by auto
    with a_moves [OF U(2)] U(3,4) Suc.prems obtain V where V:
      "testPromise_step (fire_within cbs (Suc n)) (length (promises h)) U V"
      "a_steps (a_at V) = Suc i" "a_at V \<noteq> A_dangling" "tp_main_steps (tp_main V) = 0" by fastforce
    with rtranclp.rtrancl_into_rtrancl [OF U(1) V(1)] testPromise_inv_step [OF V(1) U(2)] show ?case by auto
  qed
next
  case (Suc j)
  then obtain U where U: "(testPromise_step (fire_within cbs (Suc n)) (length (promises h)))\<^sup>*\<^sup>* (testPromise_init h) U"
    "testPromise_inv h (i + j) U" "a_steps (a_at U) = i" "a_at U \<noteq> A_dangling" "tp_main_steps (tp_main U) = j" by auto
  have "tp_main U \<noteq> Main_returned" "a_at U \<notin> {A_sleeping, A_locked}" using U(3,5) Suc.prems by auto
  with main_moves [OF U(2)] U(5) obtain V where V:
    "testPromise_step (fire_within cbs (Suc n)) (length (promises h)) U V"
    "a_at V = a_at U" "tp_main_steps (tp_main V) = Suc j" by blast
  with U rtranclp.rtrancl_into_rtrancl [OF U(1) V(1)] testPromise_inv_step [OF V(1) U(2)] show ?case by auto
qed

lemma testPromise_runs:
  fixes h :: "(int32_t, 'f) heap"
  assumes "(testPromise_step (fire_within cbs (Suc n)) (length (promises h)) ^^ k) (testPromise_init h) S"
  shows "testPromise_inv h k S"
  using assms
  by (induction k arbitrary: S) (auto intro: testPromise_inv_init testPromise_inv_step)

lemma main_at_end: "tp_main_steps m = 4 \<longleftrightarrow> m = Main_returned" "tp_main_steps m = 3 \<longleftrightarrow> m = Main_printed"
  by (cases m; simp)+

lemma a_at_place: "a_steps x = 2 \<longleftrightarrow> x = A_stored" "a_steps x = 4 \<longleftrightarrow> x = A_done \<or> x = A_dangling"
  by (cases x; simp)+

section \<open>The property\<close>

text \<open>
  C40. In every interleaving of its two threads \<open>testPromise\<close> prints the message of the error that the
  detached thread sets, and nothing else: \<open>main\<close> passes \<open>wait\<close> only when the thread has stored it.
  The program comes to its end within eight steps and no thread is stuck on the way. But \<open>main\<close> does
  not wait for the thread to be done: it can print while the thread holds the mutex of the promise and has not
  looked for a continuation yet, and then it returns and destroys the promise, which the thread goes
  on to use. There is also a run in which the thread is done before.
\<close>

theorem testPromise_interleavings:
  fixes h :: "(int32_t, 'f) heap" and cbs :: "(int32_t, 'f) callables" and n :: nat
  defines "p \<equiv> length (promises h)"
  defines "run \<equiv> testPromise_step (fire_within cbs (Suc n)) p"
  assumes steps: "(run ^^ k) (testPromise_init h) S"
  shows "tp_out S = (if tp_main S \<in> {Main_printed, Main_returned} then ''future already retrieved'' @ nl else [])
    \<and> (tp_main S \<noteq> Main_waits \<longrightarrow> a_at S \<notin> {A_sleeping, A_locked})
    \<and> (tp_main S \<noteq> Main_returned \<longrightarrow>
         (mutex_held (promise_at (tp_heap S) p) \<longleftrightarrow> a_at S \<in> {A_locked, A_stored, A_fired}))
    \<and> k \<le> 8 \<and> (\<not> testPromise_over S \<longrightarrow> (\<exists>S'. run S S'))
    \<and> (\<exists>T U. run\<^sup>*\<^sup>* (testPromise_init h) T \<and> tp_main T = Main_printed \<and> a_at T = A_stored
         \<and> mutex_held (promise_at (tp_heap T) p)
         \<and> run\<^sup>*\<^sup>* T U \<and> testPromise_over U \<and> a_at U = A_dangling)
    \<and> (\<exists>U. run\<^sup>*\<^sup>* (testPromise_init h) U \<and> testPromise_over U \<and> a_at U = A_done)"
proof -
  have inv: "testPromise_inv h k S"
    using steps unfolding run_def p_def by (rule testPromise_runs)
  have "a_steps (a_at S) \<le> 4" "tp_main_steps (tp_main S) \<le> 4"
    by (cases "a_at S"; simp) (cases "tp_main S"; simp)
  then have "k \<le> 8" using inv by (simp add: testPromise_inv_def)
  moreover have "mutex_held (promise_at (tp_heap S) p) \<longleftrightarrow> a_at S \<in> {A_locked, A_stored, A_fired}"
    if "tp_main S \<noteq> Main_returned"
    using inv that a_heap_facts(1) [of "a_at S" h] by (simp add: testPromise_inv_def p_def)
  moreover obtain T where T: "run\<^sup>*\<^sup>* (testPromise_init h) T" "testPromise_inv h 5 T" "a_at T = A_stored" "tp_main T = Main_printed"
    using testPromise_reaches [of 2 3 cbs n h] by (auto simp: run_def p_def a_at_place main_at_end)
  moreover have "mutex_held (promise_at (tp_heap T) p)"
    using T(2-4) a_heap_facts(1) [of A_stored h] by (simp add: testPromise_inv_def p_def)
  moreover have "\<exists>U. run\<^sup>*\<^sup>* T U \<and> testPromise_over U \<and> a_at U = A_dangling"
  proof -
    let ?V = "T\<lparr>tp_main := Main_returned, tp_heap := testPromise_return p (tp_future T) (tp_heap T)\<rparr>"
    have "run T ?V" unfolding run_def by (rule testPromise_step.main_returns [OF T(4)])
    moreover have "run ?V (?V\<lparr>a_at := A_dangling\<rparr>)"
      unfolding run_def by (rule testPromise_step.a_dangles) (simp_all add: T(3))
    ultimately have "run\<^sup>*\<^sup>* T (?V\<lparr>a_at := A_dangling\<rparr>)" by simp
    then show ?thesis by (intro exI [of _ "?V\<lparr>a_at := A_dangling\<rparr>"]) (simp add: testPromise_over_def)
  qed
  moreover obtain U where "run\<^sup>*\<^sup>* (testPromise_init h) U" "a_at U = A_done" "tp_main U = Main_returned"
    using testPromise_reaches [of 4 4 cbs n h] by (auto simp: run_def p_def a_at_place main_at_end)
  moreover have "\<not> testPromise_over S \<longrightarrow> (\<exists>S'. run S S')"
    using testPromise_goes_on [OF inv] by (auto simp: run_def p_def)
  moreover have "tp_out S = (if tp_main S \<in> {Main_printed, Main_returned} then ''future already retrieved'' @ nl else [])"
    "tp_main S \<noteq> Main_waits \<longrightarrow> a_at S \<notin> {A_sleeping, A_locked}"
    using inv by (simp_all add: testPromise_inv_def the_line_def)
  ultimately show ?thesis
    unfolding testPromise_over_def by (intro conjI impI) blast+
qed

theorem testPromise_interleavings_witness:
  "\<exists>S. (testPromise_step (fire_within no_callables 1) 0 ^^ 1) (testPromise_init (\<lparr>shared = [], states = [], promises = []\<rparr> :: (int32_t, int) heap)) S
     \<and> a_at S = A_locked \<and> mutex_held (promise_at (tp_heap S) 0)
     \<and> (\<exists>S'. testPromise_step (fire_within no_callables 1) 0 S S')"
proof -
  let ?h = "\<lparr>shared = [], states = [], promises = []\<rparr> :: (int32_t, int) heap"
  note inv = testPromise_inv_init [of ?h]
  have "a_steps (a_at (testPromise_init ?h)) < 4" "tp_main (testPromise_init ?h) = Main_waits"
    "a_at (testPromise_init ?h) = A_sleeping"
    by (simp_all add: testPromise_init_def testPromise_start_eq)
  with a_moves [OF inv, where cbs = no_callables and n = 0] obtain S where
    S: "testPromise_step (fire_within no_callables 1) 0 (testPromise_init ?h) S" "a_steps (a_at S) = 1" "tp_main S = Main_waits"
    by auto
  let ?run = "testPromise_step (fire_within no_callables (Suc 0)) (length (promises ?h))"
  have run: "(?run ^^ 1) (testPromise_init ?h) S"
    using S(1) by (simp add: eq_OO)
  note main = testPromise_interleavings [OF run]
  have "a_at S = A_locked" using S(2) by (cases "a_at S") simp_all
  moreover from this have "mutex_held (promise_at (tp_heap S) 0)" using main S(3) by simp
  moreover have "\<exists>S'. ?run S S'" using main S(3) by (simp add: testPromise_over_def)
  ultimately show ?thesis using run by (auto simp: eq_OO)
qed

end
